(* ===== verification/Prelude.thy ===== *)
theory Prelude
  imports Complex_Main "HOL-Library.Word" "HOL-Library.AList"
begin

text \<open>
  Shared vocabulary of the development.

  \<^item> bytes and big-endian integers (\<open>int.from_bytes\<close>, \<open>struct.unpack\<close>), hexadecimal text;
  \<^item> the Python values that cross a JSON or keyword boundary (\<open>pyval\<close>) and the string
    operations the sources call (\<open>strip\<close>, \<open>lower\<close>, \<open>upper\<close>, \<open>startswith\<close>, \<open>split\<close>, \<open>int\<close>);
  \<^item> \<open>for\<close> loops that raise (\<open>foreach\<close>), over the sum type \<open>'e + 'a\<close> with \<open>Inl\<close> for a raised error;
  \<^item> labelled transition systems: reachability and the locale that lifts a one-step
    invariant to every reachable state.

  A Python \<open>str\<close> is a \<open>string\<close> (a list of \<open>char\<close>): the model covers ASCII text. Case conversion
  and white space are those of ASCII.
\<close>

named_theorems checks \<open>unfolding rules of guard functions that either raise or return\<close>
named_theorems lens \<open>lengths of encodings\<close>

type_synonym byte = "8 word"
type_synonym bytes = "byte list"

subsection \<open>Lists\<close>

lemma take_drop_append_eq: "n \<le> m \<Longrightarrow> take n xs @ take (m - n) (drop n xs) = take m xs"
  by (metis add_diff_inverse_nat not_le take_add)

lemma list_split_at:
  assumes "length xs = n + m"
  obtains ys zs where "xs = ys @ zs" "length ys = n" "length zs = m"
proof
  show "xs = take n xs @ drop n xs" by simp
qed (use assms in simp_all)

lemma length_4: "length xs = 4 \<longleftrightarrow> (\<exists>a b c d. xs = [a, b, c, d])"
  by (simp add: eval_nat_numeral length_Suc_conv) blast

lemma length_5: "length xs = 5 \<longleftrightarrow> (\<exists>a b c d e. xs = [a, b, c, d, e])"
  by (simp add: eval_nat_numeral length_Suc_conv) blast

lemma length_8: "length xs = 8 \<longleftrightarrow> (\<exists>a b c d e f g h. xs = [a, b, c, d, e, f, g, h])"
proof
  assume "length xs = 8"
  then obtain ys zs where "xs = ys @ zs" "length ys = 4" "length zs = 4"
    using list_split_at [of xs 4 4] by auto
  then show "\<exists>a b c d e f g h. xs = [a, b, c, d, e, f, g, h]" by (auto simp: length_4)
qed auto

lemma replicate_numeral_Cons: "replicate (numeral k) x = x # replicate (pred_numeral k) x"
  by (simp add: numeral_eq_Suc)

lemma list_all_replicateD: "list_all (\<lambda>x. x = a) xs \<Longrightarrow> xs = replicate (length xs) a"
  by (induction xs) auto

lemma set_replicate_eq_iff: "xs = replicate (length xs) a \<longleftrightarrow> (\<forall>x \<in> set xs. x = a)"
  by (metis in_set_replicate replicate_eqI)

subsection \<open>Big-endian integers\<close>

definition be_nat :: "bytes \<Rightarrow> nat" where
  "be_nat bs = foldl (\<lambda>a b. a * 256 + unat b) 0 bs"

lemma be_nat_acc: "foldl (\<lambda>a b. a * 256 + unat b) x bs = x * 256 ^ length bs + be_nat bs"
proof (induction bs arbitrary: x rule: rev_induct)
  case Nil
  then show ?case by (simp add: be_nat_def)
next
  case (snoc b bs)
  have "be_nat (bs @ [b]) = be_nat bs * 256 + unat b" by (simp add: be_nat_def)
  with snoc show ?case by (simp add: algebra_simps)
qed

lemma be_nat_Nil [simp]: "be_nat [] = 0"
  by (simp add: be_nat_def)

lemma be_nat_Cons [simp]: "be_nat (b # bs) = unat b * 256 ^ length bs + be_nat bs"
  using be_nat_acc [of "unat b" bs] by (simp add: be_nat_def)

lemma be_nat_append: "be_nat (xs @ ys) = be_nat xs * 256 ^ length ys + be_nat ys"
  by (induction xs) (auto simp: algebra_simps power_add)

lemma unat_byte_less [simp]: "unat (b :: byte) < 256"
proof -
  have "unat b < 2 ^ LENGTH(8)" by (rule unsigned_less)
  then show ?thesis by simp
qed

lemma unat_of_nat_byte: "n < 256 \<Longrightarrow> unat (of_nat n :: byte) = n"
  by (simp add: unsigned_of_nat take_bit_eq_mod)

lemma be_nat_less: "be_nat bs < 256 ^ length bs"
proof (induction bs)
  case (Cons b bs)
  have "unat b * 256 ^ length bs + be_nat bs < unat b * 256 ^ length bs + 256 ^ length bs"
    using Cons by simp
  also have "\<dots> = (unat b + 1) * 256 ^ length bs" by (simp add: algebra_simps)
  also have "\<dots> \<le> 256 * 256 ^ length bs"
    using unat_byte_less [of b] by (intro mult_right_mono) linarith+
  finally show ?case by simp
qed (simp add: be_nat_def)

lemma be_nat_inj:
  assumes "length xs = length ys" and "be_nat xs = be_nat ys"
  shows "xs = ys"
  using assms
proof (induction xs ys rule: list_induct2)
  case Nil
  then show ?case by simp
next
  case (Cons x xs y ys)
  have lx: "be_nat xs < 256 ^ length xs" and ly: "be_nat ys < 256 ^ length xs"
    using be_nat_less [of xs] be_nat_less [of ys] Cons.hyps by simp_all
  from Cons.prems Cons.hyps
  have eq: "unat x * 256 ^ length xs + be_nat xs = unat y * 256 ^ length xs + be_nat ys" by simp
  then have "(unat x * 256 ^ length xs + be_nat xs) div 256 ^ length xs
      = (unat y * 256 ^ length xs + be_nat ys) div 256 ^ length xs" by simp
  with lx ly have "unat x = unat y" by simp
  then have "x = y" by (simp add: word_unat_eq_iff)
  with eq have "be_nat xs = be_nat ys" by simp
  with Cons.IH \<open>x = y\<close> show ?case by simp
qed

lemma be_nat_zero_iff: "be_nat bs = 0 \<longleftrightarrow> bs = replicate (length bs) 0"
  by (induction bs) (auto simp: unat_eq_0)

text \<open>\<open>nat_be k n\<close> is \<open>n.to_bytes(k, "big")\<close> for \<open>n < 256 ^ k\<close>.\<close>

fun nat_be :: "nat \<Rightarrow> nat \<Rightarrow> bytes" where
  "nat_be 0 n = []"
| "nat_be (Suc k) n = nat_be k (n div 256) @ [of_nat (n mod 256)]"

lemma length_nat_be [simp, lens]: "length (nat_be k n) = k"
  by (induction k arbitrary: n) auto

lemma be_nat_nat_be: "n < 256 ^ k \<Longrightarrow> be_nat (nat_be k n) = n"
proof (induction k arbitrary: n)
  case 0
  then show ?case by simp
next
  case (Suc k)
  then have "be_nat (nat_be k (n div 256)) = n div 256"
    by (intro Suc.IH) (simp add: less_mult_imp_div_less)
  moreover have "unat (of_nat (n mod 256) :: byte) = n mod 256"
    by (simp add: unsigned_of_nat take_bit_eq_mod)
  ultimately have "be_nat (nat_be (Suc k) n) = n div 256 * 256 + n mod 256"
    by (simp add: be_nat_append del: of_nat_mod)
  then show ?case by (simp only: div_mult_mod_eq)
qed

lemma nat_be_be_nat: "length bs = k \<Longrightarrow> nat_be k (be_nat bs) = bs"
  using be_nat_less [of bs] by (intro be_nat_inj) (simp_all add: be_nat_nat_be)

lemma nat_be_pad:
  assumes "n < 256 ^ k"
  shows "nat_be (j + k) n = replicate j 0 @ nat_be k n"
proof (rule be_nat_inj)
  have "(256 :: nat) ^ k \<le> 256 ^ (j + k)" by (simp add: power_increasing)
  then have "be_nat (nat_be (j + k) n) = n" using assms by (intro be_nat_nat_be) linarith
  moreover have "be_nat (replicate j 0 @ nat_be k n) = n"
    using be_nat_zero_iff [of "replicate j 0"] assms by (simp add: be_nat_append be_nat_nat_be)
  ultimately show "be_nat (nat_be (j + k) n) = be_nat (replicate j 0 @ nat_be k n)" by simp
qed simp

subsection \<open>Python values\<close>

datatype pyval =
    PNone
  | PBool bool
  | PInt int
  | PFloat rat
  | PStr string
  | PList "pyval list"
  | PDict "(string \<times> pyval) list"

text \<open>Truth value of a Python object (\<open>if value:\<close>, \<open>a or b\<close>).\<close>

fun truthy :: "pyval \<Rightarrow> bool" where
  "truthy PNone = False"
| "truthy (PBool b) = b"
| "truthy (PInt i) = (i \<noteq> 0)"
| "truthy (PFloat r) = (r \<noteq> 0)"
| "truthy (PStr s) = (s \<noteq> [])"
| "truthy (PList xs) = (xs \<noteq> [])"
| "truthy (PDict d) = (d \<noteq> [])"

text \<open>\<open>d.get(k)\<close>: the value stored under \<open>k\<close>, or \<open>None\<close>.\<close>

definition dict_get :: "(string \<times> pyval) list \<Rightarrow> string \<Rightarrow> pyval" where
  "dict_get d k = (case map_of d k of Some v \<Rightarrow> v | None \<Rightarrow> PNone)"

subsection \<open>Strings\<close>

definition char_code :: "char \<Rightarrow> nat" where
  "char_code c = of_char c"

lemma char_code_inj: "char_code c = char_code d \<longleftrightarrow> c = d"
  by (simp add: char_code_def)

definition lower_char :: "char \<Rightarrow> char" where
  "lower_char c = (if 65 \<le> char_code c \<and> char_code c \<le> 90 then char_of (char_code c + 32) else c)"

definition upper_char :: "char \<Rightarrow> char" where
  "upper_char c = (if 97 \<le> char_code c \<and> char_code c \<le> 122 then char_of (char_code c - 32) else c)"

definition py_lower :: "string \<Rightarrow> string" where
  "py_lower s = map lower_char s"

definition py_upper :: "string \<Rightarrow> string" where
  "py_upper s = map upper_char s"

definition is_space :: "char \<Rightarrow> bool" where
  "is_space c \<longleftrightarrow> (9 \<le> char_code c \<and> char_code c \<le> 13) \<or> (28 \<le> char_code c \<and> char_code c \<le> 32)"

definition py_lstrip :: "string \<Rightarrow> string" where
  "py_lstrip s = dropWhile is_space s"

definition py_strip :: "string \<Rightarrow> string" where
  "py_strip s = rev (dropWhile is_space (rev (py_lstrip s)))"

definition startswith :: "string \<Rightarrow> string \<Rightarrow> bool" where
  "startswith s p \<longleftrightarrow> take (length p) s = p"

text \<open>\<open>part in s\<close>.\<close>

fun contains :: "string \<Rightarrow> string \<Rightarrow> bool" where
  "contains part [] \<longleftrightarrow> part = []"
| "contains part (c # cs) \<longleftrightarrow> startswith (c # cs) part \<or> contains part cs"

lemma char_code_char_of: "n < 256 \<Longrightarrow> char_code (char_of n) = n"
  by (simp add: char_code_def)

lemma lower_char_idem [simp]: "lower_char (lower_char c) = lower_char c"
  by (auto simp: lower_char_def char_code_char_of)

lemma upper_char_idem [simp]: "upper_char (upper_char c) = upper_char c"
  by (auto simp: upper_char_def char_code_char_of)

lemma py_lower_idem [simp]: "py_lower (py_lower s) = py_lower s"
  by (simp add: py_lower_def)

lemma py_upper_idem [simp]: "py_upper (py_upper s) = py_upper s"
  by (simp add: py_upper_def)

lemma length_py_lower [simp]: "length (py_lower s) = length s"
  by (simp add: py_lower_def)

lemma length_py_upper [simp]: "length (py_upper s) = length s"
  by (simp add: py_upper_def)

lemma is_space_lower [simp]: "is_space (lower_char c) = is_space c"
  by (auto simp: is_space_def lower_char_def char_code_char_of)

lemma is_space_upper [simp]: "is_space (upper_char c) = is_space c"
  by (auto simp: is_space_def upper_char_def char_code_char_of)

lemma dropWhile_dropWhile_rev:
  assumes "xs = dropWhile P xs"
  shows "rev (dropWhile P (rev xs)) = dropWhile P (rev (dropWhile P (rev xs)))"
proof (cases xs)
  case Nil
  then show ?thesis by simp
next
  case (Cons x ys)
  with assms have "\<not> P x" by (metis dropWhile_eq_Cons_conv list.distinct(1) list.inject)
  then have "\<exists>zs. rev (dropWhile P (rev xs)) = x # zs"
    unfolding Cons by (auto simp: dropWhile_append intro: exI [of _ "rev (dropWhile P (rev ys))"])
  with \<open>\<not> P x\<close> show ?thesis by auto
qed

lemma py_strip_idem [simp]: "py_strip (py_strip s) = py_strip s"
  unfolding py_strip_def py_lstrip_def
  by (metis dropWhile_dropWhile_rev dropWhile_idem rev_rev_ident)

lemma dropWhile_map_upper: "dropWhile is_space (map upper_char s) = map upper_char (dropWhile is_space s)"
  by (induction s) auto

lemma dropWhile_map_lower: "dropWhile is_space (map lower_char s) = map lower_char (dropWhile is_space s)"
  by (induction s) auto

lemma py_strip_upper: "py_strip (py_upper s) = py_upper (py_strip s)"
  by (simp add: py_strip_def py_lstrip_def py_upper_def dropWhile_map_upper rev_map)

lemma py_strip_lower: "py_strip (py_lower s) = py_lower (py_strip s)"
  by (simp add: py_strip_def py_lstrip_def py_lower_def dropWhile_map_lower rev_map)

text \<open>
  \<open>s.split(c)\<close> and \<open>s.partition(c)\<close> for a one-character separator, and the encoding of ASCII text.
  The second component of \<open>partition_on\<close> says whether the separator occurs.
\<close>

fun split_on :: "char \<Rightarrow> string \<Rightarrow> string list" where
  "split_on c [] = [[]]"
| "split_on c (d # s) =
     (if d = c then [] # split_on c s
      else (case split_on c s of [] \<Rightarrow> [[d]] | w # ws \<Rightarrow> (d # w) # ws))"

definition partition_on :: "char \<Rightarrow> string \<Rightarrow> string \<times> bool \<times> string" where
  "partition_on c s = (takeWhile (\<lambda>d. d \<noteq> c) s, c \<in> set s, drop 1 (dropWhile (\<lambda>d. d \<noteq> c) s))"

definition encode_ascii :: "string \<Rightarrow> bytes" where
  "encode_ascii s = map (\<lambda>c. of_nat (char_code c)) s"

lemma char_code_less [simp]: "char_code c < 256"
  by (simp add: char_code_def)

lemma encode_ascii_inj [simp]: "encode_ascii s = encode_ascii t \<longleftrightarrow> s = t"
proof -
  have "inj (\<lambda>c. of_nat (char_code c) :: byte)"
    by (rule injI) (metis char_code_inj char_code_less unat_of_nat_byte)
  then show ?thesis by (simp add: encode_ascii_def inj_map_eq_map)
qed

lemma length_encode_ascii [simp]: "length (encode_ascii s) = length s"
  by (simp add: encode_ascii_def)

subsection \<open>Digits and \<open>int(text, base)\<close>\<close>

definition digit_val :: "char \<Rightarrow> nat option" where
  "digit_val c =
     (let n = char_code c in
      if 48 \<le> n \<and> n \<le> 57 then Some (n - 48)
      else if 97 \<le> n \<and> n \<le> 122 then Some (n - 87)
      else if 65 \<le> n \<and> n \<le> 90 then Some (n - 55)
      else None)"

definition digit_in :: "nat \<Rightarrow> char \<Rightarrow> nat option" where
  "digit_in base c = (case digit_val c of Some v \<Rightarrow> if v < base then Some v else None | None \<Rightarrow> None)"

fun parse_digits :: "nat \<Rightarrow> nat \<Rightarrow> string \<Rightarrow> nat option" where
  "parse_digits base acc [] = Some acc"
| "parse_digits base acc (c # cs) =
     (if c = CHR ''_'' then
        (case cs of
           [] \<Rightarrow> None
         | d # ds \<Rightarrow> (case digit_in base d of
                        None \<Rightarrow> None
                      | Some v \<Rightarrow> parse_digits base (acc * base + v) ds))
      else (case digit_in base c of
              None \<Rightarrow> None
            | Some v \<Rightarrow> parse_digits base (acc * base + v) cs))"

definition int_body :: "nat \<Rightarrow> string \<Rightarrow> nat option" where
  "int_body base s =
     (case s of [] \<Rightarrow> None
      | c # _ \<Rightarrow> if c = CHR ''_'' then None else parse_digits base 0 s)"

definition strip_prefix16 :: "string \<Rightarrow> string" where
  "strip_prefix16 s =
     (if py_lower (take 2 s) = ''0x'' then
        (case drop 2 s of
           c # cs \<Rightarrow> if c = CHR ''_'' then cs else c # cs
         | [] \<Rightarrow> [])
      else s)"

text \<open>CPython refuses decimal text with more than 4300 digits (\<open>sys.int_info\<close>).\<close>

definition py_int :: "nat \<Rightarrow> string \<Rightarrow> int option" where
  "py_int base text =
     (let s = py_strip text;
          neg = (case s of c # _ \<Rightarrow> c = CHR ''-'' | [] \<Rightarrow> False);
          t = (case s of c # cs \<Rightarrow> if c = CHR ''-'' \<or> c = CHR ''+'' then cs else s | [] \<Rightarrow> []);
          body = (if base = 16 then strip_prefix16 t else t)
      in if base = 10 \<and> 4300 < length (filter (\<lambda>c. c \<noteq> CHR ''_'') body) then None
         else (case int_body base body of
                 None \<Rightarrow> None
               | Some n \<Rightarrow> Some (if neg then - int n else int n)))"

subsection \<open>Hexadecimal text\<close>

definition is_hex :: "char \<Rightarrow> bool" where
  "is_hex c \<longleftrightarrow> digit_in 16 c \<noteq> None"

definition hex_val :: "char \<Rightarrow> nat" where
  "hex_val c = (case digit_in 16 c of Some v \<Rightarrow> v | None \<Rightarrow> 0)"

definition hex_char :: "nat \<Rightarrow> char" where
  "hex_char n = (if n < 10 then char_of (48 + n) else char_of (87 + n))"

lemma hex_val_less: "hex_val c < 16"
  by (auto simp: hex_val_def digit_in_def split: option.splits)

lemma digit_in_hex_char: "n < 16 \<Longrightarrow> digit_in 16 (hex_char n) = Some n"
  by (auto simp: digit_in_def digit_val_def hex_char_def char_code_char_of Let_def)

lemma is_hex_hex_char [simp]: "n < 16 \<Longrightarrow> is_hex (hex_char n)"
  by (simp add: is_hex_def digit_in_hex_char)

lemma hex_val_hex_char [simp]: "n < 16 \<Longrightarrow> hex_val (hex_char n) = n"
  by (simp add: hex_val_def digit_in_hex_char)

text \<open>\<open>bytes.fromhex\<close> on an even number of hexadecimal digits, \<open>bytes.hex\<close>.\<close>

fun fromhex :: "string \<Rightarrow> bytes" where
  "fromhex (a # b # cs) = of_nat (hex_val a * 16 + hex_val b) # fromhex cs"
| "fromhex _ = []"

definition byte_hex :: "byte \<Rightarrow> string" where
  "byte_hex b = [hex_char (unat b div 16), hex_char (unat b mod 16)]"

definition tohex :: "bytes \<Rightarrow> string" where
  "tohex bs = concat (map byte_hex bs)"

lemma length_fromhex [lens]: "length (fromhex s) = length s div 2"
  by (induction s rule: fromhex.induct) auto

lemma length_tohex [simp, lens]: "length (tohex bs) = 2 * length bs"
  by (induction bs) (auto simp: tohex_def byte_hex_def)

lemma tohex_Nil [simp]: "tohex [] = []"
  by (simp add: tohex_def)

lemma tohex_Cons [simp]:
  "tohex (b # bs) = hex_char (unat b div 16) # hex_char (unat b mod 16) # tohex bs"
  by (simp add: tohex_def byte_hex_def)

lemma nibble_div_less [simp]: "unat (b :: byte) div 16 < 16"
  using unat_byte_less [of b] by linarith

lemma list_all_is_hex_tohex [simp]: "list_all is_hex (tohex bs)"
  by (induction bs) auto

lemma fromhex_tohex [simp]: "fromhex (tohex bs) = bs"
  by (induction bs) (auto simp: div_mult_mod_eq)

lemma tohex_append [simp]: "tohex (xs @ ys) = tohex xs @ tohex ys"
  by (simp add: tohex_def)

lemma inj_tohex: "inj tohex"
  by (metis fromhex_tohex injI)

lemma tohex_eq_iff [simp]: "tohex xs = tohex ys \<longleftrightarrow> xs = ys"
  by (metis fromhex_tohex)

definition HEX_DIGITS :: string where
  "HEX_DIGITS = ''0123456789abcdefABCDEF''"

lemma is_hex_iff: "is_hex c \<longleftrightarrow> c \<in> set HEX_DIGITS"
proof -
  have "c \<in> set HEX_DIGITS \<longleftrightarrow> char_code c \<in> set (map char_code HEX_DIGITS)"
    by (auto simp: char_code_inj)
  also have "map char_code HEX_DIGITS =
      [48, 49, 50, 51, 52, 53, 54, 55, 56, 57, 97, 98, 99, 100, 101, 102, 65, 66, 67, 68, 69, 70]"
    by (simp add: HEX_DIGITS_def char_code_def)
  also have "char_code c \<in> set \<dots> \<longleftrightarrow>
      char_code c \<in> {48..<58} \<or> char_code c \<in> {97..<103} \<or> char_code c \<in> {65..<71}"
    by (simp only: set_simps atLeastLessThan_iff insert_iff empty_iff) presburger
  also have "\<dots> \<longleftrightarrow> is_hex c"
    by (auto simp: is_hex_def digit_in_def digit_val_def Let_def split: if_splits)
  finally show ?thesis by simp
qed

lemma digit_in_lower_char: "digit_in b (lower_char c) = digit_in b c"
  by (auto simp: digit_in_def digit_val_def lower_char_def char_code_char_of Let_def)

lemma hex_val_lower_char [simp]: "hex_val (lower_char c) = hex_val c"
  by (auto simp: hex_val_def digit_in_lower_char)

lemma is_hex_lower_char [simp]: "is_hex (lower_char c) = is_hex c"
  by (simp add: is_hex_def digit_in_lower_char)

lemma fromhex_lower [simp]: "fromhex (py_lower s) = fromhex s"
  by (induction s rule: fromhex.induct) (auto simp: py_lower_def)

text \<open>\<open>f"{n:0wx}"\<close>: lower-case hexadecimal digits, zero-padded on the left to width \<open>w\<close>.\<close>

fun hex_digits :: "nat \<Rightarrow> string" where
  "hex_digits n = (if n < 16 then [hex_char n] else hex_digits (n div 16) @ [hex_char (n mod 16)])"

declare hex_digits.simps [simp del]

definition zfill :: "nat \<Rightarrow> string \<Rightarrow> string" where
  "zfill w s = replicate (w - length s) (CHR ''0'') @ s"

fun hex_fixed :: "nat \<Rightarrow> nat \<Rightarrow> string" where
  "hex_fixed 0 n = []"
| "hex_fixed (Suc w) n = hex_fixed w (n div 16) @ [hex_char (n mod 16)]"

lemma length_hex_fixed [simp]: "length (hex_fixed w n) = w"
  by (induction w arbitrary: n) auto

lemma hex_fixed_zero: "hex_fixed w 0 = replicate w (CHR ''0'')"
proof (induction w)
  case (Suc w)
  have "hex_char 0 = CHR ''0''" by code_simp
  with Suc show ?case by (simp add: replicate_append_same)
qed simp

lemma length_hex_digits: "0 < w \<Longrightarrow> n < 16 ^ w \<Longrightarrow> length (hex_digits n) \<le> w"
proof (induction n arbitrary: w rule: hex_digits.induct)
  case (1 n)
  show ?case
  proof (cases "n < 16")
    case True
    with 1 show ?thesis by (simp add: hex_digits.simps [of n])
  next
    case False
    with 1 obtain v where w: "w = Suc v" "0 < v" by (cases w; cases "w - 1") auto
    with 1 have "n div 16 < 16 ^ v" by (simp add: less_mult_imp_div_less)
    with 1(1) [OF False w(2)] False w show ?thesis by (simp add: hex_digits.simps [of n])
  qed
qed

lemma zfill_hex_digits: "0 < w \<Longrightarrow> n < 16 ^ w \<Longrightarrow> zfill w (hex_digits n) = hex_fixed w n"
proof (induction n arbitrary: w rule: hex_digits.induct)
  case (1 n)
  show ?case
  proof (cases "n < 16")
    case True
    obtain v where "w = Suc v" using 1 by (cases w) auto
    with True show ?thesis by (simp add: hex_digits.simps [of n] zfill_def hex_fixed_zero)
  next
    case False
    with 1 obtain v where w: "w = Suc v" "0 < v" by (cases w; cases "w - 1") auto
    with 1 have "n div 16 < 16 ^ v" by (simp add: less_mult_imp_div_less)
    with 1(1) [OF False w(2)] False w show ?thesis
      by (simp add: hex_digits.simps [of n] zfill_def)
  qed
qed

lemma hex_fixed_nat_be: "hex_fixed (2 * k) n = tohex (nat_be k n)"
proof (induction k arbitrary: n)
  case (Suc k)
  have u: "unat (of_nat (n mod 256) :: byte) = n mod 256"
    by (simp add: unsigned_of_nat take_bit_eq_mod)
  have m: "n mod 256 = 16 * (n div 16 mod 16) + n mod 16" using mod_mult2_eq [of n 16 16] by simp
  have d: "n mod 256 div 16 = n div 16 mod 16" unfolding m by simp
  have e: "n mod 256 mod 16 = n mod 16" unfolding m by simp
  have f: "n div 16 div 16 = n div 256" by (simp add: div_mult2_eq [symmetric])
  have "hex_fixed (2 * Suc k) n = hex_fixed (2 * k) (n div 256) @ [hex_char (n div 16 mod 16), hex_char (n mod 16)]"
    by (simp add: f)
  also have "\<dots> = tohex (nat_be k (n div 256)) @ [hex_char (n mod 256 div 16), hex_char (n mod 256 mod 16)]"
    by (simp only: Suc d e)
  also have "\<dots> = tohex (nat_be (Suc k) n)"
    by (simp only: nat_be.simps tohex_append tohex_Cons tohex_Nil u)
  finally show ?case .
qed simp

text \<open>\<open>str(n)\<close> for a non-negative integer.\<close>

fun str_nat :: "nat \<Rightarrow> string" where
  "str_nat n = (if n < 10 then [char_of (48 + n)] else str_nat (n div 10) @ [char_of (48 + n mod 10)])"

declare str_nat.simps [simp del]

definition is_digit :: "char \<Rightarrow> bool" where
  "is_digit c \<longleftrightarrow> 48 \<le> char_code c \<and> char_code c \<le> 57"

definition dec_val :: "string \<Rightarrow> nat" where
  "dec_val s = foldl (\<lambda>n c. n * 10 + (char_code c - 48)) 0 s"

lemma dec_val_str_nat [simp]: "dec_val (str_nat n) = n"
proof (induction n rule: str_nat.induct)
  case (1 n)
  show ?case
  proof (cases "n < 10")
    case True
    then show ?thesis by (subst str_nat.simps) (simp add: dec_val_def char_code_char_of)
  next
    case False
    then have "dec_val (str_nat n) = n div 10 * 10 + n mod 10"
      using 1 by (subst str_nat.simps) (simp add: dec_val_def char_code_char_of)
    then show ?thesis by (simp only: div_mult_mod_eq)
  qed
qed

lemma str_nat_eq_iff [simp]: "str_nat m = str_nat n \<longleftrightarrow> m = n"
  by (metis dec_val_str_nat)

lemma is_digit_str_nat: "list_all is_digit (str_nat n)"
proof (induction n rule: str_nat.induct)
  case (1 n)
  have "is_digit (char_of (48 + k))" if "k < 10" for k :: nat
    using that by (simp add: is_digit_def char_code_char_of)
  with 1 show ?case by (subst str_nat.simps) auto
qed

lemma str_nat_not_Nil [simp]: "str_nat n \<noteq> []"
  by (subst str_nat.simps) simp

definition str_int :: "int \<Rightarrow> string" where
  "str_int i = (if i < 0 then CHR ''-'' # str_nat (nat (- i)) else str_nat (nat i))"

lemma str_nat_not_minus [simp]: "str_nat n \<noteq> CHR ''-'' # s" "CHR ''-'' # s \<noteq> str_nat n"
proof -
  show "str_nat n \<noteq> CHR ''-'' # s"
    using is_digit_str_nat [of n] by (auto simp: is_digit_def char_code_def)
  then show "CHR ''-'' # s \<noteq> str_nat n" by metis
qed

lemma str_int_eq_iff [simp]: "str_int i = str_int j \<longleftrightarrow> i = j"
  by (auto simp: str_int_def)

text \<open>\<open>int(str(n))\<close> is \<open>n\<close>, within the interpreter's limit of 4300 digits.\<close>

lemma digit_in_10: "is_digit c \<Longrightarrow> digit_in 10 c = Some (char_code c - 48)"
  by (auto simp: is_digit_def digit_in_def digit_val_def Let_def)

lemma is_digit_plain:
  "is_digit c \<Longrightarrow> c \<noteq> CHR ''_'' \<and> c \<noteq> CHR ''-'' \<and> c \<noteq> CHR ''+'' \<and> \<not> is_space c"
  by (auto simp: is_digit_def is_space_def char_code_def)

lemma parse_digits_10:
  "list_all is_digit s \<Longrightarrow> parse_digits 10 a s = Some (foldl (\<lambda>n c. n * 10 + (char_code c - 48)) a s)"
proof (induction s arbitrary: a)
  case (Cons c s)
  then show ?case using is_digit_plain [of c] digit_in_10 [of c] by auto
qed simp

lemma py_int_str_nat:
  assumes "length (str_nat n) \<le> 4300"
  shows "py_int 10 (str_nat n) = Some (int n)"
proof -
  let ?s = "str_nat n"
  have dig: "list_all is_digit ?s" by (rule is_digit_str_nat)
  have nospace: "dropWhile is_space t = t" if "list_all is_digit t" for t
    using that is_digit_plain by (cases t) auto
  have strip: "py_strip ?s = ?s"
    using dig nospace [of ?s] nospace [of "rev ?s"] by (simp add: py_strip_def py_lstrip_def)
  obtain c cs where s: "?s = c # cs" by (cases ?s) auto
  have c: "is_digit c" using dig s by simp
  have "length (filter (\<lambda>c. c \<noteq> CHR ''_'') ?s) \<le> 4300"
    using assms length_filter_le [of "\<lambda>c. c \<noteq> CHR ''_''" ?s] by linarith
  moreover have "parse_digits 10 0 ?s = Some n"
    using parse_digits_10 [OF dig, of 0] dec_val_str_nat [of n] by (simp add: dec_val_def)
  ultimately show ?thesis
    unfolding py_int_def strip Let_def using is_digit_plain [OF c] by (simp add: s int_body_def)
qed

lemma length_str_nat: "n < 10 ^ k \<Longrightarrow> 0 < k \<Longrightarrow> length (str_nat n) \<le> k"
proof (induction n arbitrary: k rule: str_nat.induct)
  case (1 n)
  show ?case
  proof (cases "n < 10")
    case True
    then show ?thesis using "1.prems" by (subst str_nat.simps) simp
  next
    case False
    obtain j where j: "k = Suc j" using "1.prems" by (cases k) auto
    then have k: "k = Suc j" "0 < j" using "1.prems" False by (cases j; simp)+
    then have "n div 10 < 10 ^ j" using "1.prems" by (simp add: less_mult_imp_div_less mult.commute)
    then show ?thesis using "1.IH" [OF False, of j] k False by (subst str_nat.simps) simp
  qed
qed

text \<open>Length-prefixed framing \<open>f"{len(v)}:{v}"\<close> of one field; frames can be split off again.\<close>

definition frame :: "string \<Rightarrow> string" where
  "frame v = str_nat (length (encode_ascii v)) @ CHR '':'' # v"

lemma split_at_colon:
  assumes "list_all is_digit ds" "list_all is_digit es" "ds @ CHR '':'' # s = es @ CHR '':'' # t"
  shows "ds = es \<and> s = t"
proof -
  have colon: "CHR '':'' \<notin> set ds" "CHR '':'' \<notin> set es"
    using assms(1,2) by (auto simp: list_all_iff is_digit_def char_code_def)
  have tw: "takeWhile (\<lambda>c. c \<noteq> x) (as @ x # bs) = as" if "x \<notin> set as" for as bs and x :: char
    using that by (induction as) auto
  have "ds = es" using tw [OF colon(1), of s] tw [OF colon(2), of t] assms(3) by simp
  with assms(3) show ?thesis by simp
qed

lemma frame_append_inj: "frame v @ s = frame w @ t \<longleftrightarrow> v = w \<and> s = t"
proof
  assume "frame v @ s = frame w @ t"
  then have "str_nat (length v) @ CHR '':'' # (v @ s) = str_nat (length w) @ CHR '':'' # (w @ t)"
    by (simp add: frame_def)
  from split_at_colon [OF is_digit_str_nat is_digit_str_nat this]
  show "v = w \<and> s = t" by (auto simp: append_eq_append_conv)
qed simp

lemma frames_inj: "length vs = length ws \<Longrightarrow> concat (map frame vs) = concat (map frame ws) \<longleftrightarrow> vs = ws"
  by (induction vs ws rule: list_induct2) (auto simp: frame_append_inj)

text \<open>Hexadecimal text is accepted by \<open>int(text, 16)\<close>.\<close>

lemma is_hex_plain:
  assumes "is_hex c"
  shows "\<not> is_space c \<and> c \<noteq> CHR ''-'' \<and> c \<noteq> CHR ''+'' \<and> c \<noteq> CHR ''_'' \<and> lower_char c \<noteq> CHR ''x''"
proof -
  have "list_all (\<lambda>c. \<not> is_space c \<and> c \<noteq> CHR ''-'' \<and> c \<noteq> CHR ''+'' \<and> c \<noteq> CHR ''_'' \<and> lower_char c \<noteq> CHR ''x'')
      HEX_DIGITS"
    by (simp add: HEX_DIGITS_def is_space_def lower_char_def char_code_def char_of_eq_iff)
  then show ?thesis using assms unfolding is_hex_iff list_all_iff by blast
qed

lemma parse_digits_hex: "list_all is_hex s \<Longrightarrow> parse_digits 16 a s \<noteq> None"
proof (induction s arbitrary: a)
  case (Cons c s)
  then show ?case using is_hex_plain [of c] by (auto simp: is_hex_def)
qed simp

lemma hex_text_py_int:
  assumes "list_all is_hex s" "s \<noteq> []"
  shows "py_int 16 s \<noteq> None"
proof -
  have nospace: "dropWhile is_space t = t" if "list_all is_hex t" for t
    using that is_hex_plain by (cases t) auto
  have strip: "py_strip s = s"
    using assms(1) nospace [of s] nospace [of "rev s"] by (simp add: py_strip_def py_lstrip_def)
  obtain c cs where s: "s = c # cs" using assms(2) by (cases s) auto
  have "strip_prefix16 s = s"
    using assms(1) is_hex_plain by (cases cs) (auto simp: strip_prefix16_def s py_lower_def)
  then show ?thesis
    using assms(1) is_hex_plain [of c] parse_digits_hex [of s 0]
    unfolding py_int_def strip Let_def by (auto simp: s int_body_def)
qed

subsection \<open>Statements that may raise\<close>

text \<open>\<open>x = r; ...\<close> where evaluating \<open>r\<close> may raise: the error is passed on, the value is bound.\<close>

definition andthen :: "'e + 'a \<Rightarrow> ('a \<Rightarrow> 'e + 'b) \<Rightarrow> 'e + 'b" where
  "andthen r f = (case r of Inl e \<Rightarrow> Inl e | Inr x \<Rightarrow> f x)"

lemma andthen_Inl [simp]: "andthen (Inl e) f = Inl e"
  by (simp add: andthen_def)

lemma andthen_Inr [simp]: "andthen (Inr x) f = f x"
  by (simp add: andthen_def)

lemma andthen_eq_Inr: "andthen r f = Inr y \<longleftrightarrow> (\<exists>x. r = Inr x \<and> f x = Inr y)"
  by (cases r) auto

lemma andthen_eq_Inl: "andthen r f = Inl e \<longleftrightarrow> r = Inl e \<or> (\<exists>x. r = Inr x \<and> f x = Inl e)"
  by (cases r) auto

definition guard :: "bool \<Rightarrow> 'e \<Rightarrow> 'e + unit" where
  "guard ok e = (if ok then Inr () else Inl e)"

lemma guard_eq_Inr [simp]: "guard b e = Inr u \<longleftrightarrow> b"
  by (simp add: guard_def)

lemma guard_eq_Inl [simp]: "guard b e = Inl e' \<longleftrightarrow> \<not> b \<and> e' = e"
  by (auto simp: guard_def)

lemma guard_True [simp]: "guard True e = Inr ()"
  by (simp add: guard_def)

lemma guard_False [simp]: "guard False e = Inl e"
  by (simp add: guard_def)

subsection \<open>Loops that may raise\<close>

text \<open>\<open>for x in xs: body\<close> with the loop state threaded through; the first raised error ends it.\<close>

fun foreach :: "('a \<Rightarrow> 's \<Rightarrow> 'e + 's) \<Rightarrow> 'a list \<Rightarrow> 's \<Rightarrow> 'e + 's" where
  "foreach body [] s = Inr s"
| "foreach body (x # xs) s = (case body x s of Inl e \<Rightarrow> Inl e | Inr t \<Rightarrow> foreach body xs t)"

lemma foreach_append:
  "foreach body (xs @ ys) s = (case foreach body xs s of Inl e \<Rightarrow> Inl e | Inr t \<Rightarrow> foreach body ys t)"
  by (induction xs arbitrary: s) (auto split: sum.splits)

lemma foreach_invariant:
  assumes "foreach body xs s = Inr t" and "P s"
    and "\<And>x u v. x \<in> set xs \<Longrightarrow> P u \<Longrightarrow> body x u = Inr v \<Longrightarrow> P v"
  shows "P t"
  using assms
proof (induction xs arbitrary: s)
  case Nil
  then show ?case by simp
next
  case (Cons x xs)
  then obtain u where u: "body x s = Inr u" and r: "foreach body xs u = Inr t"
    by (auto split: sum.splits)
  show ?case
  proof (rule Cons.IH [OF r])
    show "P u" using Cons.prems(2,3) u by auto
  qed (use Cons.prems(3) in auto)
qed

subsection \<open>Dictionaries\<close>

text \<open>
  A Python dictionary is an association list with distinct keys, in insertion order: \<open>d[k] = v\<close> is
  \<open>AList.update\<close> (in place, or at the end for a new key), \<open>d.pop(k)\<close> is \<open>AList.delete\<close>.
\<close>

lemma update_new_key: "k \<notin> fst ` set d \<Longrightarrow> AList.update k v d = d @ [(k, v)]"
  by (induction d) auto

lemma map_of_delete_upd [simp]: "map_of (AList.delete k d) = (map_of d)(k := None)"
  by (rule delete_conv')

lemma key_not_in_delete [simp]: "k \<notin> fst ` set (AList.delete k d)"
  by (induction d) auto

lemma set_alist_update: "set (AList.update k v d) \<subseteq> insert (k, v) (set d)"
  by (induction d) auto

lemma set_alist_delete: "set (AList.delete k d) \<subseteq> set d"
  by (induction d) auto

lemma keys_update: "k \<in> fst ` set d \<Longrightarrow> map fst (AList.update k v d) = map fst d"
  by (induction d) auto

lemma length_delete_less: "k \<in> fst ` set d \<Longrightarrow> length (AList.delete k d) < length d"
  by (induction d) (auto simp: le_imp_less_Suc length_delete_le)

lemma length_update: "length (AList.update k v d) = (if k \<in> fst ` set d then length d else length d + 1)"
  by (induction d) auto

subsection \<open>Counting\<close>

text \<open>How many elements of a list satisfy a predicate, as an integer.\<close>

definition how_many :: "('a \<Rightarrow> bool) \<Rightarrow> 'a list \<Rightarrow> int" where
  "how_many P xs = int (length (filter P xs))"

lemma how_many_simps [simp]:
  "how_many P [] = 0" "how_many P (x # xs) = (if P x then 1 else 0) + how_many P xs"
  "how_many P (xs @ ys) = how_many P xs + how_many P ys"
  by (simp_all add: how_many_def)

lemma how_many_nonneg [simp]: "0 \<le> how_many P xs"
  by (simp add: how_many_def)

lemma how_many_plus_one [simp]: "how_many P xs + 1 \<noteq> 0"
  using how_many_nonneg [of P xs] by linarith

lemma how_many_update:
  "i < length xs \<Longrightarrow> how_many P (xs[i := x]) =
     how_many P xs - (if P (xs ! i) then 1 else 0) + (if P x then 1 else 0)"
  by (induction xs arbitrary: i) (auto simp: nth_Cons split: nat.splits)

lemma how_many_pos: "i < length xs \<Longrightarrow> P (xs ! i) \<Longrightarrow> 0 < how_many P xs"
  by (auto simp: how_many_def filter_empty_conv intro: nth_mem)

lemma how_many_none: "list_all (\<lambda>x. \<not> P x) xs \<Longrightarrow> how_many P xs = 0"
  by (induction xs) auto

lemma how_many_mono: "(\<And>x. P x \<Longrightarrow> Q x) \<Longrightarrow> how_many P xs \<le> how_many Q xs"
  by (induction xs) auto

subsection \<open>Transition systems\<close>

inductive reachable :: "('s \<Rightarrow> bool) \<Rightarrow> ('s \<Rightarrow> 'l \<Rightarrow> 's \<Rightarrow> bool) \<Rightarrow> 's \<Rightarrow> bool"
  for init :: "'s \<Rightarrow> bool" and step :: "'s \<Rightarrow> 'l \<Rightarrow> 's \<Rightarrow> bool" where
  reach_init: "init s \<Longrightarrow> reachable init step s"
| reach_step: "reachable init step s \<Longrightarrow> step s l t \<Longrightarrow> reachable init step t"

lemma reachable_fold:
  assumes "init s"
  shows "reachable init (\<lambda>s op t. t = f op s) (fold f ops s)"
  by (induction ops rule: rev_induct) (auto intro: reachable.intros assms)

locale invariant_system =
  fixes init :: "'s \<Rightarrow> bool"
    and step :: "'s \<Rightarrow> 'l \<Rightarrow> 's \<Rightarrow> bool"
    and inv :: "'s \<Rightarrow> bool"
  assumes inv_init: "init s \<Longrightarrow> inv s"
    and inv_step: "inv s \<Longrightarrow> step s l t \<Longrightarrow> inv t"
begin

lemma inv_reachable: "reachable init step s \<Longrightarrow> inv s"
  by (induction rule: reachable.induct) (blast intro: inv_init inv_step)+

end

subsection \<open>Finding rows\<close>

lemma find_append: "find P (xs @ ys) = (case find P xs of None \<Rightarrow> find P ys | Some x \<Rightarrow> Some x)"
  by (induction xs) auto

lemma find_filter_keep: "(\<And>x. x \<in> set xs \<Longrightarrow> P x \<Longrightarrow> Q x) \<Longrightarrow> find P (filter Q xs) = find P xs"
  by (induction xs) auto

lemma find_append_keep: "find P xs = Some x \<Longrightarrow> find P (xs @ ys) = Some x"
  by (induction xs) (auto split: if_splits)

lemma find_map_same: "(\<And>r. P (f r) = P r) \<Longrightarrow> find P (map f rs) = map_option f (find P rs)"
  by (induction rs) auto

subsection \<open>Runs and codecs\<close>

text \<open>
  Running a list of operations that may raise (\<open>None\<close>), and forward simulation: a relation between
  concrete and abstract states kept by every operation is kept by every run.
\<close>

fun run_ops :: "('op \<Rightarrow> 's \<Rightarrow> 's option) \<Rightarrow> 'op list \<Rightarrow> 's \<Rightarrow> 's option" where
  "run_ops step [] s = Some s"
| "run_ops step (op # ops) s = (case step op s of None \<Rightarrow> None | Some s' \<Rightarrow> run_ops step ops s')"

locale simulation =
  fixes step :: "'op \<Rightarrow> 's \<Rightarrow> 's option"
    and astep :: "'op \<Rightarrow> 'a \<Rightarrow> 'a"
    and rel :: "'s \<Rightarrow> 'a \<Rightarrow> bool"
  assumes rel_step: "rel s a \<Longrightarrow> step op s = Some s' \<Longrightarrow> rel s' (astep op a)"
begin

lemma rel_run: "rel s a \<Longrightarrow> run_ops step ops s = Some s' \<Longrightarrow> rel s' (fold astep ops a)"
  by (induction ops arbitrary: s a) (auto split: option.splits dest: rel_step)

end

text \<open>
  A decoder that accepts exactly the encodings of well-formed values. What a client gets from
  this contract: encoding round-trips, an accepted text has one value and a value has one
  accepted text.
\<close>

locale codec =
  fixes decode :: "'c \<Rightarrow> 'e + 'r"
    and encode :: "'r \<Rightarrow> 'c"
    and wf :: "'r \<Rightarrow> bool"
  assumes decode_iff: "decode c = Inr r \<longleftrightarrow> c = encode r \<and> wf r"
begin

lemma decode_encode: "wf r \<Longrightarrow> decode (encode r) = Inr r"
  by (simp add: decode_iff)

lemma decode_canonical: "decode c = Inr r \<Longrightarrow> decode d = Inr r \<Longrightarrow> c = d"
  by (simp add: decode_iff)

lemma encode_inj: "wf r \<Longrightarrow> wf s \<Longrightarrow> encode r = encode s \<Longrightarrow> r = s"
  by (metis decode_encode sum.inject(2))

lemma rejects: "(\<nexists>r. wf r \<and> c = encode r) \<longleftrightarrow> (\<exists>e. decode c = Inl e)"
  by (metis decode_iff obj_sumE sum.distinct(1))

end

end
