(* ===== verification/Verifier_Inputs.thy ===== *)
theory Verifier_Inputs
  imports Prelude
begin

text \<open>
  The canonical verifier-input codec, \<^verbatim>\<open>backend/verifier_inputs.py\<close>: bounded hexadecimal
  decoding, the BN254 field codec, the three public-input schemas and the conformance
  classifier. SHA-256 (\<^verbatim>\<open>hashlib\<close>) is the parameter \<open>H\<close>; it only enters through the
  module constant \<open>SILENT_WITNESS_DOMAIN_TAG\<close>.
\<close>

subsection \<open>Constants\<close>

definition FIELD_LEN :: nat where "FIELD_LEN = 32"
definition SILENT_WITNESS_FIELD_COUNT :: nat where "SILENT_WITNESS_FIELD_COUNT = 5"
definition REVOCATION_FIELD_COUNT :: nat where "REVOCATION_FIELD_COUNT = 4"
definition SILENT_WITNESS_PUBLIC_INPUTS_LEN :: nat where
  "SILENT_WITNESS_PUBLIC_INPUTS_LEN = FIELD_LEN * SILENT_WITNESS_FIELD_COUNT"
definition REVOCATION_PUBLIC_INPUTS_LEN :: nat where
  "REVOCATION_PUBLIC_INPUTS_LEN = FIELD_LEN * REVOCATION_FIELD_COUNT"
definition SILENT_WITNESS_V2_FIELD_COUNT :: nat where "SILENT_WITNESS_V2_FIELD_COUNT = 8"
definition SILENT_WITNESS_V2_PUBLIC_INPUTS_LEN :: nat where
  "SILENT_WITNESS_V2_PUBLIC_INPUTS_LEN = FIELD_LEN * SILENT_WITNESS_V2_FIELD_COUNT"
definition EXPECTED_CIRCUIT_VERSION :: nat where "EXPECTED_CIRCUIT_VERSION = 2"
definition MIN_PROOF_BYTES :: nat where "MIN_PROOF_BYTES = 64"
definition MAX_PROOF_BYTES :: nat where "MAX_PROOF_BYTES = 65536"
definition MIN_AGGREGATION_SIZE :: int where "MIN_AGGREGATION_SIZE = 1"
definition MAX_AGGREGATION_SIZE :: int where "MAX_AGGREGATION_SIZE = 8"
definition MAX_HEX_CHARS :: nat where "MAX_HEX_CHARS = 2 * (MAX_PROOF_BYTES + 1024)"
definition BN254_SCALAR_FIELD_MODULUS :: nat where
  "BN254_SCALAR_FIELD_MODULUS =
     21888242871839275222246405745257275088548364400416034343698204186575808495617"
definition MAX_REVOCATION_WITNESS_DEPTH :: int where "MAX_REVOCATION_WITNESS_DEPTH = 16"

lemmas frame_lens = FIELD_LEN_def SILENT_WITNESS_FIELD_COUNT_def REVOCATION_FIELD_COUNT_def
  SILENT_WITNESS_PUBLIC_INPUTS_LEN_def REVOCATION_PUBLIC_INPUTS_LEN_def
  SILENT_WITNESS_V2_FIELD_COUNT_def SILENT_WITNESS_V2_PUBLIC_INPUTS_LEN_def

definition ascii_bytes :: "string \<Rightarrow> bytes" where
  "ascii_bytes s = map (\<lambda>c. of_nat (char_code c)) s"

definition REVOCATION_DOMAIN_SEPARATOR :: bytes where
  "REVOCATION_DOMAIN_SEPARATOR = replicate 7 0 @ ascii_bytes ''HARPOCRATES_REVOCATION_V1''"

definition DOMAIN_PROTOCOL_FIELD :: bytes where
  "DOMAIN_PROTOCOL_FIELD = fromhex ''261e9f6e39e3c1ae6aca9f29e84c10d59c82d5f4b40c21c1b7e3c01ad571c201''"
definition DOMAIN_VERSION_FIELD :: bytes where
  "DOMAIN_VERSION_FIELD = fromhex ''0c89eff4ec8e39a01e9f19547a0cc9dd7fd2a97d79ba4d94fd32e97a1f5ac623''"
definition DOMAIN_NETWORK_FIELD :: bytes where
  "DOMAIN_NETWORK_FIELD = fromhex ''2a2c3f48ce2e3c2f1e6c89b18d64b5f5c1f88a59a0d9bc82cb61a1e8cb77a50f''"

definition SILENT_WITNESS_DOMAIN_TAG :: "(bytes \<Rightarrow> bytes) \<Rightarrow> bytes" where
  "SILENT_WITNESS_DOMAIN_TAG H = H (DOMAIN_PROTOCOL_FIELD @ DOMAIN_VERSION_FIELD @ DOMAIN_NETWORK_FIELD)"

definition SCHEMA_SILENT_WITNESS :: string where "SCHEMA_SILENT_WITNESS = ''silent_witness/v1''"
definition SCHEMA_REVOCATION_WITNESS :: string where "SCHEMA_REVOCATION_WITNESS = ''revocation_witness/v1''"
definition SCHEMA_SILENT_WITNESS_V2 :: string where "SCHEMA_SILENT_WITNESS_V2 = ''silent_witness/v2''"

definition ZERO_FIELD_BYTES :: bytes where "ZERO_FIELD_BYTES = replicate FIELD_LEN 0"

subsection \<open>Errors and parsed inputs\<close>

datatype RejectCode =
    MALFORMED_HEX | BAD_LENGTH | PADDING | NON_CANONICAL_FIELD | ZERO_FIELD | DOMAIN_MISMATCH
  | PROOF_UNDERSIZE | PROOF_OVERSIZE | UNKNOWN_SCHEMA | VERSION_MISMATCH

fun reject_value :: "RejectCode \<Rightarrow> string" where
  "reject_value MALFORMED_HEX = ''malformed_hex''"
| "reject_value BAD_LENGTH = ''length''"
| "reject_value PADDING = ''padding''"
| "reject_value NON_CANONICAL_FIELD = ''non_canonical_field''"
| "reject_value ZERO_FIELD = ''zero_field''"
| "reject_value DOMAIN_MISMATCH = ''domain_mismatch''"
| "reject_value PROOF_UNDERSIZE = ''proof_undersize''"
| "reject_value PROOF_OVERSIZE = ''proof_oversize''"
| "reject_value UNKNOWN_SCHEMA = ''unknown_schema''"
| "reject_value VERSION_MISMATCH = ''version_mismatch''"

record VerifierInputError =
  err_code :: RejectCode
  err_field :: "string option"

definition reject :: "RejectCode \<Rightarrow> string \<Rightarrow> VerifierInputError" where
  "reject c f = \<lparr>err_code = c, err_field = Some f\<rparr>"

lemma err_code_reject [simp]: "err_code (reject c f) = c"
  by (simp add: reject_def)

text \<open>\<open>VerifierInputError.signal\<close>: the privacy-safe log payload.\<close>

definition signal :: "VerifierInputError \<Rightarrow> (string \<times> string) list" where
  "signal e = [(''codec'', ''hpx-vi/1''), (''reject_code'', reject_value (err_code e))]
     @ (case err_field e of None \<Rightarrow> [] | Some f \<Rightarrow> [(''field'', f)])"

record SilentWitnessInputs =
  video_hash :: bytes
  credential_root :: bytes
  nullifier :: bytes
  domain_tag :: bytes
  verifier_scope :: "bytes option"
  epoch :: "bytes option"
  circuit_version :: "nat option"

record RevocationWitnessInputs =
  rw_revocation_root :: bytes
  rw_nullifier :: bytes
  rw_domain_separator :: bytes
  rw_credential_root :: bytes

datatype PublicInputs = SilentWitness SilentWitnessInputs | RevocationWitness RevocationWitnessInputs

subsection \<open>Primitives\<close>

definition constant_time_equals :: "bytes \<Rightarrow> bytes \<Rightarrow> bool" where
  "constant_time_equals left right \<longleftrightarrow> left = right"

definition decode_hex :: "pyval \<Rightarrow> string \<Rightarrow> RejectCode \<Rightarrow> VerifierInputError + bytes" where
  "decode_hex value field oversize_code =
     (case value of
        PStr s \<Rightarrow>
          (if length s > MAX_HEX_CHARS then Inl (reject oversize_code field)
           else if length s mod 2 \<noteq> 0 then Inl (reject MALFORMED_HEX field)
           else if list_ex (\<lambda>c. c \<notin> set HEX_DIGITS) s then Inl (reject MALFORMED_HEX field)
           else Inr (fromhex s))
      | _ \<Rightarrow> Inl (reject MALFORMED_HEX field))"

definition parse_field_value :: "pyval \<Rightarrow> string \<Rightarrow> VerifierInputError + int" where
  "parse_field_value value field =
     (case value of
        PInt i \<Rightarrow> Inr i
      | PStr s \<Rightarrow>
          (if s = [] then Inl (reject MALFORMED_HEX field)
           else (case (if startswith (py_lower s) ''0x'' then py_int 16 s else py_int 10 s) of
                   Some n \<Rightarrow> Inr n
                 | None \<Rightarrow> Inl (reject MALFORMED_HEX field)))
      | _ \<Rightarrow> Inl (reject MALFORMED_HEX field))"

definition encode_field_to_bytes32_hex :: "pyval \<Rightarrow> string \<Rightarrow> VerifierInputError + string" where
  "encode_field_to_bytes32_hex value field =
     andthen (parse_field_value value field) (\<lambda>element.
       if element < 0 \<or> element \<ge> int BN254_SCALAR_FIELD_MODULUS
       then Inl (reject NON_CANONICAL_FIELD field)
       else Inr (zfill 64 (hex_digits (nat element))))"

definition public_input_name :: "string list \<Rightarrow> nat \<Rightarrow> string" where
  "public_input_name names index =
     (if index < length names then names ! index else ''field_'' @ str_nat index)"

fun encode_from :: "string list \<Rightarrow> nat \<Rightarrow> pyval list \<Rightarrow> VerifierInputError + string" where
  "encode_from names index [] = Inr []"
| "encode_from names index (v # vs) =
     andthen (encode_field_to_bytes32_hex v (public_input_name names index)) (\<lambda>h.
     andthen (encode_from names (Suc index) vs) (\<lambda>t. Inr (h @ t)))"

definition encode_public_inputs :: "pyval list \<Rightarrow> string list \<Rightarrow> VerifierInputError + string" where
  "encode_public_inputs values names = encode_from names 0 values"

definition is_canonical_field :: "bytes \<Rightarrow> bool" where
  "is_canonical_field element \<longleftrightarrow> length element = FIELD_LEN \<and> be_nat element < BN254_SCALAR_FIELD_MODULUS"

definition check_proof_bounds :: "bytes \<Rightarrow> VerifierInputError + unit" where
  "check_proof_bounds proof =
     (if length proof < MIN_PROOF_BYTES then Inl (reject PROOF_UNDERSIZE ''proof'')
      else if length proof > MAX_PROOF_BYTES then Inl (reject PROOF_OVERSIZE ''proof'')
      else Inr ())"

definition split_fields :: "bytes \<Rightarrow> nat \<Rightarrow> nat \<Rightarrow> VerifierInputError + bytes list" where
  "split_fields public_inputs expected_len count =
     (if length public_inputs \<noteq> expected_len then Inl (reject BAD_LENGTH ''public_inputs'')
      else Inr (map (\<lambda>index. take FIELD_LEN (drop (index * FIELD_LEN) public_inputs)) [0..<count]))"

fun require_canonical :: "bytes list \<Rightarrow> string list \<Rightarrow> VerifierInputError + unit" where
  "require_canonical (element # es) (name # ns) =
     (if \<not> is_canonical_field element then Inl (reject NON_CANONICAL_FIELD name)
      else require_canonical es ns)"
| "require_canonical _ _ = Inr ()"

definition require_non_zero :: "bytes \<Rightarrow> string \<Rightarrow> VerifierInputError + unit" where
  "require_non_zero field_value name =
     (if constant_time_equals field_value ZERO_FIELD_BYTES then Inl (reject ZERO_FIELD name) else Inr ())"

definition require_half_padding :: "bytes \<Rightarrow> string \<Rightarrow> VerifierInputError + bytes" where
  "require_half_padding field_value name =
     (if \<not> constant_time_equals (take 16 field_value) (take 16 ZERO_FIELD_BYTES)
      then Inl (reject PADDING name) else Inr (drop 16 field_value))"

definition version_of :: "bytes \<Rightarrow> nat" where
  "version_of field_value =
     (if take 28 field_value \<noteq> replicate 28 0 then 0xFFFFFFFF
      else be_nat (take 4 (drop 28 field_value)))"

subsection \<open>Schema parsers\<close>

definition SILENT_WITNESS_FIELDS :: "string list" where
  "SILENT_WITNESS_FIELDS =
     [''video_hash_hi'', ''video_hash_lo'', ''credential_root'', ''nullifier'', ''domain_tag'']"

definition SILENT_WITNESS_V2_FIELDS :: "string list" where
  "SILENT_WITNESS_V2_FIELDS =
     [''video_hash_hi'', ''video_hash_lo'', ''credential_root'', ''nullifier'',
      ''verifier_scope'', ''epoch'', ''domain_tag'', ''circuit_version'']"

definition REVOCATION_FIELDS :: "string list" where
  "REVOCATION_FIELDS = [''revocation_root'', ''nullifier'', ''domain_separator'', ''credential_root'']"

definition parse_silent_witness_inputs :: "(bytes \<Rightarrow> bytes) \<Rightarrow> bytes \<Rightarrow> VerifierInputError + SilentWitnessInputs" where
  "parse_silent_witness_inputs H public_inputs =
     andthen (split_fields public_inputs SILENT_WITNESS_PUBLIC_INPUTS_LEN SILENT_WITNESS_FIELD_COUNT) (\<lambda>fields.
     andthen (require_half_padding (fields ! 0) ''video_hash_hi'') (\<lambda>high.
     andthen (require_half_padding (fields ! 1) ''video_hash_lo'') (\<lambda>low.
     andthen (require_canonical (take 4 fields) (take 4 SILENT_WITNESS_FIELDS)) (\<lambda>_.
     andthen (require_non_zero (fields ! 2) ''credential_root'') (\<lambda>_.
     andthen (require_non_zero (fields ! 3) ''nullifier'') (\<lambda>_.
     andthen (require_non_zero (fields ! 4) ''domain_tag'') (\<lambda>_.
     if \<not> constant_time_equals (fields ! 4) (SILENT_WITNESS_DOMAIN_TAG H)
     then Inl (reject DOMAIN_MISMATCH ''domain_tag'')
     else Inr \<lparr>video_hash = high @ low, credential_root = fields ! 2, nullifier = fields ! 3,
               domain_tag = fields ! 4, verifier_scope = None, epoch = None, circuit_version = None\<rparr>)))))))"

definition parse_silent_witness_v2_inputs :: "(bytes \<Rightarrow> bytes) \<Rightarrow> bytes \<Rightarrow> VerifierInputError + SilentWitnessInputs" where
  "parse_silent_witness_v2_inputs H public_inputs =
     andthen (split_fields public_inputs SILENT_WITNESS_V2_PUBLIC_INPUTS_LEN SILENT_WITNESS_V2_FIELD_COUNT) (\<lambda>fields.
     andthen (require_half_padding (fields ! 0) ''video_hash_hi'') (\<lambda>high.
     andthen (require_half_padding (fields ! 1) ''video_hash_lo'') (\<lambda>low.
     if version_of (fields ! 7) \<noteq> EXPECTED_CIRCUIT_VERSION
     then Inl (reject VERSION_MISMATCH ''circuit_version'')
     else
     andthen (require_canonical (take 6 fields) (take 6 SILENT_WITNESS_V2_FIELDS)) (\<lambda>_.
     andthen (require_non_zero (fields ! 2) ''credential_root'') (\<lambda>_.
     andthen (require_non_zero (fields ! 3) ''nullifier'') (\<lambda>_.
     andthen (require_non_zero (fields ! 6) ''domain_tag'') (\<lambda>_.
     if \<not> constant_time_equals (fields ! 6) (SILENT_WITNESS_DOMAIN_TAG H)
     then Inl (reject DOMAIN_MISMATCH ''domain_tag'')
     else Inr \<lparr>video_hash = high @ low, credential_root = fields ! 2, nullifier = fields ! 3,
               domain_tag = fields ! 6, verifier_scope = Some (fields ! 4), epoch = Some (fields ! 5),
               circuit_version = Some EXPECTED_CIRCUIT_VERSION\<rparr>)))))))"

definition parse_revocation_witness_inputs :: "bytes \<Rightarrow> VerifierInputError + RevocationWitnessInputs" where
  "parse_revocation_witness_inputs public_inputs =
     andthen (split_fields public_inputs REVOCATION_PUBLIC_INPUTS_LEN REVOCATION_FIELD_COUNT) (\<lambda>fields.
     andthen (require_canonical fields REVOCATION_FIELDS) (\<lambda>_.
     andthen (require_non_zero (fields ! 0) ''revocation_root'') (\<lambda>_.
     andthen (require_non_zero (fields ! 1) ''nullifier'') (\<lambda>_.
     andthen (require_non_zero (fields ! 3) ''credential_root'') (\<lambda>_.
     if \<not> constant_time_equals (fields ! 2) REVOCATION_DOMAIN_SEPARATOR
     then Inl (reject DOMAIN_MISMATCH ''domain_separator'')
     else Inr \<lparr>rw_revocation_root = fields ! 0, rw_nullifier = fields ! 1,
               rw_domain_separator = fields ! 2, rw_credential_root = fields ! 3\<rparr>)))))"

definition parse_public_inputs :: "(bytes \<Rightarrow> bytes) \<Rightarrow> string \<Rightarrow> bytes \<Rightarrow> VerifierInputError + PublicInputs" where
  "parse_public_inputs H schema public_inputs =
     (if schema = SCHEMA_SILENT_WITNESS
      then andthen (parse_silent_witness_inputs H public_inputs) (\<lambda>r. Inr (SilentWitness r))
      else if schema = SCHEMA_SILENT_WITNESS_V2
      then andthen (parse_silent_witness_v2_inputs H public_inputs) (\<lambda>r. Inr (SilentWitness r))
      else if schema = SCHEMA_REVOCATION_WITNESS
      then andthen (parse_revocation_witness_inputs public_inputs) (\<lambda>r. Inr (RevocationWitness r))
      else Inl (reject UNKNOWN_SCHEMA ''schema''))"

subsection \<open>Conformance entry point and protocol bounds\<close>

definition classify :: "(bytes \<Rightarrow> bytes) \<Rightarrow> string \<Rightarrow> pyval \<Rightarrow> pyval \<Rightarrow> string option" where
  "classify H schema public_inputs_hex proof_hex =
     (case andthen (decode_hex public_inputs_hex ''public_inputs'' BAD_LENGTH) (\<lambda>public_inputs.
           andthen (parse_public_inputs H schema public_inputs) (\<lambda>_.
           andthen (decode_hex proof_hex ''proof'' PROOF_OVERSIZE) (\<lambda>proof.
           check_proof_bounds proof)))
      of Inl e \<Rightarrow> Some (reject_value (err_code e)) | Inr _ \<Rightarrow> None)"

definition check_revocation_witness_depth :: "pyval \<Rightarrow> VerifierInputError + unit" where
  "check_revocation_witness_depth depth =
     (case depth of
        PInt d \<Rightarrow>
          (if d < 1 then Inl (reject BAD_LENGTH ''depth'')
           else if d > MAX_REVOCATION_WITNESS_DEPTH then Inl (reject PROOF_OVERSIZE ''depth'')
           else Inr ())
      | _ \<Rightarrow> Inl (reject MALFORMED_HEX ''depth''))"

definition check_aggregation_batch_size :: "pyval \<Rightarrow> VerifierInputError + int" where
  "check_aggregation_batch_size batch_size =
     (case batch_size of
        PInt n \<Rightarrow>
          (if n < MIN_AGGREGATION_SIZE then Inl (reject BAD_LENGTH ''batch_size'')
           else if n > MAX_AGGREGATION_SIZE then Inl (reject PROOF_OVERSIZE ''batch_size'')
           else Inr n)
      | _ \<Rightarrow> Inl (reject MALFORMED_HEX ''batch_size''))"

subsection \<open>Frames\<close>

text \<open>The byte frames the schemas describe, as functions of the parsed record.\<close>

definition nonzero_field :: "bytes \<Rightarrow> bool" where
  "nonzero_field b \<longleftrightarrow> length b = 32 \<and> 0 < be_nat b \<and> be_nat b < BN254_SCALAR_FIELD_MODULUS"

definition silent_witness_frame :: "SilentWitnessInputs \<Rightarrow> bytes" where
  "silent_witness_frame r =
     replicate 16 0 @ take 16 (video_hash r) @ replicate 16 0 @ drop 16 (video_hash r)
     @ credential_root r @ nullifier r @ domain_tag r"

definition wf_silent_witness :: "(bytes \<Rightarrow> bytes) \<Rightarrow> SilentWitnessInputs \<Rightarrow> bool" where
  "wf_silent_witness H r \<longleftrightarrow>
     length (video_hash r) = 32 \<and> nonzero_field (credential_root r) \<and> nonzero_field (nullifier r)
     \<and> domain_tag r = SILENT_WITNESS_DOMAIN_TAG H 
     \<and> length (SILENT_WITNESS_DOMAIN_TAG H) = 32 \<and> 0 < be_nat (SILENT_WITNESS_DOMAIN_TAG H)
     \<and> verifier_scope r = None \<and> epoch r = None \<and> circuit_version r = None"

definition silent_witness_v2_frame :: "SilentWitnessInputs \<Rightarrow> bytes" where
  "silent_witness_v2_frame r =
     replicate 16 0 @ take 16 (video_hash r) @ replicate 16 0 @ drop 16 (video_hash r)
     @ credential_root r @ nullifier r @ the (verifier_scope r) @ the (epoch r) @ domain_tag r
     @ nat_be 32 (the (circuit_version r))"

definition wf_silent_witness_v2 :: "(bytes \<Rightarrow> bytes) \<Rightarrow> SilentWitnessInputs \<Rightarrow> bool" where
  "wf_silent_witness_v2 H r \<longleftrightarrow>
     length (video_hash r) = 32 \<and> nonzero_field (credential_root r) \<and> nonzero_field (nullifier r)
     \<and> domain_tag r = SILENT_WITNESS_DOMAIN_TAG H 
     \<and> length (SILENT_WITNESS_DOMAIN_TAG H) = 32 \<and> 0 < be_nat (SILENT_WITNESS_DOMAIN_TAG H)
     \<and> (\<exists>s. verifier_scope r = Some s \<and> is_canonical_field s)
     \<and> (\<exists>e. epoch r = Some e \<and> is_canonical_field e) \<and> circuit_version r = Some 2"

definition revocation_frame :: "RevocationWitnessInputs \<Rightarrow> bytes" where
  "revocation_frame r =
     rw_revocation_root r @ rw_nullifier r @ rw_domain_separator r @ rw_credential_root r"

definition wf_revocation :: "RevocationWitnessInputs \<Rightarrow> bool" where
  "wf_revocation r \<longleftrightarrow>
     nonzero_field (rw_revocation_root r) \<and> nonzero_field (rw_nullifier r)
     \<and> nonzero_field (rw_credential_root r) \<and> rw_domain_separator r = REVOCATION_DOMAIN_SEPARATOR"

subsection \<open>Guards\<close>

lemma split_fields_eq_Inr:
  "split_fields p (32 * c) c = Inr fs \<longleftrightarrow>
     concat fs = p \<and> length fs = c \<and> (\<forall>f \<in> set fs. length f = 32)"
proof
  have cut: "concat (map (\<lambda>i. take 32 (drop (i * 32) p)) [0..<n]) = take (n * 32) p" for n
  proof (induction n)
    case (Suc n)
    have "take (n * 32 + 32) p = take (n * 32) p @ take 32 (drop (n * 32) p)" by (rule take_add)
    with Suc show ?case by (simp add: add.commute)
  qed simp
  assume "split_fields p (32 * c) c = Inr fs"
  then have len: "length p = 32 * c" and fs: "fs = map (\<lambda>i. take 32 (drop (i * 32) p)) [0..<c]"
    by (auto simp: split_fields_def FIELD_LEN_def split: if_splits)
  have "i < c \<Longrightarrow> i * 32 + 32 \<le> 32 * c" for i by arith
  with cut [of c] len fs show "concat fs = p \<and> length fs = c \<and> (\<forall>f \<in> set fs. length f = 32)"
    by (auto simp: min_def)
next
  have join: "\<forall>f \<in> set fs. length f = 32 \<Longrightarrow>
      length (concat fs) = 32 * length fs \<and>
      (\<forall>i < length fs. take 32 (drop (i * 32) (concat fs)) = fs ! i)" for fs :: "bytes list"
  proof (induction fs)
    case (Cons f fs)
    then have "take 32 (drop (i * 32) (f @ concat fs)) = (f # fs) ! i" if "i < Suc (length fs)" for i
      using that by (cases i) auto
    with Cons show ?case by auto
  qed simp
  assume "concat fs = p \<and> length fs = c \<and> (\<forall>f \<in> set fs. length f = 32)"
  with join [of fs] show "split_fields p (32 * c) c = Inr fs"
    by (auto simp: split_fields_def FIELD_LEN_def intro!: nth_equalityI)
qed

lemma require_half_padding_eq_Inr:
  "require_half_padding f n = Inr h \<longleftrightarrow> take 16 f = replicate 16 0 \<and> h = drop 16 f"
  by (auto simp: require_half_padding_def constant_time_equals_def ZERO_FIELD_BYTES_def FIELD_LEN_def)

lemma require_non_zero_eq_Inr:
  "length f = 32 \<Longrightarrow> require_non_zero f n = Inr u \<longleftrightarrow> 0 < be_nat f"
  using be_nat_zero_iff [of f]
  by (auto simp: require_non_zero_def constant_time_equals_def ZERO_FIELD_BYTES_def FIELD_LEN_def)

lemma require_canonical_eq_Inr:
  "require_canonical es ns = Inr u \<longleftrightarrow> (\<forall>e \<in> set (take (length ns) es). is_canonical_field e)"
  by (induction es ns rule: require_canonical.induct) (auto split: if_splits)

lemma half_is_canonical: "length h = 16 \<Longrightarrow> is_canonical_field (replicate 16 0 @ h)"
  using be_nat_less [of h] be_nat_zero_iff [of "replicate 16 0"]
  by (simp add: is_canonical_field_def FIELD_LEN_def BN254_SCALAR_FIELD_MODULUS_def be_nat_append)

lemma version_of_eq:
  assumes "length f = 32"
  shows "version_of f = 2 \<longleftrightarrow> f = nat_be 32 2"
proof -
  obtain a b where f: "f = a @ b" "length a = 28" "length b = 4"
    using list_split_at [of f 28 4] assms by auto
  have n: "nat_be 32 2 = replicate 28 0 @ nat_be 4 2" by code_simp
  have "be_nat b = 2 \<longleftrightarrow> b = nat_be 4 2"
    using be_nat_nat_be [of 2 4] be_nat_inj [of b "nat_be 4 2"] f(3) by auto
  with f n show ?thesis by (auto simp: version_of_def)
qed

lemmas guard_iffs = andthen_eq_Inr require_half_padding_eq_Inr require_canonical_eq_Inr
  constant_time_equals_def

lemma split_v1: "split_fields p SILENT_WITNESS_PUBLIC_INPUTS_LEN SILENT_WITNESS_FIELD_COUNT = Inr fs \<longleftrightarrow>
    (\<exists>a b c d e. fs = [a, b, c, d, e] \<and> p = a @ b @ c @ d @ e
       \<and> length a = 32 \<and> length b = 32 \<and> length c = 32 \<and> length d = 32 \<and> length e = 32)"
  using split_fields_eq_Inr [of p 5 fs] by (auto simp: frame_lens length_5)

lemma split_v2: "split_fields p SILENT_WITNESS_V2_PUBLIC_INPUTS_LEN SILENT_WITNESS_V2_FIELD_COUNT = Inr fs \<longleftrightarrow>
    (\<exists>a b c d e f g h. fs = [a, b, c, d, e, f, g, h] \<and> p = a @ b @ c @ d @ e @ f @ g @ h
       \<and> length a = 32 \<and> length b = 32 \<and> length c = 32 \<and> length d = 32 \<and> length e = 32
       \<and> length f = 32 \<and> length g = 32 \<and> length h = 32)"
  using split_fields_eq_Inr [of p 8 fs] by (auto simp: frame_lens length_8)

lemma split_revocation: "split_fields p REVOCATION_PUBLIC_INPUTS_LEN REVOCATION_FIELD_COUNT = Inr fs \<longleftrightarrow>
    (\<exists>a b c d. fs = [a, b, c, d] \<and> p = a @ b @ c @ d
       \<and> length a = 32 \<and> length b = 32 \<and> length c = 32 \<and> length d = 32)"
  using split_fields_eq_Inr [of p 4 fs] by (auto simp: frame_lens length_4)

text \<open>A padded half is sixteen zero bytes and sixteen data bytes, and is always canonical.\<close>

lemma padded_half:
  "length a = 32 \<and> take 16 a = replicate 16 0 \<longleftrightarrow> (\<exists>h. length h = 16 \<and> a = replicate 16 0 @ h)"
  by (auto intro!: exI [of _ "drop 16 a"]) (metis append_take_drop_id)

lemma nonzero_field_iff:
  "nonzero_field b \<longleftrightarrow> length b = 32 \<and> is_canonical_field b \<and> 0 < be_nat b"
  by (auto simp: nonzero_field_def is_canonical_field_def FIELD_LEN_def)

lemma is_canonical_lengthD: "is_canonical_field b \<Longrightarrow> length b = 32"
  by (simp add: is_canonical_field_def FIELD_LEN_def)

lemma parse_v1_iff:
  "parse_silent_witness_inputs H p = Inr r \<longleftrightarrow> p = silent_witness_frame r \<and> wf_silent_witness H r"
proof
  assume "parse_silent_witness_inputs H p = Inr r"
  then obtain a b c d e where p: "p = a @ b @ c @ d @ e"
      and l: "length a = 32" "length b = 32" "length c = 32" "length d = 32" "length e = 32"
      and h: "take 16 a = replicate 16 0" "take 16 b = replicate 16 0"
      and can: "is_canonical_field c" "is_canonical_field d"
      and nz: "0 < be_nat c" "0 < be_nat d" "0 < be_nat e"
      and tag: "e = SILENT_WITNESS_DOMAIN_TAG H"
      and r: "r = \<lparr>video_hash = drop 16 a @ drop 16 b, credential_root = c, nullifier = d,
               domain_tag = e, verifier_scope = None, epoch = None, circuit_version = None\<rparr>"
    unfolding parse_silent_witness_inputs_def
    by (auto simp: guard_iffs split_v1 require_non_zero_eq_Inr SILENT_WITNESS_FIELDS_def split: if_splits)
  obtain x y where x: "a = replicate 16 0 @ x" "length x = 16" and y: "b = replicate 16 0 @ y" "length y = 16"
    using padded_half [of a] padded_half [of b] l h by blast
  show "p = silent_witness_frame r \<and> wf_silent_witness H r"
    using p l can nz tag x y
    by (simp add: r silent_witness_frame_def wf_silent_witness_def nonzero_field_iff)
next
  assume "p = silent_witness_frame r \<and> wf_silent_witness H r"
  then have wf: "wf_silent_witness H r" and p: "p = silent_witness_frame r" by auto
  define x y where "x = take 16 (video_hash r)" and "y = drop 16 (video_hash r)"
  let ?fs = "[replicate 16 0 @ x, replicate 16 0 @ y, credential_root r, nullifier r, domain_tag r]"
  have xy: "length x = 16" "length y = 16" "x @ y = video_hash r"
    using wf by (auto simp: x_def y_def wf_silent_witness_def)
  have "split_fields p SILENT_WITNESS_PUBLIC_INPUTS_LEN SILENT_WITNESS_FIELD_COUNT = Inr ?fs"
    using wf xy by (simp add: split_v1 p silent_witness_frame_def wf_silent_witness_def nonzero_field_def
        flip: x_def y_def)
  then show "parse_silent_witness_inputs H p = Inr r"
    unfolding parse_silent_witness_inputs_def using wf xy
    by (simp add: guard_iffs require_non_zero_eq_Inr SILENT_WITNESS_FIELDS_def half_is_canonical
        wf_silent_witness_def nonzero_field_iff)
qed

lemma parse_v2_iff:
  "parse_silent_witness_v2_inputs H p = Inr r \<longleftrightarrow>
     p = silent_witness_v2_frame r \<and> wf_silent_witness_v2 H r"
proof
  assume "parse_silent_witness_v2_inputs H p = Inr r"
  then obtain a b c d e f g h where p: "p = a @ b @ c @ d @ e @ f @ g @ h"
      and l: "length a = 32" "length b = 32" "length h = 32" "length g = 32"
      and pad: "take 16 a = replicate 16 0" "take 16 b = replicate 16 0"
      and ver: "version_of h = 2"
      and can: "is_canonical_field c" "is_canonical_field d" "is_canonical_field e" "is_canonical_field f"
      and nz: "0 < be_nat c" "0 < be_nat d" "0 < be_nat g"
      and tag: "g = SILENT_WITNESS_DOMAIN_TAG H"
      and r: "r = \<lparr>video_hash = drop 16 a @ drop 16 b, credential_root = c, nullifier = d,
               domain_tag = g, verifier_scope = Some e, epoch = Some f, circuit_version = Some 2\<rparr>"
    unfolding parse_silent_witness_v2_inputs_def
    by (auto simp: guard_iffs split_v2 require_non_zero_eq_Inr SILENT_WITNESS_V2_FIELDS_def
        EXPECTED_CIRCUIT_VERSION_def split: if_splits)
  obtain x y where x: "a = replicate 16 0 @ x" "length x = 16" and y: "b = replicate 16 0 @ y" "length y = 16"
    using padded_half [of a] padded_half [of b] l pad by blast
  show "p = silent_witness_v2_frame r \<and> wf_silent_witness_v2 H r"
    using p l can nz tag x y ver is_canonical_lengthD [OF can(1)] is_canonical_lengthD [OF can(2)]
    by (simp add: r silent_witness_v2_frame_def wf_silent_witness_v2_def nonzero_field_iff version_of_eq
        del: nat_be.simps)
next
  assume "p = silent_witness_v2_frame r \<and> wf_silent_witness_v2 H r"
  then have wf: "wf_silent_witness_v2 H r" and p: "p = silent_witness_v2_frame r" by auto
  then obtain s e where se: "verifier_scope r = Some s" "is_canonical_field s" "epoch r = Some e" "is_canonical_field e"
    by (auto simp: wf_silent_witness_v2_def)
  define x y where "x = take 16 (video_hash r)" and "y = drop 16 (video_hash r)"
  let ?v = "nat_be 32 2"
  let ?fs = "[replicate 16 0 @ x, replicate 16 0 @ y, credential_root r, nullifier r, s, e, domain_tag r, ?v]"
  have xy: "length x = 16" "length y = 16" "x @ y = video_hash r"
    using wf by (auto simp: x_def y_def wf_silent_witness_v2_def)
  have v: "version_of ?v = EXPECTED_CIRCUIT_VERSION"
    using version_of_eq [of ?v] by (simp add: EXPECTED_CIRCUIT_VERSION_def)
  have "split_fields p SILENT_WITNESS_V2_PUBLIC_INPUTS_LEN SILENT_WITNESS_V2_FIELD_COUNT = Inr ?fs"
    using wf xy se is_canonical_lengthD [OF se(2)] is_canonical_lengthD [OF se(4)]
    by (simp add: split_v2 p silent_witness_v2_frame_def wf_silent_witness_v2_def nonzero_field_def
        flip: x_def y_def del: nat_be.simps)
  then show "parse_silent_witness_v2_inputs H p = Inr r"
    unfolding parse_silent_witness_v2_inputs_def using wf xy se v
    by (simp add: guard_iffs require_non_zero_eq_Inr SILENT_WITNESS_V2_FIELDS_def half_is_canonical
        wf_silent_witness_v2_def nonzero_field_iff EXPECTED_CIRCUIT_VERSION_def del: nat_be.simps)
qed

lemma separator_canonical: "nonzero_field REVOCATION_DOMAIN_SEPARATOR"
proof -
  let ?t = "ascii_bytes ''HARPOCRATES_REVOCATION_V1''"
  have len: "length ?t = 25" by (simp add: ascii_bytes_def)
  have split: "be_nat REVOCATION_DOMAIN_SEPARATOR = be_nat ?t"
    using be_nat_zero_iff [of "replicate 7 0"]
    by (simp add: REVOCATION_DOMAIN_SEPARATOR_def be_nat_append)
  have "hd ?t \<noteq> 0" by (simp add: ascii_bytes_def char_code_def)
  then have "?t \<noteq> replicate (length ?t) 0" using len by (metis hd_replicate length_0_conv zero_neq_numeral)
  then have "0 < be_nat ?t" using be_nat_zero_iff [of ?t] by simp
  moreover have "be_nat ?t < BN254_SCALAR_FIELD_MODULUS"
    using be_nat_less [of ?t] unfolding len by (simp add: BN254_SCALAR_FIELD_MODULUS_def)
  ultimately show ?thesis
    using len by (simp add: nonzero_field_def split) (simp add: REVOCATION_DOMAIN_SEPARATOR_def)
qed

lemma parse_revocation_iff:
  "parse_revocation_witness_inputs p = Inr r \<longleftrightarrow> p = revocation_frame r \<and> wf_revocation r"
proof
  assume "parse_revocation_witness_inputs p = Inr r"
  then show "p = revocation_frame r \<and> wf_revocation r"
    unfolding parse_revocation_witness_inputs_def
    by (auto simp: guard_iffs split_revocation require_non_zero_eq_Inr REVOCATION_FIELDS_def
        revocation_frame_def wf_revocation_def nonzero_field_iff split: if_splits)
next
  assume "p = revocation_frame r \<and> wf_revocation r"
  then have wf: "wf_revocation r" and p: "p = revocation_frame r" by auto
  let ?fs = "[rw_revocation_root r, rw_nullifier r, rw_domain_separator r, rw_credential_root r]"
  have "split_fields p REVOCATION_PUBLIC_INPUTS_LEN REVOCATION_FIELD_COUNT = Inr ?fs"
    using wf separator_canonical
    by (simp add: split_revocation p revocation_frame_def wf_revocation_def nonzero_field_def)
  then show "parse_revocation_witness_inputs p = Inr r"
    unfolding parse_revocation_witness_inputs_def using wf separator_canonical
    by (simp add: guard_iffs require_non_zero_eq_Inr REVOCATION_FIELDS_def wf_revocation_def nonzero_field_iff)
qed

text \<open>The three schemas are codecs.\<close>

interpretation v1: codec "parse_silent_witness_inputs H" silent_witness_frame "wf_silent_witness H"
  by unfold_locales (rule parse_v1_iff)

interpretation v2: codec "parse_silent_witness_v2_inputs H" silent_witness_v2_frame "wf_silent_witness_v2 H"
  by unfold_locales (rule parse_v2_iff)

interpretation rev1: codec parse_revocation_witness_inputs revocation_frame wf_revocation
  by unfold_locales (rule parse_revocation_iff)

subsection \<open>Decoding and encoding\<close>

lemma list_ex_not_hex: "list_ex (\<lambda>c. c \<notin> set HEX_DIGITS) s \<longleftrightarrow> \<not> list_all is_hex s"
  by (simp add: is_hex_iff list_ex_iff list_all_iff)

lemma decode_hex_eq_Inr:
  "decode_hex v f oc = Inr bs \<longleftrightarrow>
     (\<exists>s. v = PStr s \<and> length s \<le> MAX_HEX_CHARS \<and> even (length s) \<and> list_all is_hex s \<and> bs = fromhex s)"
  by (auto simp: decode_hex_def list_ex_not_hex even_iff_mod_2_eq_zero split: pyval.splits if_splits)

lemma decode_hex_tohex:
  "2 * length bs \<le> MAX_HEX_CHARS \<Longrightarrow> decode_hex (PStr (tohex bs)) f oc = Inr bs"
  by (simp add: decode_hex_eq_Inr)

lemma modulus_less: "BN254_SCALAR_FIELD_MODULUS < 16 ^ 64" "BN254_SCALAR_FIELD_MODULUS < 256 ^ 32"
  by (simp_all add: BN254_SCALAR_FIELD_MODULUS_def)

lemma format_064x:
  assumes "n < BN254_SCALAR_FIELD_MODULUS"
  shows "zfill 64 (hex_digits n) = tohex (nat_be 32 n)"
proof -
  have "zfill 64 (hex_digits n) = hex_fixed 64 n"
    using assms modulus_less by (intro zfill_hex_digits) simp_all
  then show ?thesis using hex_fixed_nat_be [of 32 n] by simp
qed

lemma encode_field_eq_Inr:
  "encode_field_to_bytes32_hex v f = Inr s \<longleftrightarrow>
     (\<exists>n < BN254_SCALAR_FIELD_MODULUS. parse_field_value v f = Inr (int n) \<and> s = tohex (nat_be 32 n))"
proof
  assume "encode_field_to_bytes32_hex v f = Inr s"
  then obtain x where x: "parse_field_value v f = Inr x" "0 \<le> x" "x < int BN254_SCALAR_FIELD_MODULUS"
      "s = zfill 64 (hex_digits (nat x))"
    by (auto simp: encode_field_to_bytes32_hex_def andthen_eq_Inr split: if_splits)
  then have "nat x < BN254_SCALAR_FIELD_MODULUS" by linarith
  with x format_064x show "\<exists>n < BN254_SCALAR_FIELD_MODULUS.
      parse_field_value v f = Inr (int n) \<and> s = tohex (nat_be 32 n)"
    by (intro exI [of _ "nat x"]) simp
qed (auto simp: encode_field_to_bytes32_hex_def format_064x)

lemma encode_from_eq_Inr:
  "encode_from names i vs = Inr s \<Longrightarrow>
     \<exists>ns. length ns = length vs \<and> (\<forall>n \<in> set ns. n < BN254_SCALAR_FIELD_MODULUS)
          \<and> s = tohex (concat (map (nat_be 32) ns))"
proof (induction names i vs arbitrary: s rule: encode_from.induct)
  case (2 names i v vs)
  then obtain h t where h: "encode_field_to_bytes32_hex v (public_input_name names i) = Inr h"
      and t: "encode_from names (Suc i) vs = Inr t" and s: "s = h @ t"
    by (auto simp: andthen_eq_Inr)
  from h obtain n where n: "n < BN254_SCALAR_FIELD_MODULUS" "h = tohex (nat_be 32 n)"
    by (auto simp: encode_field_eq_Inr)
  obtain ns where "length ns = length vs" "\<forall>n \<in> set ns. n < BN254_SCALAR_FIELD_MODULUS"
      "t = tohex (concat (map (nat_be 32) ns))"
    using "2.IH" [OF t] by blast
  with n s show ?case by (intro exI [of _ "n # ns"]) simp
qed simp

lemma encode_from_ints:
  "\<forall>n \<in> set ns. n < BN254_SCALAR_FIELD_MODULUS \<Longrightarrow>
     encode_from names i (map (\<lambda>n. PInt (int n)) ns) = Inr (tohex (concat (map (nat_be 32) ns)))"
proof (induction ns arbitrary: i)
  case (Cons n ns)
  then have "encode_field_to_bytes32_hex (PInt (int n)) (public_input_name names i) = Inr (tohex (nat_be 32 n))"
    by (auto simp: encode_field_eq_Inr parse_field_value_def)
  with Cons show ?case by simp
qed simp

lemma canonical_nat_be: "n < BN254_SCALAR_FIELD_MODULUS \<Longrightarrow> is_canonical_field (nat_be 32 n)"
  using modulus_less by (simp add: is_canonical_field_def FIELD_LEN_def be_nat_nat_be)

lemma split_encoded:
  "split_fields (concat (map (nat_be 32) ns)) (32 * c) c = Inr fs \<longleftrightarrow> length ns = c \<and> fs = map (nat_be 32) ns"
proof -
  have self: "split_fields (concat (map (nat_be 32) ns)) (32 * length ns) (length ns) = Inr (map (nat_be 32) ns)"
    by (subst split_fields_eq_Inr) simp
  have "c = length ns" if "split_fields (concat (map (nat_be 32) ns)) (32 * c) c = Inr fs"
    using that by (auto simp: split_fields_def length_concat comp_def sum_list_triv split: if_splits)
  with self show ?thesis by auto
qed

lemma parse_field_bound:
  assumes "parse_public_inputs H schema p = Inr r"
  shows "length p \<le> 256"
proof -
  have "split_fields p n c = Inr fs \<Longrightarrow> length p = n" for n c fs
    by (simp add: split_fields_def split: if_splits)
  with assms show ?thesis
    by (fastforce simp: parse_public_inputs_def parse_silent_witness_inputs_def
        parse_silent_witness_v2_inputs_def parse_revocation_witness_inputs_def andthen_eq_Inr frame_lens
        split: if_splits)
qed

subsection \<open>What the classifier accepts\<close>

definition accepted :: "(bytes \<Rightarrow> bytes) \<Rightarrow> string \<Rightarrow> bytes \<Rightarrow> bool" where
  "accepted H schema p \<longleftrightarrow>
     (schema = SCHEMA_SILENT_WITNESS \<and> (\<exists>r. wf_silent_witness H r \<and> p = silent_witness_frame r))
   \<or> (schema = SCHEMA_SILENT_WITNESS_V2 \<and> (\<exists>r. wf_silent_witness_v2 H r \<and> p = silent_witness_v2_frame r))
   \<or> (schema = SCHEMA_REVOCATION_WITNESS \<and> (\<exists>r. wf_revocation r \<and> p = revocation_frame r))"

lemma schemas_distinct [simp]:
  "SCHEMA_SILENT_WITNESS \<noteq> SCHEMA_SILENT_WITNESS_V2" "SCHEMA_SILENT_WITNESS \<noteq> SCHEMA_REVOCATION_WITNESS"
  "SCHEMA_SILENT_WITNESS_V2 \<noteq> SCHEMA_REVOCATION_WITNESS"
  "SCHEMA_SILENT_WITNESS_V2 \<noteq> SCHEMA_SILENT_WITNESS" "SCHEMA_REVOCATION_WITNESS \<noteq> SCHEMA_SILENT_WITNESS"
  "SCHEMA_REVOCATION_WITNESS \<noteq> SCHEMA_SILENT_WITNESS_V2"
  by (simp_all add: SCHEMA_SILENT_WITNESS_def SCHEMA_SILENT_WITNESS_V2_def SCHEMA_REVOCATION_WITNESS_def)

lemma parse_accepted: "(\<exists>r. parse_public_inputs H schema p = Inr r) \<longleftrightarrow> accepted H schema p"
  by (auto simp: parse_public_inputs_def accepted_def andthen_eq_Inr parse_v1_iff parse_v2_iff
      parse_revocation_iff)

lemma check_proof_bounds_eq_Inr: "check_proof_bounds q = Inr u \<longleftrightarrow> 64 \<le> length q \<and> length q \<le> 65536"
  by (auto simp: check_proof_bounds_def MIN_PROOF_BYTES_def MAX_PROOF_BYTES_def)

lemma classify_None_iff:
  "classify H schema v w = None \<longleftrightarrow>
     (\<exists>p r q. decode_hex v ''public_inputs'' BAD_LENGTH = Inr p \<and> parse_public_inputs H schema p = Inr r
        \<and> decode_hex w ''proof'' PROOF_OVERSIZE = Inr q \<and> 64 \<le> length q \<and> length q \<le> 65536)"
proof -
  have "classify H schema v w = None \<longleftrightarrow>
     (\<exists>u. andthen (decode_hex v ''public_inputs'' BAD_LENGTH) (\<lambda>public_inputs.
           andthen (parse_public_inputs H schema public_inputs) (\<lambda>_.
           andthen (decode_hex w ''proof'' PROOF_OVERSIZE) (\<lambda>proof. check_proof_bounds proof))) = Inr u)"
    unfolding classify_def by (auto split: sum.splits)
  then show ?thesis by (auto simp: andthen_eq_Inr check_proof_bounds_eq_Inr)
qed

text \<open>
  C1: the conformance classifier accepts exactly the canonical material. It returns no reject
  code if and only if the public inputs are even-length hexadecimal text of a frame the schema
  describes (canonical, non-zero, right domain, right version) and the proof is hexadecimal
  text of 64 to 65536 bytes.
\<close>

theorem classify_accepts_iff:
  "classify H schema (PStr x) (PStr y) = None \<longleftrightarrow>
     list_all is_hex x \<and> even (length x) \<and> accepted H schema (fromhex x)
     \<and> list_all is_hex y \<and> even (length y) \<and> 128 \<le> length y \<and> length y \<le> 131072"
proof -
  have bound: "length x \<le> MAX_HEX_CHARS" if "accepted H schema (fromhex x)" "even (length x)"
  proof -
    from that obtain r where "parse_public_inputs H schema (fromhex x) = Inr r"
      using parse_accepted by blast
    then have "length x div 2 \<le> 256" using parse_field_bound length_fromhex by metis
    then show ?thesis by (simp add: MAX_HEX_CHARS_def MAX_PROOF_BYTES_def)
  qed
  have half: "(64 \<le> length (fromhex y) \<and> length (fromhex y) \<le> 65536) \<longleftrightarrow> (128 \<le> length y \<and> length y \<le> 131072)"
    if "even (length y)" using that by (auto simp: length_fromhex elim!: evenE)
  show ?thesis
    using bound half by (auto simp: classify_None_iff decode_hex_eq_Inr parse_accepted [symmetric]
        MAX_HEX_CHARS_def MAX_PROOF_BYTES_def)
qed

subsection \<open>Order of the checks\<close>

definition field_at :: "bytes \<Rightarrow> nat \<Rightarrow> bytes" where
  "field_at p i = take 32 (drop (32 * i) p)"

definition reject_of :: "VerifierInputError + 'r \<Rightarrow> RejectCode option" where
  "reject_of r = (case r of Inl e \<Rightarrow> Some (err_code e) | Inr _ \<Rightarrow> None)"

lemma reject_of_andthen:
  "reject_of (andthen r f) = (case r of Inl e \<Rightarrow> Some (err_code e) | Inr x \<Rightarrow> reject_of (f x))"
  by (cases r) (simp_all add: reject_of_def)

lemma reject_of_Inl [simp]: "reject_of (Inl e) = Some (err_code e)"
  by (simp add: reject_of_def)

lemma reject_of_Inr [simp]: "reject_of (Inr x) = None"
  by (simp add: reject_of_def)

lemma require_half_padding_cases:
  "require_half_padding f n =
     (if take 16 f = replicate 16 0 then Inr (drop 16 f) else Inl (reject PADDING n))"
  by (simp add: require_half_padding_def constant_time_equals_def ZERO_FIELD_BYTES_def FIELD_LEN_def)

lemma require_non_zero_cases:
  "length f = 32 \<Longrightarrow> require_non_zero f n = (if be_nat f = 0 then Inl (reject ZERO_FIELD n) else Inr ())"
  using be_nat_zero_iff [of f]
  by (simp add: require_non_zero_def constant_time_equals_def ZERO_FIELD_BYTES_def FIELD_LEN_def)

lemma reject_of_require_canonical:
  "length ns = length es \<Longrightarrow>
     (case require_canonical es ns of Inl e \<Rightarrow> Some (err_code e) | Inr u \<Rightarrow> k)
     = (if \<forall>e \<in> set es. is_canonical_field e then k else Some NON_CANONICAL_FIELD)"
  by (induction es ns rule: require_canonical.induct) auto

lemma split_fields_ok: "length p = 32 * c \<Longrightarrow> split_fields p (32 * c) c = Inr (map (field_at p) [0..<c])"
  by (simp add: split_fields_def FIELD_LEN_def field_at_def mult.commute)

lemma length_field_at: "length p = 32 * c \<Longrightarrow> i < c \<Longrightarrow> length (field_at p i) = 32"
  by (auto simp: field_at_def)

lemma upt_8: "[0..<8] = [0, 1, 2, 3, 4, 5, 6, 7 :: nat]"
  by (simp add: upt_rec)

text \<open>
  C16: the check order of the \<^verbatim>\<open>silent_witness/v2\<close> codec is the documented one: length, half
  padding, circuit version, canonicity, zero fields, domain tag. The reject code of a frame
  is the code of the first of these that fails, whatever the later fields hold.
\<close>

theorem silent_witness_v2_check_order:
  "reject_of (parse_silent_witness_v2_inputs H p) =
     (if length p \<noteq> 256 then Some BAD_LENGTH
      else if \<not> (take 16 (field_at p 0) = replicate 16 0 \<and> take 16 (field_at p 1) = replicate 16 0)
      then Some PADDING
      else if field_at p 7 \<noteq> nat_be 32 2 then Some VERSION_MISMATCH
      else if \<exists>i < 6. \<not> is_canonical_field (field_at p i) then Some NON_CANONICAL_FIELD
      else if \<exists>i \<in> {2, 3, 6}. be_nat (field_at p i) = 0 then Some ZERO_FIELD
      else if field_at p 6 \<noteq> SILENT_WITNESS_DOMAIN_TAG H then Some DOMAIN_MISMATCH
      else None)"
proof (cases "length p = 32 * 8")
  case False
  then show ?thesis
    by (simp add: parse_silent_witness_v2_inputs_def split_fields_def frame_lens)
next
  case True
  have l: "length (field_at p i) = 32" if "i < 8" for i using length_field_at [OF True that] .
  have ver: "version_of (field_at p 7) = 2 \<longleftrightarrow> field_at p 7 = nat_be 32 2"
    by (rule version_of_eq) (simp add: l)
  have six: "(\<exists>i < 6. P i) \<longleftrightarrow> P 0 \<or> P 1 \<or> P 2 \<or> P 3 \<or> P 4 \<or> P (5 :: nat)" for P
    by (auto simp: less_Suc_eq numeral_eq_Suc)
  have split: "split_fields p SILENT_WITNESS_V2_PUBLIC_INPUTS_LEN SILENT_WITNESS_V2_FIELD_COUNT
      = Inr (map (field_at p) [0, 1, 2, 3, 4, 5, 6, 7])"
    using split_fields_ok [OF True] by (simp add: frame_lens upt_8)
  show ?thesis
    unfolding parse_silent_witness_v2_inputs_def split
    by (simp add: True reject_of_andthen require_half_padding_cases require_non_zero_cases l
        reject_of_require_canonical SILENT_WITNESS_V2_FIELDS_def constant_time_equals_def ver six
        EXPECTED_CIRCUIT_VERSION_def del: nat_be.simps split del: if_split cong: if_cong)
      (auto simp del: nat_be.simps)
qed

subsection \<open>Properties of the codec\<close>

text \<open>
  C17: the \<^verbatim>\<open>silent_witness/v2\<close> parser accepts a byte string with result \<open>r\<close> if and only if the
  string is the frame of \<open>r\<close> and \<open>r\<close> is well formed. So parsing inverts framing, and no two byte
  strings are accepted for the same inputs.
\<close>

theorem silent_witness_v2_codec:
  "parse_silent_witness_v2_inputs H p = Inr r \<longleftrightarrow>
     p = silent_witness_v2_frame r \<and> wf_silent_witness_v2 H r"
  by (rule v2.decode_iff)

text \<open>
  a vector of field elements encoded by \<open>encode_public_inputs\<close> decodes and parses back to its
  fields: the two 128-bit halves are joined into the 32-byte video hash and the other fields
  are returned unreduced. The domain tag is assumed to be a field element.
\<close>

theorem public_inputs_roundtrip:
  assumes "hi < 256 ^ 16" "lo < 256 ^ 16"
    and "0 < rt" "rt < BN254_SCALAR_FIELD_MODULUS" "0 < nul" "nul < BN254_SCALAR_FIELD_MODULUS"
    and "0 < t" "t < BN254_SCALAR_FIELD_MODULUS" "SILENT_WITNESS_DOMAIN_TAG H = nat_be 32 t"
  shows "andthen (encode_public_inputs (map (\<lambda>n. PInt (int n)) [hi, lo, rt, nul, t]) SILENT_WITNESS_FIELDS)
           (\<lambda>s. andthen (decode_hex (PStr s) ''public_inputs'' BAD_LENGTH) (parse_silent_witness_inputs H))
         = Inr \<lparr>video_hash = nat_be 16 hi @ nat_be 16 lo, credential_root = nat_be 32 rt,
                nullifier = nat_be 32 nul, domain_tag = nat_be 32 t,
                verifier_scope = None, epoch = None, circuit_version = None\<rparr>"
    (is "_ = Inr ?r")
proof -
  let ?fs = "concat (map (nat_be 32) [hi, lo, rt, nul, t])"
  have "hi < BN254_SCALAR_FIELD_MODULUS" "lo < BN254_SCALAR_FIELD_MODULUS"
    using assms(1,2) by (simp_all add: BN254_SCALAR_FIELD_MODULUS_def)
  with assms have enc: "encode_public_inputs (map (\<lambda>n. PInt (int n)) [hi, lo, rt, nul, t]) SILENT_WITNESS_FIELDS
      = Inr (tohex ?fs)"
    unfolding encode_public_inputs_def by (intro encode_from_ints) simp
  have dec: "decode_hex (PStr (tohex ?fs)) ''public_inputs'' BAD_LENGTH = Inr ?fs"
    by (rule decode_hex_tohex) (simp add: MAX_HEX_CHARS_def MAX_PROOF_BYTES_def del: nat_be.simps)
  have wf: "wf_silent_witness H ?r"
    using assms modulus_less
    by (simp add: wf_silent_witness_def nonzero_field_def be_nat_nat_be del: nat_be.simps)
  have "?fs = silent_witness_frame ?r"
    using nat_be_pad [OF assms(1), of 16] nat_be_pad [OF assms(2), of 16]
    by (simp add: silent_witness_frame_def del: nat_be.simps)
  with v1.decode_encode [OF wf] have "parse_silent_witness_inputs H ?fs = Inr ?r" by simp
  with enc dec show ?thesis by simp
qed

theorem public_inputs_roundtrip_witness:
  "andthen (encode_public_inputs (map (\<lambda>n. PInt (int n)) [1, 2, 3, 4, 5]) SILENT_WITNESS_FIELDS)
     (\<lambda>s. andthen (decode_hex (PStr s) ''public_inputs'' BAD_LENGTH)
       (parse_silent_witness_inputs (\<lambda>_. nat_be 32 5)))
   = Inr \<lparr>video_hash = nat_be 16 1 @ nat_be 16 2, credential_root = nat_be 32 3,
          nullifier = nat_be 32 4, domain_tag = nat_be 32 5,
          verifier_scope = None, epoch = None, circuit_version = None\<rparr>"
  by (rule public_inputs_roundtrip [of 1 2 3 4 5 "\<lambda>_. nat_be 32 5"])
    (simp_all add: BN254_SCALAR_FIELD_MODULUS_def SILENT_WITNESS_DOMAIN_TAG_def del: nat_be.simps)

text \<open>
  C18: if the SHA-256 domain tag denotes a number that is not below the BN254 modulus, then no
  output of the field encoder is accepted as \<^verbatim>\<open>silent_witness\<close> public inputs, of either version: the
  parsers compare the tag with bytes no field element encodes. (The digest of the three
  configured domain constants begins \<^verbatim>\<open>4aa038f0\<close> and the modulus \<^verbatim>\<open>30644e72\<close>, so this is the
  deployed case.)
\<close>

theorem domain_tag_outside_field_rejects_all:
  assumes "BN254_SCALAR_FIELD_MODULUS \<le> be_nat (SILENT_WITNESS_DOMAIN_TAG H)"
    and "encode_public_inputs vs names = Inr s"
    and "schema = SCHEMA_SILENT_WITNESS \<or> schema = SCHEMA_SILENT_WITNESS_V2"
  shows "classify H schema (PStr s) w \<noteq> None"
proof
  from assms(2) obtain ns where ns: "\<forall>n \<in> set ns. n < BN254_SCALAR_FIELD_MODULUS"
      and s: "s = tohex (concat (map (nat_be 32) ns))"
    unfolding encode_public_inputs_def using encode_from_eq_Inr by blast
  have tag: "SILENT_WITNESS_DOMAIN_TAG H \<notin> set (map (nat_be 32) ns)"
    using ns assms(1) canonical_nat_be by (fastforce simp: is_canonical_field_def)
  assume "classify H schema (PStr s) w = None"
  then obtain r where "parse_public_inputs H schema (concat (map (nat_be 32) ns)) = Inr r"
    by (auto simp: classify_None_iff decode_hex_eq_Inr s)
  then have "(\<exists>fs. split_fields (concat (map (nat_be 32) ns)) (32 * 5) 5 = Inr fs \<and> fs ! 4 = SILENT_WITNESS_DOMAIN_TAG H)
      \<or> (\<exists>fs. split_fields (concat (map (nat_be 32) ns)) (32 * 8) 8 = Inr fs \<and> fs ! 6 = SILENT_WITNESS_DOMAIN_TAG H)"
    using assms(3)
    by (auto simp: parse_public_inputs_def parse_silent_witness_inputs_def parse_silent_witness_v2_inputs_def
        andthen_eq_Inr constant_time_equals_def frame_lens split: if_splits)
  then show False
  proof
    assume "\<exists>fs. split_fields (concat (map (nat_be 32) ns)) (32 * 5) 5 = Inr fs \<and> fs ! 4 = SILENT_WITNESS_DOMAIN_TAG H"
    then have "length ns = 5" "map (nat_be 32) ns ! 4 = SILENT_WITNESS_DOMAIN_TAG H"
      unfolding split_encoded by auto
    with tag nth_mem [of 4 "map (nat_be 32) ns"] show False by simp
  next
    assume "\<exists>fs. split_fields (concat (map (nat_be 32) ns)) (32 * 8) 8 = Inr fs \<and> fs ! 6 = SILENT_WITNESS_DOMAIN_TAG H"
    then have "length ns = 8" "map (nat_be 32) ns ! 6 = SILENT_WITNESS_DOMAIN_TAG H"
      unfolding split_encoded by auto
    with tag nth_mem [of 6 "map (nat_be 32) ns"] show False by simp
  qed
qed

theorem domain_tag_outside_field_rejects_all_witness:
  "classify (\<lambda>_. nat_be 32 0x4aa038f0a27b6675d7122ae2d4e197c21e83fbe30143a5c83ff35c9514b92c55)
     SCHEMA_SILENT_WITNESS (PStr (tohex (nat_be 32 1))) PNone \<noteq> None"
    (is "classify ?H _ _ _ \<noteq> None")
proof (rule domain_tag_outside_field_rejects_all [where vs = "[PInt 1]" and names = "[]"])
  show "BN254_SCALAR_FIELD_MODULUS \<le> be_nat (SILENT_WITNESS_DOMAIN_TAG ?H)"
    by (simp add: SILENT_WITNESS_DOMAIN_TAG_def be_nat_nat_be BN254_SCALAR_FIELD_MODULUS_def del: nat_be.simps)
  show "encode_public_inputs [PInt 1] [] = Inr (tohex (nat_be 32 1))"
    using encode_from_ints [of "[1]" "[]" 0]
    by (simp add: encode_public_inputs_def BN254_SCALAR_FIELD_MODULUS_def del: nat_be.simps)
qed simp

end
