(* ===== verification/Strkey.thy ===== *)
theory Strkey
  imports Prelude
begin

text \<open>
  Stellar StrKeys, after \<^verbatim>\<open>src/backend/strkey.py\<close>: the unpadded base32 decoder and encoder (both
  keep an unbounded bit buffer and a bit count), CRC16-XMODEM on Python integers, and the
  validators of account addresses and contract ids.

  The lemmas show that decoder and encoder are the positional representations of one number in
  bases 32 and 256, that the CRC loop is arithmetic on 16-bit words, that the CRC detects
  every change confined to two adjacent bytes, and that the validators accept exactly the
  strings \<^verbatim>\<open>make_strkey\<close> produces. Text is ASCII; an \<open>expected_version_byte\<close> is a byte.
\<close>

unbundle bit_operations_syntax

subsection \<open>Definitions\<close>

definition STELLAR_ALPHABET :: string where
  "STELLAR_ALPHABET = ''ABCDEFGHIJKLMNOPQRSTUVWXYZ234567''"

definition VERSION_BYTE_ED25519_PUBLIC :: nat where
  "VERSION_BYTE_ED25519_PUBLIC = push_bit 3 6"

definition VERSION_BYTE_CONTRACT :: nat where
  "VERSION_BYTE_CONTRACT = push_bit 3 2"

definition STRKEY_ENCODED_LENGTH :: nat where
  "STRKEY_ENCODED_LENGTH = 56"

definition STRKEY_DECODED_LENGTH :: nat where
  "STRKEY_DECODED_LENGTH = 35"

definition CRC16_POLY :: nat where
  "CRC16_POLY = 0x1021"

definition CRC16_INIT :: nat where
  "CRC16_INIT = 0"

definition CRC16_BIT_MASK :: nat where
  "CRC16_BIT_MASK = 0xFFFF"

fun index_of :: "'a list \<Rightarrow> 'a \<Rightarrow> nat option" where
  "index_of [] c = None"
| "index_of (x # xs) c = (if x = c then Some 0 else map_option Suc (index_of xs c))"

definition BASE32_DECODE :: "char \<Rightarrow> nat option" where
  "BASE32_DECODE c = index_of STELLAR_ALPHABET c"

text \<open>
  The loop of \<^verbatim>\<open>_decode_base32\<close> with its local variables \<open>buffer\<close>, \<open>bits_consumed\<close>, \<open>byte_index\<close> and
  \<open>result\<close>; the buffer is never truncated, as in the source.
\<close>

fun decode_loop :: "string \<Rightarrow> nat \<Rightarrow> nat \<Rightarrow> nat \<Rightarrow> bytes \<Rightarrow> string + bytes" where
  "decode_loop [] buffer bits byte_index result = Inr result"
| "decode_loop (ch # cs) buffer bits byte_index result =
     (case BASE32_DECODE ch of
        None \<Rightarrow> Inl ''invalid StrKey character''
      | Some value \<Rightarrow>
          let buffer' = push_bit 5 buffer OR value; bits' = bits + 5 in
          if 8 \<le> bits' then
            decode_loop cs buffer' (bits' - 8) (byte_index + 1)
              (result[byte_index := of_nat (drop_bit (bits' - 8) buffer' AND 0xFF)])
          else decode_loop cs buffer' bits' byte_index result)"

definition decode_base32 :: "string \<Rightarrow> string + bytes" where
  "decode_base32 data =
     (if length data \<noteq> STRKEY_ENCODED_LENGTH then Inl ''StrKey must be 56 characters''
      else decode_loop data 0 0 0 (replicate STRKEY_DECODED_LENGTH 0))"

text \<open>One turn of the inner loop of \<^verbatim>\<open>_crc16_xmodem\<close>, one byte, and the whole routine.\<close>

definition crc16_bit :: "nat \<Rightarrow> nat" where
  "crc16_bit crc =
     (let crc' = push_bit 1 crc in
      if crc' AND 0x10000 \<noteq> 0 then (crc' XOR CRC16_POLY) AND CRC16_BIT_MASK else crc')"

definition crc16_byte :: "nat \<Rightarrow> byte \<Rightarrow> nat" where
  "crc16_byte crc b = (crc16_bit ^^ 8) (crc XOR push_bit 8 (unat b))"

definition crc16_xmodem :: "bytes \<Rightarrow> nat" where
  "crc16_xmodem data = foldl crc16_byte CRC16_INIT data"

definition is_valid_strkey :: "pyval \<Rightarrow> byte \<Rightarrow> bool" where
  "is_valid_strkey v expected_version_byte =
     (case v of
        PStr value \<Rightarrow>
          if length value \<noteq> STRKEY_ENCODED_LENGTH then False
          else let normalised = py_upper value;
                   expected_prefix = STELLAR_ALPHABET ! drop_bit 3 (unat expected_version_byte) in
            if normalised ! 0 \<noteq> expected_prefix then False
            else (case decode_base32 normalised of
                    Inl _ \<Rightarrow> False
                  | Inr decoded \<Rightarrow>
                      if decoded ! 0 \<noteq> expected_version_byte then False
                      else let payload = take 33 decoded;
                               expected_crc = push_bit 8 (unat (decoded ! 33)) OR unat (decoded ! 34)
                           in expected_crc = crc16_xmodem payload)
      | _ \<Rightarrow> False)"

definition validate_source_address :: "pyval \<Rightarrow> string + string option" where
  "validate_source_address v =
     (case v of
        PNone \<Rightarrow> Inr None
      | PStr s \<Rightarrow>
          let normalized = py_upper (py_strip s) in
          if is_valid_strkey (PStr normalized) (of_nat VERSION_BYTE_ED25519_PUBLIC)
          then Inr (Some normalized)
          else Inl ''sourceAddress must be a valid Stellar G-address''
      | _ \<Rightarrow> Inl ''sourceAddress must be a valid Stellar G-address'')"

definition validate_contract_id :: "pyval \<Rightarrow> string + string option" where
  "validate_contract_id v =
     (case v of
        PNone \<Rightarrow> Inr None
      | PStr s \<Rightarrow>
          let normalized = py_upper (py_strip s) in
          if is_valid_strkey (PStr normalized) (of_nat VERSION_BYTE_CONTRACT)
          then Inr (Some normalized)
          else Inl ''contractId must be a valid Stellar C-contract ID''
      | _ \<Rightarrow> Inl ''contractId must be a valid Stellar C-contract ID'')"

text \<open>The \<open>while\<close> loop of \<^verbatim>\<open>_encode_base32\<close>, its \<open>for\<close> loop, and the final partial group.\<close>

fun emit_groups :: "nat \<Rightarrow> nat \<Rightarrow> string \<Rightarrow> nat \<times> string" where
  "emit_groups buffer bits out =
     (if 5 \<le> bits
      then emit_groups buffer (bits - 5)
             (out @ [STELLAR_ALPHABET ! (drop_bit (bits - 5) buffer AND 0x1F)])
      else (bits, out))"

declare emit_groups.simps [simp del]

fun encode_loop :: "bytes \<Rightarrow> nat \<Rightarrow> nat \<Rightarrow> string \<Rightarrow> nat \<times> nat \<times> string" where
  "encode_loop [] buffer bits out = (buffer, bits, out)"
| "encode_loop (b # bs) buffer bits out =
     (let buffer' = push_bit 8 buffer OR unat b; (bits', out') = emit_groups buffer' (bits + 8) out
      in encode_loop bs buffer' bits' out')"

definition encode_base32 :: "bytes \<Rightarrow> string" where
  "encode_base32 data =
     (let (buffer, bits, out) = encode_loop data 0 0 [] in
      if 0 < bits then out @ [STELLAR_ALPHABET ! (push_bit (5 - bits) buffer AND 0x1F)] else out)"

definition make_strkey :: "byte \<Rightarrow> bytes \<Rightarrow> string + string" where
  "make_strkey version_byte payload =
     (if length payload \<noteq> 32 then Inl ''payload must be 32 bytes''
      else let raw = version_byte # payload; crc = crc16_xmodem raw in
        Inr (encode_base32 (raw @ [of_nat (drop_bit 8 crc AND 0xFF), of_nat (crc AND 0xFF)])))"

subsection \<open>Base 32 and base 256\<close>

lemma or_is_plus:
  assumes "v < 2 ^ k"
  shows "push_bit k b OR v = b * 2 ^ k + (v :: nat)"
proof -
  have v: "v = take_bit k v" using assms by (simp add: take_bit_nat_eq_self)
  have "push_bit k b AND take_bit k v = 0"
    by (rule bit_eqI) (auto simp: bit_simps)
  then have "push_bit k b AND v = 0" using v by simp
  then show ?thesis by (metis disjunctive_add_eq_or push_bit_eq_mult)
qed

lemma and_FF: "n AND 0xFF = n mod (256 :: nat)"
  using take_bit_eq_mask [of 8 n] by (simp add: take_bit_eq_mod mask_eq_exp_minus_1)

lemma and_1F: "n AND 0x1F = n mod (32 :: nat)"
  using take_bit_eq_mask [of 5 n] by (simp add: take_bit_eq_mod mask_eq_exp_minus_1)

lemma index_of_SomeD: "index_of xs c = Some i \<Longrightarrow> i < length xs \<and> xs ! i = c"
  by (induction xs arbitrary: i) (auto split: if_splits)

lemma index_of_nth: "distinct xs \<Longrightarrow> i < length xs \<Longrightarrow> index_of xs (xs ! i) = Some i"
  by (induction xs arbitrary: i) (auto simp: nth_Cons split: nat.splits)

lemma length_alphabet [simp, lens]: "length STELLAR_ALPHABET = 32"
  by (simp add: STELLAR_ALPHABET_def)

lemma distinct_alphabet: "distinct STELLAR_ALPHABET"
  by (simp add: STELLAR_ALPHABET_def)

lemma BASE32_DECODE_nth [simp]: "i < 32 \<Longrightarrow> BASE32_DECODE (STELLAR_ALPHABET ! i) = Some i"
  by (simp add: BASE32_DECODE_def index_of_nth distinct_alphabet)

lemma BASE32_DECODE_SomeD: "BASE32_DECODE c = Some i \<Longrightarrow> i < 32 \<and> STELLAR_ALPHABET ! i = c"
  unfolding BASE32_DECODE_def by (auto dest: index_of_SomeD)

text \<open>
  The reference: a base32 text denotes a number (\<open>b32_nat\<close>), and \<open>nat_b32 k n\<close> writes the last
  \<open>k\<close> digits of \<open>n\<close>.
\<close>

definition base32_text :: "string \<Rightarrow> bool" where
  "base32_text s \<longleftrightarrow> list_all (\<lambda>c. BASE32_DECODE c \<noteq> None) s"

definition b32_val :: "char \<Rightarrow> nat" where
  "b32_val c = (case BASE32_DECODE c of Some v \<Rightarrow> v | None \<Rightarrow> 0)"

definition b32_acc :: "nat \<Rightarrow> string \<Rightarrow> nat" where
  "b32_acc n s = foldl (\<lambda>n c. n * 32 + b32_val c) n s"

fun nat_b32 :: "nat \<Rightarrow> nat \<Rightarrow> string" where
  "nat_b32 0 n = []"
| "nat_b32 (Suc k) n = nat_b32 k (n div 32) @ [STELLAR_ALPHABET ! (n mod 32)]"

lemma b32_acc_simps [simp]:
  "b32_acc n [] = n" "b32_acc n (c # cs) = b32_acc (n * 32 + b32_val c) cs"
  "b32_acc n (s @ [c]) = b32_acc n s * 32 + b32_val c"
  by (simp_all add: b32_acc_def)

lemma b32_val_less: "b32_val c < 32"
  by (auto simp: b32_val_def split: option.splits dest: BASE32_DECODE_SomeD)

lemma length_nat_b32 [simp, lens]: "length (nat_b32 k n) = k"
  by (induction k arbitrary: n) auto

lemma base32_text_simps [simp]:
  "base32_text []" "base32_text (c # s) \<longleftrightarrow> BASE32_DECODE c \<noteq> None \<and> base32_text s"
  "base32_text (s @ t) \<longleftrightarrow> base32_text s \<and> base32_text t"
  by (auto simp: base32_text_def)

lemma base32_text_nat_b32 [simp]: "base32_text (nat_b32 k n)"
  by (induction k arbitrary: n) auto

lemma b32_acc_nat_b32: "b32_acc 0 (nat_b32 k n) = n mod 32 ^ k"
proof (induction k arbitrary: n)
  case (Suc k)
  have "b32_acc 0 (nat_b32 (Suc k) n) = n div 32 mod 32 ^ k * 32 + n mod 32"
    by (simp add: Suc.IH b32_val_def)
  also have "\<dots> = n mod (32 * 32 ^ k)" by (simp add: mod_mult2_eq mult.commute)
  finally show ?case by simp
qed simp

lemma nat_b32_b32_acc: "base32_text s \<Longrightarrow> nat_b32 (length s) (b32_acc 0 s) = s"
proof (induction s rule: rev_induct)
  case (snoc c s)
  moreover have "STELLAR_ALPHABET ! b32_val c = c"
    using snoc.prems by (auto simp: b32_val_def dest: BASE32_DECODE_SomeD)
  ultimately show ?case using b32_val_less [of c] by simp
qed simp

lemma b32_acc_less: "b32_acc 0 s < 32 ^ length s"
proof (induction s rule: rev_induct)
  case (snoc c s)
  then have "b32_acc 0 s + 1 \<le> 32 ^ length s" by simp
  then have "b32_acc 0 s * 32 + 32 \<le> 32 * 32 ^ length s" by linarith
  then show ?case using b32_val_less [of c] by simp
qed simp

lemma shift_in:
  assumes "v < 2 ^ k"
  shows "(b * 2 ^ k + v) div 2 ^ (n + k) = b div (2 :: nat) ^ n"
proof -
  have "(b * 2 ^ k + v) div 2 ^ (k + n) = (b * 2 ^ k + v) div 2 ^ k div 2 ^ n"
    by (simp add: power_add div_mult2_eq)
  then show ?thesis using assms by (simp add: add.commute)
qed

lemma decode_loop_spec:
  assumes "base32_text cs" "bits < 8" "take i res = nat_be i (buf div 2 ^ bits)"
    and "i + (bits + 5 * length cs) div 8 \<le> length res"
  shows "\<exists>res'. decode_loop cs buf bits i res = Inr res' \<and> length res' = length res \<and>
     take (i + (bits + 5 * length cs) div 8) res' =
     nat_be (i + (bits + 5 * length cs) div 8)
       (b32_acc buf cs div 2 ^ ((bits + 5 * length cs) mod 8))"
  using assms
proof (induction cs arbitrary: buf bits i res)
  case Nil
  then show ?case by simp
next
  case (Cons c cs)
  obtain v where v: "BASE32_DECODE c = Some v" using Cons.prems by auto
  then have lt: "v < 2 ^ 5" and val: "b32_val c = v"
    by (auto dest: BASE32_DECODE_SomeD simp: b32_val_def)
  let ?buf = "buf * 32 + v"
  have buf: "push_bit 5 buf OR v = ?buf" using or_is_plus [OF lt, of buf] by simp
  have hi: "?buf div 2 ^ (bits + 5) = buf div 2 ^ bits" using shift_in [OF lt, of buf bits] by simp
  show ?case
  proof (cases "8 \<le> bits + 5")
    case True
    define m where "m = bits + 5 - 8"
    have m: "bits + 5 = m + 8" "m < 8" using True Cons.prems by (auto simp: m_def)
    have lens: "bits + 5 * length (c # cs) = 8 + (m + 5 * length cs)" using m by simp
    let ?res = "res[i := of_nat (?buf div 2 ^ m mod 256)]"
    have i: "i < length res" using Cons.prems lens by simp
    have "take (Suc i) ?res = nat_be (Suc i) (?buf div 2 ^ m)"
      using Cons.prems i hi unfolding m(1)
      by (simp add: take_Suc_conv_app_nth div_mult2_eq power_add del: of_nat_mod)
    moreover have "Suc i + (m + 5 * length cs) div 8 \<le> length ?res"
      using Cons.prems(4) lens by simp
    ultimately show ?thesis
      using Cons.IH [of m "Suc i" ?res ?buf] Cons.prems m unfolding lens
      by (simp add: v buf val and_FF drop_bit_eq_div Let_def True flip: m_def del: of_nat_mod)
  next
    case False
    then show ?thesis
      using Cons.IH [of "bits + 5" i res ?buf] Cons.prems hi
      by (simp add: v buf val Let_def add.assoc)
  qed
qed

theorem decode_base32_spec:
  assumes "length s = 56"
  shows "decode_base32 s =
     (if base32_text s then Inr (nat_be 35 (b32_acc 0 s)) else Inl ''invalid StrKey character'')"
proof (cases "base32_text s")
  case True
  then show ?thesis
    using decode_loop_spec [of s 0 0 "replicate 35 0" 0] assms
    by (auto simp: decode_base32_def STRKEY_ENCODED_LENGTH_def STRKEY_DECODED_LENGTH_def
        simp del: nat_be.simps(2))
next
  case False
  then have "decode_loop s buf bits i res = Inl ''invalid StrKey character''" for buf bits i res
    by (induction s arbitrary: buf bits i res) (auto simp: Let_def split: option.splits)
  then show ?thesis using False assms by (simp add: decode_base32_def STRKEY_ENCODED_LENGTH_def)
qed

lemma emit_groups_spec:
  assumes "out = nat_b32 k (buf div 2 ^ bits)"
  shows "emit_groups buf bits out =
     (bits mod 5, nat_b32 (k + bits div 5) (buf div 2 ^ (bits mod 5)))"
  using assms
proof (induction buf bits out arbitrary: k rule: emit_groups.induct)
  case (1 buf bits out)
  show ?case
  proof (cases "5 \<le> bits")
    case True
    then obtain m where m: "bits = m + 5" by (metis add.commute le_Suc_ex)
    have "buf div 2 ^ bits = buf div 2 ^ m div 32" by (simp add: m power_add div_mult2_eq)
    then have "out @ [STELLAR_ALPHABET ! (buf div 2 ^ m mod 32)] = nat_b32 (Suc k) (buf div 2 ^ m)"
      using "1.prems" by simp
    then have "emit_groups buf m (out @ [STELLAR_ALPHABET ! (buf div 2 ^ m mod 32)]) =
        (m mod 5, nat_b32 (Suc k + m div 5) (buf div 2 ^ (m mod 5)))"
      using "1.IH" [OF True, of "Suc k"] by (simp add: m and_1F drop_bit_eq_div del: nat_b32.simps)
    then show ?thesis
      by (subst emit_groups.simps) (simp add: m and_1F drop_bit_eq_div del: nat_b32.simps)
  next
    case False
    then show ?thesis using "1.prems" by (subst emit_groups.simps) simp
  qed
qed

lemma encode_loop_spec:
  assumes "bits < 5" "out = nat_b32 k (buf div 2 ^ bits)"
  shows "encode_loop bs buf bits out =
     (buf * 256 ^ length bs + be_nat bs, (bits + 8 * length bs) mod 5,
      nat_b32 (k + (bits + 8 * length bs) div 5)
        ((buf * 256 ^ length bs + be_nat bs) div 2 ^ ((bits + 8 * length bs) mod 5)))"
  using assms
proof (induction bs arbitrary: buf bits out k)
  case Nil
  then show ?case by (simp add: be_nat_def)
next
  case (Cons b bs)
  let ?buf = "buf * 256 + unat b" and ?n = "bits + 8"
  have lt: "unat b < 2 ^ 8" using unat_byte_less [of b] by simp
  have buf: "push_bit 8 buf OR unat b = ?buf" using or_is_plus [OF lt, of buf] by simp
  have "out = nat_b32 k (?buf div 2 ^ ?n)" using Cons.prems shift_in [OF lt, of buf bits] by simp
  then have step: "emit_groups ?buf ?n out =
      (?n mod 5, nat_b32 (k + ?n div 5) (?buf div 2 ^ (?n mod 5)))"
    by (rule emit_groups_spec)
  have "?n mod 5 + 8 * length bs + 5 * (?n div 5) = bits + 8 * length (b # bs)"
    using mod_mult_div_eq [of ?n 5] by simp
  then have idx: "(bits + 8 * length (b # bs)) mod 5 = (?n mod 5 + 8 * length bs) mod 5"
    "(bits + 8 * length (b # bs)) div 5 = ?n div 5 + (?n mod 5 + 8 * length bs) div 5"
    by (metis mod_mult_self2, metis add.commute div_mult_self2 zero_neq_numeral)
  have "?buf * 256 ^ length bs + be_nat bs = buf * 256 ^ length (b # bs) + be_nat (b # bs)"
    by (simp add: algebra_simps)
  then show ?case
    using Cons.IH [of "?n mod 5" "nat_b32 (k + ?n div 5) (?buf div 2 ^ (?n mod 5))" "k + ?n div 5" ?buf]
    unfolding idx encode_loop.simps buf step Let_def prod.case by (simp only: add.assoc)
qed

lemma encode_base32_spec: "length bs = 35 \<Longrightarrow> encode_base32 bs = nat_b32 56 (be_nat bs)"
  using encode_loop_spec [of 0 "[]" 0 0 bs]
  by (simp add: encode_base32_def del: nat_b32.simps(2) nat_be.simps)

lemma strkey_bits: "(256 :: nat) ^ 35 = 32 ^ 56"
  using power_mult [of "2 :: nat" 8 35] power_mult [of "2 :: nat" 5 56] by simp

lemma decode_encode_base32:
  assumes "length bs = 35"
  shows "decode_base32 (encode_base32 bs) = Inr bs"
proof -
  have "be_nat bs < 32 ^ 56" using be_nat_less [of bs] assms strkey_bits by simp
  then show ?thesis using assms
    by (simp add: encode_base32_spec decode_base32_spec b32_acc_nat_b32 nat_be_be_nat
        del: nat_b32.simps nat_be.simps)
qed

lemma encode_decode_base32:
  assumes "decode_base32 s = Inr bs"
  shows "encode_base32 bs = s" "length bs = 35" "length s = 56" "base32_text s"
proof -
  show l: "length s = 56" using assms by (auto simp: decode_base32_def STRKEY_ENCODED_LENGTH_def split: if_splits)
  show t: "base32_text s" using assms decode_base32_spec [OF l] by (auto split: if_splits)
  have bs: "bs = nat_be 35 (b32_acc 0 s)" using assms decode_base32_spec [OF l] t by simp
  then show l35: "length bs = 35" by simp
  have "b32_acc 0 s < 256 ^ 35" using b32_acc_less [of s] l strkey_bits by simp
  then have "be_nat bs = b32_acc 0 s" unfolding bs by (rule be_nat_nat_be)
  then show "encode_base32 bs = s"
    using encode_base32_spec [OF l35] nat_b32_b32_acc [OF t] l by simp
qed

text \<open>The base32 layer as a codec between 35-byte strings and their texts.\<close>

interpretation b32: codec decode_base32 encode_base32 "\<lambda>bs. length bs = 35"
  by unfold_locales (auto simp: decode_encode_base32 dest: encode_decode_base32)

subsection \<open>The checksum on 16-bit words\<close>

text \<open>Reference: one shift of the register, multiplication by \<open>x\<close> modulo the polynomial.\<close>

definition crc_shift :: "16 word \<Rightarrow> 16 word" where
  "crc_shift w = (if bit w 15 then push_bit 1 w XOR 0x1021 else push_bit 1 w)"

definition crc_byte :: "16 word \<Rightarrow> byte \<Rightarrow> 16 word" where
  "crc_byte w b = (crc_shift ^^ 8) (w XOR push_bit 8 (ucast b))"

lemma crc16_bit_word: "crc16_bit (unat w) = unat (crc_shift w)"
proof -
  have top: "push_bit 1 (unat w) AND 0x10000 \<noteq> 0 \<longleftrightarrow> bit w 15"
  proof -
    have "push_bit 1 (unat w) AND 0x10000 \<noteq> 0 \<longleftrightarrow> bit (push_bit 1 (unat w)) 16"
      using bit_iff_and_push_bit_not_eq_0 [of "push_bit 1 (unat w)" 16] by simp
    also have "\<dots> \<longleftrightarrow> bit (unat w) 15" by (simp only: bit_push_bit_iff) simp
    also have "\<dots> \<longleftrightarrow> bit w 15" by (simp add: bit_simps)
    finally show ?thesis .
  qed
  have lt: "crc16_bit (unat w) < 2 ^ 16"
  proof (cases "bit w 15")
    case True
    have "(n AND 0xFFFF :: nat) < 2 ^ 16" for n
      using take_bit_nat_less_exp [of 16 n] by (simp add: take_bit_eq_mask mask_eq_exp_minus_1)
    then show ?thesis using True top by (simp add: crc16_bit_def CRC16_BIT_MASK_def Let_def)
  next
    case False
    have "unat w < 2 ^ 15"
    proof (rule ccontr)
      assume "\<not> unat w < 2 ^ 15"
      moreover have "unat w < 2 ^ 16" using unsigned_less [of w] by simp
      ultimately have "unat w div 2 ^ 15 = 1" by (intro div_nat_eqI) simp_all
      then have "bit (unat w) 15" by (simp add: bit_iff_odd)
      with False show False by (simp add: bit_simps)
    qed
    then show ?thesis using False top by (simp add: crc16_bit_def Let_def push_bit_eq_mult)
  qed
  have "of_nat (crc16_bit (unat w)) = crc_shift w"
  proof -
    have "n AND 0xFFFF = take_bit 16 n" for n :: nat
      by (simp add: take_bit_eq_mask mask_eq_exp_minus_1)
    moreover have "of_nat (take_bit 16 n) = (of_nat n :: 16 word)" for n
      by (rule bit_word_eqI) (simp add: bit_simps)
    moreover have "of_nat (a XOR b) = (of_nat a XOR of_nat b :: 16 word)" for a b :: nat
      by (rule bit_word_eqI) (simp add: bit_simps)
    moreover have "of_nat (push_bit 1 (unat w)) = push_bit 1 w"
      by (rule bit_word_eqI) (auto simp: bit_simps)
    ultimately show ?thesis using top
      by (auto simp: crc16_bit_def crc_shift_def CRC16_BIT_MASK_def CRC16_POLY_def Let_def)
  qed
  then have "unat (crc_shift w) = unat (of_nat (crc16_bit (unat w)) :: 16 word)" by simp
  also have "\<dots> = crc16_bit (unat w) mod 2 ^ 16" by (simp only: unsigned_of_nat take_bit_eq_mod) simp
  finally show ?thesis using lt by simp
qed

lemma crc16_bits_word: "(crc16_bit ^^ k) (unat w) = unat ((crc_shift ^^ k) w)"
  by (induction k) (auto simp: crc16_bit_word)

lemma crc16_byte_word: "crc16_byte (unat w) b = unat (crc_byte w b)"
proof -
  have "unat w XOR push_bit 8 (unat b) = unat (w XOR push_bit 8 (ucast b))"
    by (rule bit_eqI) (auto simp: bit_simps dest: bit_imp_le_length)
  then show ?thesis by (simp only: crc16_byte_def crc_byte_def crc16_bits_word)
qed

lemma crc16_foldl_word: "foldl crc16_byte (unat w) bs = unat (foldl crc_byte w bs)"
  by (induction bs arbitrary: w) (auto simp: crc16_byte_word)

lemma crc16_word: "crc16_xmodem bs = unat (foldl crc_byte 0 bs)"
  using crc16_foldl_word [of 0 bs] by (simp add: crc16_xmodem_def CRC16_INIT_def)

lemma crc16_less: "crc16_xmodem bs < 2 ^ 16"
  unfolding crc16_word using unsigned_less [of "foldl crc_byte 0 bs"] by simp

lemma bit_crc_shift:
  assumes "n < 16"
  shows "bit (crc_shift w) n \<longleftrightarrow>
     (if n = 0 then bit w 15 else bit w (n - 1) \<noteq> (bit w 15 \<and> bit (0x1021 :: 16 word) n))"
proof -
  have p: "bit (push_bit 1 w) n \<longleftrightarrow> n \<noteq> 0 \<and> bit w (n - 1)"
    using assms by (simp only: bit_push_bit_iff) auto
  have "bit (0x1021 :: 16 word) 0" by simp
  then show ?thesis by (simp only: crc_shift_def bit_xor_iff p if_distrib [of "\<lambda>w. bit w n"]) auto
qed

lemma crc_shift_xor: "crc_shift (v XOR w) = crc_shift v XOR crc_shift w"
  by (rule bit_word_eqI) (simp add: bit_crc_shift bit_xor_iff, blast)

lemma crc_shifts_xor: "(crc_shift ^^ k) (v XOR w) = (crc_shift ^^ k) v XOR (crc_shift ^^ k) w"
  by (induction k) (auto simp: crc_shift_xor)

lemma crc_shift_eq_0: "crc_shift w = 0 \<Longrightarrow> w = 0"
proof (rule bit_word_eqI)
  fix n assume w: "crc_shift w = 0" and "n < LENGTH(16)"
  then have "n = 15 \<or> n < 15" by auto
  moreover have msb: "\<not> bit w 15" using bit_crc_shift [of 0 w] w by simp
  ultimately show "bit w n = bit 0 n" using bit_crc_shift [of "Suc n" w] w by auto
qed

lemma crc_shifts_inj: "(crc_shift ^^ k) v = (crc_shift ^^ k) w \<longleftrightarrow> v = w"
proof
  assume "(crc_shift ^^ k) v = (crc_shift ^^ k) w"
  then have z: "(crc_shift ^^ k) (v XOR w) = 0" by (simp add: crc_shifts_xor)
  have "(crc_shift ^^ k) u = 0 \<Longrightarrow> u = 0" for u
    by (induction k arbitrary: u) (auto simp: dest: crc_shift_eq_0)
  with z have "v XOR w = 0" by blast
  then have "v XOR (v XOR w) = v" by simp
  then show "v = w" by (simp add: xor.assoc [symmetric])
qed simp

lemma crc_shifts_byte: "k \<le> 8 \<Longrightarrow> (crc_shift ^^ k) (ucast (b :: byte)) = push_bit k (ucast b)"
proof (induction k)
  case (Suc k)
  have "\<not> bit (push_bit k (ucast b :: 16 word)) 15"
    using Suc.prems by (auto simp: bit_simps dest: bit_imp_le_length)
  then have "crc_shift (push_bit k (ucast b)) = push_bit 1 (push_bit k (ucast b))"
    by (simp only: crc_shift_def) simp
  also have "\<dots> = push_bit (Suc k) (ucast b)" by (simp only: push_bit_push_bit) simp
  finally show ?case using Suc by simp
qed simp

definition byte_pair :: "byte \<Rightarrow> byte \<Rightarrow> 16 word" where
  "byte_pair a b = push_bit 8 (ucast a) XOR ucast b"

lemma crc_two_bytes: "crc_byte (crc_byte w a) b = (crc_shift ^^ 16) (w XOR byte_pair a b)"
proof -
  have "(crc_shift ^^ 16) (w XOR byte_pair a b) =
      (crc_shift ^^ 8) ((crc_shift ^^ 8) ((w XOR push_bit 8 (ucast a)) XOR ucast b))"
    using funpow_add [of 8 8 crc_shift] by (simp add: byte_pair_def xor.assoc)
  also have "\<dots> = (crc_shift ^^ 8) (crc_byte w a XOR push_bit 8 (ucast b))"
    by (simp only: crc_shifts_xor [of 8 "w XOR push_bit 8 (ucast a)"] crc_shifts_byte crc_byte_def)
  finally show ?thesis by (simp add: crc_byte_def)
qed

lemma byte_pair_inj: "byte_pair a b = byte_pair c d \<longleftrightarrow> a = c \<and> b = d"
proof
  assume eq: "byte_pair a b = byte_pair c d"
  have "bit (byte_pair a b) n \<longleftrightarrow> bit b n" "bit (byte_pair a b) (n + 8) \<longleftrightarrow> bit a n"
    if "n < 8" for a b n using that by (auto simp: byte_pair_def bit_simps dest: bit_imp_le_length)
  with eq show "a = c \<and> b = d" by (auto intro!: bit_word_eqI) metis+
qed simp

lemma crc_byte_inj: "crc_byte v b = crc_byte w b \<longleftrightarrow> v = w"
proof -
  have "v XOR x = w XOR x \<longleftrightarrow> v = w" for x :: "16 word"
    by (metis xor.assoc xor.right_neutral xor_self_eq)
  then show ?thesis by (simp add: crc_byte_def crc_shifts_inj)
qed

lemma crc_fold_inj: "foldl crc_byte v bs = foldl crc_byte w bs \<longleftrightarrow> v = w"
  by (induction bs arbitrary: v w) (auto simp: crc_byte_inj)

lemma crc_detects_two_bytes:
  "foldl crc_byte w (xs @ a # b # ys) = foldl crc_byte w (xs @ c # d # ys) \<longleftrightarrow> a = c \<and> b = d"
proof -
  have "v XOR x = v XOR y \<longleftrightarrow> x = y" for v x y :: "16 word"
    by (metis xor.assoc xor.left_neutral xor_self_eq)
  then show ?thesis by (simp add: crc_fold_inj crc_two_bytes crc_shifts_inj byte_pair_inj)
qed

subsection \<open>Validity\<close>

lemma crc_bytes:
  fixes hi lo :: byte
  shows "push_bit 8 (unat hi) OR unat lo = crc16_xmodem p \<longleftrightarrow>
     hi = of_nat (drop_bit 8 (crc16_xmodem p) AND 0xFF) \<and> lo = of_nat (crc16_xmodem p AND 0xFF)"
proof -
  let ?c = "crc16_xmodem p"
  have c: "?c div 256 < 256" using crc16_less [of p] by (simp add: less_mult_imp_div_less)
  have l: "unat lo < 256" "unat hi < 256" by (rule unat_byte_less)+
  have of: "x = of_nat n \<longleftrightarrow> unat x = n" if "n < 256" for x :: byte and n
    using that by (metis unat_of_nat_byte unsigned_word_eqI)
  have "push_bit 8 (unat hi) OR unat lo = unat hi * 256 + unat lo"
    using or_is_plus [of "unat lo" 8 "unat hi"] l by simp
  moreover have "unat hi * 256 + unat lo = ?c \<longleftrightarrow> unat hi = ?c div 256 \<and> unat lo = ?c mod 256"
  proof -
    have "(unat hi * 256 + unat lo) div 256 = unat hi" "(unat hi * 256 + unat lo) mod 256 = unat lo"
      using l by simp_all
    then show ?thesis by (metis div_mult_mod_eq)
  qed
  ultimately show ?thesis
    using c by (simp add: and_FF drop_bit_eq_div of del: of_nat_mod)
qed

lemma first_char:
  assumes "length bs = 35"
  shows "encode_base32 bs ! 0 = STELLAR_ALPHABET ! (unat (bs ! 0) div 8)"
proof -
  obtain v cs where bs: "bs = v # cs" and cs: "length cs = 34" using assms by (cases bs) auto
  have first: "nat_b32 (Suc k) n ! 0 = STELLAR_ALPHABET ! (n div 32 ^ k mod 32)" for k n
  proof (induction k arbitrary: n)
    case (Suc k)
    have "nat_b32 (Suc (Suc k)) n ! 0 = nat_b32 (Suc k) (n div 32) ! 0"
      by (simp only: nat_b32.simps(2) [of "Suc k"] nth_append) simp
    then show ?case using Suc.IH [of "n div 32"] by (simp only: div_mult2_eq power_Suc)
  qed simp
  have "be_nat bs div 32 ^ 55 = unat v div 8"
  proof -
    have pow: "(32 :: nat) ^ 55 = 256 ^ 34 * 8"
      using power_mult [of "2 :: nat" 8 34] power_mult [of "2 :: nat" 5 55] by simp
    have "(unat v * 256 ^ 34 + be_nat cs) div 256 ^ 34 = unat v"
      using be_nat_less [of cs] unfolding cs by (subst div_mult_self3) auto
    then show ?thesis unfolding pow div_mult2_eq bs be_nat_Cons cs by simp
  qed
  moreover have "unat v div 8 < 32" using unat_byte_less [of v] by (simp add: less_mult_imp_div_less)
  ultimately show ?thesis
    using first [of 55 "be_nat bs"] encode_base32_spec [OF assms] by (simp add: bs del: nat_b32.simps)
qed

text \<open>The codeword of a version byte and a payload, checksum included.\<close>

definition codeword :: "byte \<Rightarrow> bytes \<Rightarrow> bytes" where
  "codeword v payload =
     (v # payload) @ [of_nat (drop_bit 8 (crc16_xmodem (v # payload)) AND 0xFF),
                      of_nat (crc16_xmodem (v # payload) AND 0xFF)]"

lemma length_codeword [simp]: "length payload = 32 \<Longrightarrow> length (codeword v payload) = 35"
  by (simp add: codeword_def)

lemma make_strkey_codeword:
  "length payload = 32 \<Longrightarrow> make_strkey v payload = Inr (encode_base32 (codeword v payload))"
  by (simp add: make_strkey_def codeword_def Let_def)

lemma valid_iff_codeword:
  "is_valid_strkey (PStr s) v \<longleftrightarrow>
     (\<exists>payload. length payload = 32 \<and> decode_base32 (py_upper s) = Inr (codeword v payload))"
  (is "?L \<longleftrightarrow> ?R")
proof
  assume ?L
  then obtain d where d: "decode_base32 (py_upper s) = Inr d" "d ! 0 = v"
      and crc: "push_bit 8 (unat (d ! 33)) OR unat (d ! 34) = crc16_xmodem (take 33 d)"
    by (auto simp: is_valid_strkey_def Let_def split: if_splits sum.splits)
  have l: "length d = 35" using encode_decode_base32 [OF d(1)] by simp
  then have "drop 33 d = [d ! 33, d ! 34]"
    by (simp add: Cons_nth_drop_Suc [symmetric])
  then have "d = take 33 d @ [d ! 33, d ! 34]" by (metis append_take_drop_id)
  moreover have "take 33 d = v # take 32 (tl d)" using d(2) l by (cases d) auto
  ultimately have "d = codeword v (take 32 (tl d))"
    using crc unfolding codeword_def crc_bytes by simp
  then show ?R using d l by (intro exI [of _ "take 32 (tl d)"]) simp
next
  assume ?R
  then obtain p where p: "length p = 32" "decode_base32 (py_upper s) = Inr (codeword v p)" by blast
  have enc: "encode_base32 (codeword v p) = py_upper s" and len: "length (py_upper s) = 56"
    using encode_decode_base32 [OF p(2)] by simp_all
  have c: "codeword v p ! 0 = v" "take 33 (codeword v p) = v # p"
    using p(1) by (simp_all add: codeword_def)
  have "push_bit 8 (unat (codeword v p ! 33)) OR unat (codeword v p ! 34) = crc16_xmodem (v # p)"
    unfolding crc_bytes using p(1) by (simp add: codeword_def nth_append)
  then show ?L
    using first_char [OF length_codeword [OF p(1), of v]] p(2) c len enc
    by (simp add: is_valid_strkey_def Let_def STRKEY_ENCODED_LENGTH_def drop_bit_eq_div)
qed

lemma codeword_crc: "foldl crc_byte 0 (codeword v payload) = 0"
proof -
  let ?w = "foldl crc_byte 0 (v # payload)"
  have w: "crc16_xmodem (v # payload) = unat ?w" by (rule crc16_word)
  have "byte_pair (of_nat (unat w div 256 mod 256)) (of_nat (unat w mod 256)) = w" for w :: "16 word"
  proof (rule bit_word_eqI)
    fix n assume n: "n < LENGTH(16)"
    have "unat w div 256 mod 256 = take_bit 8 (drop_bit 8 (unat w))" "unat w mod 256 = take_bit 8 (unat w)"
      by (simp_all add: take_bit_eq_mod drop_bit_eq_div)
    moreover have "of_nat (take_bit 8 (drop_bit 8 (unat w))) = (ucast (drop_bit 8 w) :: byte)"
      "of_nat (take_bit 8 (unat w)) = (ucast w :: byte)"
      by (rule bit_word_eqI, simp add: bit_simps)+
    ultimately have b: "of_nat (unat w div 256 mod 256) = (ucast (drop_bit 8 w) :: byte)"
      "of_nat (unat w mod 256) = (ucast w :: byte)"
      by (simp_all only:)
    show "bit (byte_pair (of_nat (unat w div 256 mod 256)) (of_nat (unat w mod 256))) n = bit w n"
      unfolding b using n by (auto simp: byte_pair_def bit_simps)
  qed
  then have "foldl crc_byte 0 (codeword v payload) = (crc_shift ^^ 16) 0"
    unfolding codeword_def w and_FF drop_bit_eq_div foldl_append
    by (simp add: crc_two_bytes del: of_nat_mod)
  moreover have "(crc_shift ^^ k) 0 = 0" for k by (induction k) (auto simp: crc_shift_def)
  ultimately show ?thesis by simp
qed

lemma nat_be_append: "nat_be (i + k) n = nat_be i (n div 256 ^ k) @ nat_be k n"
  by (induction k arbitrary: n) (auto simp: div_mult2_eq)

lemma nat_be_mod: "nat_be k n = nat_be k (n mod 256 ^ k)"
proof (induction k arbitrary: n)
  case (Suc k)
  have "n mod (256 * 256 ^ k) div 256 = n div 256 mod 256 ^ k"
    by (simp add: mod_mult2_eq)
  moreover have "n mod (256 * 256 ^ k) mod 256 = n mod 256" by (simp add: mod_mult2_eq)
  ultimately show ?case using Suc.IH [of "n div 256"] by simp
qed simp

lemma b32_acc_shift: "b32_acc n t = n * 32 ^ length t + b32_acc 0 t"
proof (induction t rule: rev_induct)
  case (snoc c t)
  then show ?case by (simp add: algebra_simps)
qed simp

lemma b32_acc_split:
  assumes "i < length s"
  shows "b32_acc 0 (s[i := x]) =
     (b32_acc 0 (take i s) * 32 + b32_val x) * 32 ^ (length s - Suc i) + b32_acc 0 (drop (Suc i) s)"
proof -
  have "b32_acc 0 (s[i := x]) = b32_acc (b32_acc 0 (take i s) * 32 + b32_val x) (drop (Suc i) s)"
    using assms by (simp add: b32_acc_def upd_conv_take_nth_drop)
  then show ?thesis using b32_acc_shift [of "b32_acc 0 (take i s) * 32 + b32_val x"] by (metis length_drop)
qed

text \<open>
  A five-bit digit at weight \<open>32 ^ m\<close> lies in the two bytes at weights \<open>256 ^ j\<close> and \<open>256 ^ (j + 1)\<close>:
  the bytes around them do not depend on it.
\<close>

lemma digit_window:
  fixes A B m j :: nat
  assumes "B < 32 ^ m" "8 * j \<le> 5 * m" "5 * m + 5 \<le> 8 * (j + 2)" "v < 32"
  shows "((A * 32 + v) * 32 ^ m + B) div 256 ^ (j + 2) = A div 2 ^ (8 * (j + 2) - (5 * m + 5))"
    and "((A * 32 + v) * 32 ^ m + B) mod 256 ^ j = B mod 256 ^ j"
proof -
  let ?r = "8 * (j + 2) - (5 * m + 5)"
  have pow: "(32 :: nat) ^ m = 2 ^ (5 * m)" "(256 :: nat) ^ k = 2 ^ (8 * k)" for k
    by (simp_all add: power_mult)
  have "8 * (j + 2) = 5 * m + 5 + ?r" using assms(3) by simp
  then have "(2 :: nat) ^ (8 * (j + 2)) = 2 ^ (5 * m) * 2 ^ 5 * 2 ^ ?r" by (metis power_add)
  then have e: "(256 :: nat) ^ (j + 2) = 32 ^ m * 32 * 2 ^ ?r" unfolding pow by (simp del: power_add)
  show "((A * 32 + v) * 32 ^ m + B) div 256 ^ (j + 2) = A div 2 ^ ?r"
    unfolding e div_mult2_eq using assms(1,4) by simp
  have "(256 :: nat) ^ j dvd 32 ^ m" unfolding pow by (rule le_imp_power_dvd) (rule assms(2))
  then have "256 ^ j dvd (A * 32 + v) * 32 ^ m" by (rule dvd_mult)
  then show "((A * 32 + v) * 32 ^ m + B) mod 256 ^ j = B mod 256 ^ j"
    by (simp add: mod_add_left_eq [symmetric] dvd_eq_mod_eq_0)
qed

lemma nat_be_window:
  assumes "j \<le> 33"
  shows "\<exists>a b. nat_be 35 n = nat_be (33 - j) (n div 256 ^ (j + 2)) @ a # b # nat_be j (n mod 256 ^ j)"
proof -
  have "nat_be 35 n = nat_be ((33 - j) + (2 + j)) n" using assms by simp
  also have "\<dots> = nat_be (33 - j) (n div 256 ^ (2 + j)) @ nat_be 2 (n div 256 ^ j) @ nat_be j n"
    by (simp only: nat_be_append)
  finally show ?thesis using nat_be_mod [of j n] by (simp only: add.commute [of 2 j]) (simp add: numeral_2_eq_2)
qed

text \<open>Two texts that differ in one character decode to bytes that differ in at most two adjacent places.\<close>

lemma one_char_two_bytes:
  assumes "length s = 56" "i < 56"
  obtains xs ys where
    "\<And>x. \<exists>a b. nat_be 35 (b32_acc 0 (s[i := x])) = xs @ a # b # ys"
proof -
  define m where "m = 55 - i"
  define j where "j = min 33 (5 * m div 8)"
  have j: "8 * j \<le> 5 * m" "5 * m + 5 \<le> 8 * (j + 2)" "j \<le> 33"
    using assms(2) by (auto simp: j_def m_def min_def)
  let ?B = "b32_acc 0 (drop (Suc i) s)"
  have "?B < 32 ^ m" using b32_acc_less [of "drop (Suc i) s"] assms by (simp add: m_def)
  note window = digit_window [OF this j(1,2) b32_val_less]
  have "b32_acc 0 (s[i := x]) = (b32_acc 0 (take i s) * 32 + b32_val x) * 32 ^ m + ?B" for x
    using b32_acc_split [of i s x] assms by (simp add: m_def)
  then show thesis using that nat_be_window [OF j(3)] window by metis
qed

lemma codewords_apart:
  assumes "codeword v p = xs @ a # b # ys" "codeword v q = xs @ a' # b' # ys"
  shows "codeword v p = codeword v q"
  using assms codeword_crc [of v p] codeword_crc [of v q] crc_detects_two_bytes [of 0 xs a b ys a' b']
  by simp

subsection \<open>Properties\<close>

text \<open>
  C19: a text is a valid StrKey of version byte \<open>v\<close> exactly when its upper-case form is what
  \<^verbatim>\<open>make_strkey\<close> produces for \<open>v\<close> and some 32-byte payload: the validator accepts no other
  encoding and refuses no generated key.
\<close>

theorem strkey_valid_iff:
  "is_valid_strkey (PStr s) v \<longleftrightarrow>
     (\<exists>payload. length payload = 32 \<and> make_strkey v payload = Inr (py_upper s))"
  unfolding valid_iff_codeword
  by (metis b32.decode_iff length_codeword make_strkey_codeword sum.inject(2))

text \<open>
  C20: a valid StrKey in which one character is mistyped, at any of the 56 positions, is never
  valid for the same version byte: the two-byte checksum detects every such error.
\<close>

theorem single_character_error_detected:
  assumes "is_valid_strkey (PStr s) v" "i < 56" "upper_char c \<noteq> upper_char (s ! i)"
  shows "\<not> is_valid_strkey (PStr (s[i := c])) v"
proof
  assume bad: "is_valid_strkey (PStr (s[i := c])) v"
  let ?s = "py_upper s" and ?t = "py_upper (s[i := c])"
  from assms(1) obtain p where p: "decode_base32 ?s = Inr (codeword v p)"
    unfolding valid_iff_codeword by blast
  from bad obtain q where q: "decode_base32 ?t = Inr (codeword v q)"
    unfolding valid_iff_codeword by blast
  note s = encode_decode_base32 [OF p] and t = encode_decode_base32 [OF q]
  have upd: "?t = ?s[i := upper_char c]" by (simp add: py_upper_def map_update)
  obtain xs ys where w: "\<And>x. \<exists>a b. nat_be 35 (b32_acc 0 (?s[i := x])) = xs @ a # b # ys"
    using one_char_two_bytes [OF s(3) assms(2)] by blast
  have "\<exists>a b. codeword v p = xs @ a # b # ys"
    using w [of "?s ! i"] p decode_base32_spec [OF s(3)] s(4) by (simp del: nat_be.simps)
  moreover have "\<exists>a b. codeword v q = xs @ a # b # ys"
    using w [of "upper_char c"] q decode_base32_spec [OF t(3)] t(4) by (simp add: upd del: nat_be.simps)
  ultimately have "codeword v p = codeword v q" using codewords_apart by metis
  then have "?s = ?t" using s(1) t(1) by metis
  then have "?s ! i = ?t ! i" by simp
  then show False using assms(2,3) s(3) unfolding upd by (simp add: py_upper_def)
qed

text \<open>A concrete account, the all-zero public key with the code's checksum.\<close>

definition ZERO_ACCOUNT :: string where
  "ZERO_ACCOUNT = ''GAAAAAAAAAAAAAAAAAAAAAAAAAAAAAAAAAAAAAAAAAAAAAAAAAAABZKY''"

lemma crc16_byte_unrolled:
  "crc16_byte crc b = crc16_bit (crc16_bit (crc16_bit (crc16_bit (crc16_bit (crc16_bit (crc16_bit
     (crc16_bit (crc XOR push_bit 8 (unat b)))))))))"
  by (simp add: crc16_byte_def eval_nat_numeral)

lemma nat_b32_numeral:
  "nat_b32 (numeral k) n = nat_b32 (pred_numeral k) (n div 32) @ [STELLAR_ALPHABET ! (n mod 32)]"
  unfolding numeral_eq_Suc [of k] by (rule nat_b32.simps(2))

lemma zero_account_crc: "crc16_xmodem (48 # replicate 32 0) = 0xE558"
  by (simp add: crc16_xmodem_def CRC16_INIT_def crc16_byte_unrolled crc16_bit_def Let_def
      CRC16_POLY_def CRC16_BIT_MASK_def replicate_numeral_Cons)

lemma zero_account_number: "be_nat (codeword 48 (replicate 32 0)) = 0x300000000000000000000000000000000000000000000000000000000000000000e558"
proof -
  have "be_nat (replicate 32 0) = 0" using be_nat_zero_iff [of "replicate 32 0"] by simp
  then show ?thesis
    by (simp add: codeword_def zero_account_crc and_FF be_nat_append)
qed

lemma zero_account_encoding: "encode_base32 (codeword 48 (replicate 32 0)) = ZERO_ACCOUNT"
proof -
  have "encode_base32 (codeword 48 (replicate 32 0)) = nat_b32 56 0x300000000000000000000000000000000000000000000000000000000000000000e558"
    using encode_base32_spec [of "codeword 48 (replicate 32 0)"] zero_account_number by simp
  also have "\<dots> = map ((!) STELLAR_ALPHABET) ([6] @ replicate 51 0 @ [1, 25, 10, 24])"
    by (simp add: nat_b32_numeral replicate_numeral_Cons)
  also have "\<dots> = ZERO_ACCOUNT"
    by (simp add: STELLAR_ALPHABET_def ZERO_ACCOUNT_def replicate_numeral_Cons)
  finally show ?thesis .
qed

lemma zero_account_upper: "py_upper ZERO_ACCOUNT = ZERO_ACCOUNT"
  by (simp add: ZERO_ACCOUNT_def py_upper_def upper_char_def char_code_def)

lemma zero_account_valid: "is_valid_strkey (PStr ZERO_ACCOUNT) 48"
  unfolding valid_iff_codeword zero_account_upper
  using decode_encode_base32 [of "codeword 48 (replicate 32 0)"] zero_account_encoding
  by (intro exI [of _ "replicate 32 0"]) simp

theorem single_character_error_detected_witness:
  "is_valid_strkey (PStr ZERO_ACCOUNT) 48 \<and>
   \<not> is_valid_strkey (PStr (ZERO_ACCOUNT[7 := CHR ''B''])) 48"
  using single_character_error_detected [OF zero_account_valid, of 7 "CHR ''B''"] zero_account_valid
  by (simp add: ZERO_ACCOUNT_def upper_char_def char_code_def)

text \<open>
  the byte order of the checksum. A StrKey whose checksum is stored low byte first, as in the
  published Stellar format (SEP-23), is valid only when the two checksum bytes are equal; the
  code stores and expects the high byte first. So the code refuses addresses in the published
  format: the all-zero account \<^verbatim>\<open>GAAA...AWHF\<close> is one of them.
\<close>

theorem checksum_low_byte_first_refused:
  assumes "length payload = 32" "crc16_xmodem (v # payload) = c" "c mod 256 \<noteq> c div 256"
  shows "\<not> is_valid_strkey (PStr (encode_base32 (v # payload @ [of_nat (c mod 256), of_nat (c div 256)]))) v"
proof
  let ?bs = "v # payload @ [of_nat (c mod 256), of_nat (c div 256)]"
  have c: "c div 256 < 256"
    using crc16_less [of "v # payload"] assms(2) by (simp add: less_mult_imp_div_less)
  have l: "length ?bs = 35" using assms(1) by simp
  have up: "py_upper (nat_b32 k n) = nat_b32 k n" for k n
  proof (induction k arbitrary: n)
    case (Suc k)
    have "list_all (\<lambda>c. upper_char c = c) STELLAR_ALPHABET"
      by (simp add: STELLAR_ALPHABET_def upper_char_def char_code_def)
    then have "upper_char (STELLAR_ALPHABET ! (n mod 32)) = STELLAR_ALPHABET ! (n mod 32)"
      by (simp add: list_all_length)
    then show ?case using Suc by (simp add: py_upper_def)
  qed (simp add: py_upper_def)
  assume "is_valid_strkey (PStr (encode_base32 ?bs)) v"
  then obtain p where "length p = 32" "?bs = codeword v p"
    unfolding valid_iff_codeword encode_base32_spec [OF l] up
    using decode_encode_base32 [OF l] by (auto simp: encode_base32_spec [OF l])
  then have "(of_nat (c mod 256) :: byte) = of_nat (c div 256 mod 256)"
    using assms(1,2) by (simp add: codeword_def and_FF drop_bit_eq_div del: of_nat_mod)
  then have "unat (of_nat (c mod 256) :: byte) = unat (of_nat (c div 256) :: byte)"
    using c by (simp del: of_nat_mod)
  then show False using assms(3) c by (simp add: unat_of_nat_byte del: of_nat_mod)
qed

theorem checksum_low_byte_first_refused_witness:
  "crc16_xmodem (48 # replicate 32 0) = 0xE558 \<and>
   \<not> is_valid_strkey (PStr (encode_base32 (48 # replicate 32 0 @ [0x58, 0xE5]))) 48"
  using checksum_low_byte_first_refused [of "replicate 32 0" 48, OF _ zero_account_crc] zero_account_crc
  by simp

text \<open>The nullable validators return the normal form, and validating a normal form changes nothing.\<close>

lemma validate_source_address_Some:
  "validate_source_address (PStr s) = Inr (Some t) \<longleftrightarrow>
     t = py_upper (py_strip s) \<and> is_valid_strkey (PStr t) 48"
  by (auto simp: validate_source_address_def VERSION_BYTE_ED25519_PUBLIC_def Let_def)

lemma validate_contract_id_Some:
  "validate_contract_id (PStr s) = Inr (Some t) \<longleftrightarrow>
     t = py_upper (py_strip s) \<and> is_valid_strkey (PStr t) 16"
  by (auto simp: validate_contract_id_def VERSION_BYTE_CONTRACT_def Let_def)

lemma validate_source_address_idem:
  "validate_source_address v = Inr (Some t) \<Longrightarrow> validate_source_address (PStr t) = Inr (Some t)"
  by (cases v)
    (auto simp: validate_source_address_def Let_def py_strip_upper [symmetric] split: if_splits)

lemma address_not_contract:
  assumes "is_valid_strkey (PStr s) v" "is_valid_strkey (PStr s) w"
  shows "v = w"
  using assms unfolding valid_iff_codeword by (auto simp: codeword_def)

end
