(* ===== verification/Register_Auth.thy ===== *)
theory Register_Auth
  imports Strkey
begin

text \<open>
  Ownership-scoped authentication of \<^verbatim>\<open>POST /api/proofs/register\<close>, after
  \<^verbatim>\<open>src/backend/register_auth.py\<close>: parsing of the configured credential digests, the token
  check that scans every credential, and the ownership check. SHA-256 is the parameter \<open>H\<close>;
  \<^verbatim>\<open>hmac.compare_digest\<close> is equality of its arguments. Tokens are ASCII text.

  The lemmas show what a successful parse guarantees (one owner per digest) and characterise
  exactly which requests a configuration authorises.
\<close>

subsection \<open>Definitions\<close>

definition MAX_TOKEN_CHARS :: nat where
  "MAX_TOKEN_CHARS = 256"

definition MAX_SCOPED_KEYS :: nat where
  "MAX_SCOPED_KEYS = 256"

definition DIGEST_HEX_LEN :: nat where
  "DIGEST_HEX_LEN = 64"

definition HEX_LOWER :: string where
  "HEX_LOWER = ''0123456789abcdef''"

record ScopedKey =
  sk_owner :: string
  sk_digest :: bytes

record RegistrationPrincipal =
  pr_owner :: "string option"

definition is_scoped :: "RegistrationPrincipal \<Rightarrow> bool" where
  "is_scoped p \<longleftrightarrow> pr_owner p \<noteq> None"

text \<open>The configuration errors, with the position of the entry they name.\<close>

datatype ScopedKeyError =
    TooManyEntries
  | MissingSeparator nat
  | InvalidAddress nat
  | InvalidDigest nat
  | ReusedDigest nat

definition token_digest :: "(bytes \<Rightarrow> bytes) \<Rightarrow> string \<Rightarrow> bytes" where
  "token_digest H token = H (encode_ascii token)"

fun parse_entries ::
  "nat \<Rightarrow> string list \<Rightarrow> bytes set \<Rightarrow> ScopedKey list \<Rightarrow> ScopedKeyError + ScopedKey list" where
  "parse_entries position [] seen_digests parsed = Inr parsed"
| "parse_entries position (entry # entries) seen_digests parsed =
     (let (owner_text, separator, digest_text) = partition_on CHR '':'' entry in
      if \<not> separator then Inl (MissingSeparator position)
      else (case validate_source_address (PStr owner_text) of
          Inl _ \<Rightarrow> Inl (InvalidAddress position)
        | Inr None \<Rightarrow> Inl (InvalidAddress position)
        | Inr (Some owner) \<Rightarrow>
            let digest_text = py_lower (py_strip digest_text) in
            if length digest_text \<noteq> DIGEST_HEX_LEN \<or> list_ex (\<lambda>c. c \<notin> set HEX_LOWER) digest_text
            then Inl (InvalidDigest position)
            else let digest = fromhex digest_text in
              if digest \<in> seen_digests then Inl (ReusedDigest position)
              else parse_entries (position + 1) entries (insert digest seen_digests)
                     (parsed @ [\<lparr>sk_owner = owner, sk_digest = digest\<rparr>])))"

definition scoped_entries :: "string \<Rightarrow> string list" where
  "scoped_entries raw = map py_strip (filter (\<lambda>item. py_strip item \<noteq> []) (split_on CHR '','' raw))"

definition parse_scoped_keys :: "string option \<Rightarrow> ScopedKeyError + ScopedKey list" where
  "parse_scoped_keys raw =
     (case raw of
        None \<Rightarrow> Inr []
      | Some raw \<Rightarrow>
          if py_strip raw = [] then Inr []
          else let entries = scoped_entries raw in
            if MAX_SCOPED_KEYS < length entries then Inl TooManyEntries
            else parse_entries 1 entries {} [])"

text \<open>
  The scan assigns the owner at every match and never exits early: the loop of \<^verbatim>\<open>authenticate\<close>,
  whose state is the pair of \<open>matched_owner\<close> and \<open>scoped_match\<close>.
\<close>

definition scan_keys :: "bytes \<Rightarrow> ScopedKey list \<Rightarrow> string option \<times> bool" where
  "scan_keys presented_digest keys =
     foldl (\<lambda>(matched_owner, scoped_match) entry.
              if presented_digest = sk_digest entry then (Some (sk_owner entry), True)
              else (matched_owner, scoped_match)) (None, False) keys"

definition authenticate ::
  "(bytes \<Rightarrow> bytes) \<Rightarrow> string \<Rightarrow> string option \<Rightarrow> ScopedKey list \<Rightarrow> RegistrationPrincipal option" where
  "authenticate H token legacy_key scoped_keys =
     (if MAX_TOKEN_CHARS < length token then None
      else let presented = encode_ascii token;
               (matched_owner, scoped_match) = scan_keys (H presented) scoped_keys;
               legacy_match = (case legacy_key of None \<Rightarrow> False | Some key \<Rightarrow> presented = encode_ascii key)
           in if scoped_match then Some \<lparr>pr_owner = matched_owner\<rparr>
              else if legacy_match then Some \<lparr>pr_owner = None\<rparr>
              else None)"

definition scope_allows :: "RegistrationPrincipal \<Rightarrow> string option \<Rightarrow> bool" where
  "scope_allows p claimed_owner =
     (case pr_owner p of
        None \<Rightarrow> True
      | Some owner \<Rightarrow> (case claimed_owner of
                        None \<Rightarrow> False
                      | Some claimed \<Rightarrow> encode_ascii owner = encode_ascii claimed))"

subsection \<open>Parsing\<close>

definition key_ok :: "ScopedKey \<Rightarrow> bool" where
  "key_ok k \<longleftrightarrow> is_valid_strkey (PStr (sk_owner k)) 48 \<and> py_upper (sk_owner k) = sk_owner k
     \<and> length (sk_digest k) = 32"

lemma parse_entries_sound:
  assumes "parse_entries n es seen parsed = Inr keys"
    and "list_all key_ok parsed" "distinct (map sk_digest parsed)" "seen = sk_digest ` set parsed"
  shows "list_all key_ok keys \<and> distinct (map sk_digest keys) \<and> length keys = length parsed + length es"
  using assms
proof (induction es arbitrary: n seen parsed)
  case (Cons e es)
  obtain o_text sep d_text where p: "partition_on CHR '':'' e = (o_text, sep, d_text)"
    by (cases "partition_on CHR '':'' e") auto
  let ?d = "py_lower (py_strip d_text)"
  from Cons.prems(1) p obtain owner where
      v: "validate_source_address (PStr o_text) = Inr (Some owner)"
      and l: "length ?d = 64" and fresh: "fromhex ?d \<notin> seen"
      and rest: "parse_entries (n + 1) es (insert (fromhex ?d) seen)
         (parsed @ [\<lparr>sk_owner = owner, sk_digest = fromhex ?d\<rparr>]) = Inr keys"
    by (auto simp: Let_def DIGEST_HEX_LEN_def split: if_splits sum.splits option.splits)
  have "key_ok \<lparr>sk_owner = owner, sk_digest = fromhex ?d\<rparr>"
    using v l by (auto simp: key_ok_def validate_source_address_Some length_fromhex)
  then show ?case using Cons.IH [OF rest] fresh Cons.prems(2-) by auto
qed simp

lemma parse_scoped_keys_ok:
  assumes "parse_scoped_keys raw = Inr keys"
  shows "list_all key_ok keys \<and> distinct (map sk_digest keys) \<and> length keys \<le> MAX_SCOPED_KEYS"
  using assms parse_entries_sound [of 1 _ "{}" "[]" keys]
  by (fastforce simp: parse_scoped_keys_def Let_def split: option.splits if_splits)

subsection \<open>Authentication\<close>

lemma scan_keys_acc:
  "foldl (\<lambda>(matched_owner, scoped_match) entry.
      if d = sk_digest entry then (Some (sk_owner entry), True) else (matched_owner, scoped_match)) (m, b) keys
   = (case filter (\<lambda>k. d = sk_digest k) keys of [] \<Rightarrow> (m, b) | ks \<Rightarrow> (Some (sk_owner (last ks)), True))"
  by (induction keys arbitrary: m b) (auto split: list.splits)

lemma scan_keys_eq:
  "scan_keys d keys =
     (case filter (\<lambda>k. d = sk_digest k) keys of [] \<Rightarrow> (None, False) | ks \<Rightarrow> (Some (sk_owner (last ks)), True))"
  unfolding scan_keys_def by (rule scan_keys_acc)

text \<open>With one owner per digest the scan returns the owner of the matching credential.\<close>

lemma scan_keys_distinct:
  assumes "distinct (map sk_digest keys)" "k \<in> set keys" "sk_digest k = d"
  shows "scan_keys d keys = (Some (sk_owner k), True)"
proof -
  let ?ks = "filter (\<lambda>k. d = sk_digest k) keys"
  have ne: "?ks \<noteq> []" using assms(2,3) by (auto simp: filter_empty_conv)
  then have "last ?ks \<in> set keys" "sk_digest (last ?ks) = d"
    using last_in_set [OF ne] by auto
  then have "last ?ks = k" using assms by (auto simp: distinct_map inj_on_def)
  then show ?thesis using ne by (auto simp: scan_keys_eq split: list.splits)
qed

lemma scan_keys_none:
  assumes "\<forall>k \<in> set keys. sk_digest k \<noteq> d"
  shows "scan_keys d keys = (None, False)"
proof -
  have "filter (\<lambda>k. d = sk_digest k) keys = []" using assms by (auto simp: filter_empty_conv)
  then show ?thesis by (simp only: scan_keys_eq list.case)
qed

definition authorised ::
  "(bytes \<Rightarrow> bytes) \<Rightarrow> string \<Rightarrow> string option \<Rightarrow> ScopedKey list \<Rightarrow> string option \<Rightarrow> bool" where
  "authorised H token legacy keys claimed =
     (case authenticate H token legacy keys of None \<Rightarrow> False | Some p \<Rightarrow> scope_allows p claimed)"

lemma authorised_match:
  assumes "scan_keys (token_digest H token) keys = (Some own, True)"
  shows "authorised H token legacy keys claimed \<longleftrightarrow> length token \<le> 256 \<and> claimed = Some own"
proof (cases "length token \<le> 256")
  case True
  then have "authenticate H token legacy keys = Some \<lparr>pr_owner = Some own\<rparr>"
    using assms by (simp add: authenticate_def token_digest_def MAX_TOKEN_CHARS_def)
  then show ?thesis using True by (cases claimed) (auto simp: authorised_def scope_allows_def)
qed (simp add: authorised_def authenticate_def MAX_TOKEN_CHARS_def)

lemma authorised_no_match:
  assumes "scan_keys (token_digest H token) keys = (None, False)"
  shows "authorised H token legacy keys claimed \<longleftrightarrow> length token \<le> 256 \<and> legacy = Some token"
proof (cases "length token \<le> 256")
  case True
  then have "authenticate H token legacy keys = (if legacy = Some token then Some \<lparr>pr_owner = None\<rparr> else None)"
    using assms by (cases legacy) (simp_all add: authenticate_def token_digest_def MAX_TOKEN_CHARS_def)
  then show ?thesis using True by (simp add: authorised_def scope_allows_def)
qed (simp add: authorised_def authenticate_def MAX_TOKEN_CHARS_def)

subsection \<open>Properties\<close>

text \<open>
  C21: which requests a configuration authorises. With the credentials of a configuration that
  parses, a token of at most 256 characters may register a proof claiming \<open>claimed\<close> exactly when
  it hashes to a configured digest and \<open>claimed\<close> is that credential's owner, or it is the legacy
  key and hashes to no configured digest. A scoped credential never registers an ownerless proof
  or a proof of another owner, and a longer token authorises nothing.
\<close>

theorem registration_authorised_iff:
  assumes "parse_scoped_keys raw = Inr keys"
  shows "authorised H token legacy keys claimed \<longleftrightarrow>
     length token \<le> 256 \<and>
     ((\<exists>k. k \<in> set keys \<and> sk_digest k = token_digest H token \<and> claimed = Some (sk_owner k))
      \<or> (legacy = Some token \<and> token_digest H token \<notin> sk_digest ` set keys))"
proof -
  let ?d = "token_digest H token"
  have dist: "distinct (map sk_digest keys)" using parse_scoped_keys_ok [OF assms] by blast
  show ?thesis
  proof (cases "\<exists>k \<in> set keys. sk_digest k = ?d")
    case True
    then obtain k where k: "k \<in> set keys" "sk_digest k = ?d" by blast
    have uniq: "l = k" if "l \<in> set keys" "sk_digest l = ?d" for l
      using dist k that by (auto simp: distinct_map inj_on_def)
    show ?thesis
      unfolding authorised_match [OF scan_keys_distinct [OF dist k]] using k uniq by (metis image_eqI)
  next
    case False
    then have "scan_keys ?d keys = (None, False)" by (intro scan_keys_none) blast
    note no = authorised_no_match [OF this]
    show ?thesis unfolding no using False by (auto simp: image_iff)
  qed
qed

text \<open>A configuration with one credential, whose token is hashed to 32 bytes 7.\<close>

definition SAMPLE_DIGEST :: string where
  "SAMPLE_DIGEST = ''0707070707070707070707070707070707070707070707070707070707070707''"

definition SAMPLE_CONFIG :: string where
  "SAMPLE_CONFIG = ZERO_ACCOUNT @ '':'' @ SAMPLE_DIGEST"

lemma sample_config_entry:
  "scoped_entries SAMPLE_CONFIG = [SAMPLE_CONFIG]" "py_strip SAMPLE_CONFIG \<noteq> []"
  "partition_on CHR '':'' SAMPLE_CONFIG = (ZERO_ACCOUNT, True, SAMPLE_DIGEST)"
  by (simp_all add: scoped_entries_def SAMPLE_CONFIG_def SAMPLE_DIGEST_def ZERO_ACCOUNT_def py_strip_def
      py_lstrip_def is_space_def char_code_def partition_on_def)

lemma sample_digest:
  "py_strip SAMPLE_DIGEST = SAMPLE_DIGEST" "py_lower SAMPLE_DIGEST = SAMPLE_DIGEST" "fromhex SAMPLE_DIGEST = replicate 32 7"
  "length SAMPLE_DIGEST = 64" "\<not> list_ex (\<lambda>c. c \<notin> set HEX_LOWER) SAMPLE_DIGEST"
  by (simp_all add: SAMPLE_DIGEST_def HEX_LOWER_def py_strip_def py_lstrip_def is_space_def char_code_def
      py_lower_def lower_char_def hex_val_def digit_in_def digit_val_def replicate_numeral_Cons)

lemma zero_account_validated: "validate_source_address (PStr ZERO_ACCOUNT) = Inr (Some ZERO_ACCOUNT)"
proof -
  have "py_strip ZERO_ACCOUNT = ZERO_ACCOUNT"
    by (simp add: ZERO_ACCOUNT_def py_strip_def py_lstrip_def is_space_def char_code_def)
  then show ?thesis
    by (simp add: validate_source_address_Some zero_account_valid zero_account_upper)
qed

lemma sample_config_parses:
  "parse_scoped_keys (Some SAMPLE_CONFIG) =
     Inr [\<lparr>sk_owner = ZERO_ACCOUNT, sk_digest = replicate 32 7\<rparr>]"
  by (simp add: parse_scoped_keys_def sample_config_entry sample_digest zero_account_validated
      MAX_SCOPED_KEYS_def DIGEST_HEX_LEN_def)

theorem registration_authorised_iff_witness:
  "authorised (\<lambda>_. replicate 32 7) ''token'' None
     [\<lparr>sk_owner = ZERO_ACCOUNT, sk_digest = replicate 32 7\<rparr>] (Some ZERO_ACCOUNT)"
  using registration_authorised_iff [OF sample_config_parses, of "\<lambda>_. replicate 32 7" "''token''" None
      "Some ZERO_ACCOUNT"]
  by (simp add: token_digest_def)

end
