(* ===== verification/Admission.thy ===== *)
theory Admission
  imports Prelude
begin

text \<open>
  Admission control, after \<^verbatim>\<open>src/backend/admission.py\<close>. The controller's two locked sections, the
  semaphore operations and the release are one definition each; request threads are a list of
  phases, and \<open>admission_step\<close> interleaves the atomic sections of all threads in any order, with a
  wait that may time out at any moment. A decrement of a missing dictionary key (a \<^verbatim>\<open>KeyError\<close> in
  the source) is the value \<open>None\<close>.

  The invariant accounts for every slot, every queue place and every per-identity count by the
  phases of the threads; the properties are the capacity bounds, the absence of key errors, and
  that an idle controller is back in its initial state.
\<close>

subsection \<open>The controller\<close>

record AdmissionController =
  max_concurrent :: nat
  max_queue :: int
  max_per_identity :: int
  timeout_seconds :: rat
  current_queue :: int
  identity_counts :: "string \<rightharpoonup> int"
  permits :: nat

definition new_controller :: "nat \<Rightarrow> int \<Rightarrow> int \<Rightarrow> rat \<Rightarrow> AdmissionController" where
  "new_controller mc mq mi to =
     \<lparr>max_concurrent = mc, max_queue = mq, max_per_identity = mi, timeout_seconds = to,
      current_queue = 0, identity_counts = Map.empty, permits = mc\<rparr>"

definition identity_count :: "AdmissionController \<Rightarrow> string \<Rightarrow> int" where
  "identity_count ac identity = (case identity_counts ac identity of Some n \<Rightarrow> n | None \<Rightarrow> 0)"

definition add_identity :: "string \<Rightarrow> AdmissionController \<Rightarrow> AdmissionController" where
  "add_identity identity ac =
     ac\<lparr>identity_counts := (identity_counts ac)(identity \<mapsto> identity_count ac identity + 1)\<rparr>"

definition drop_identity :: "string \<Rightarrow> AdmissionController \<Rightarrow> AdmissionController option" where
  "drop_identity identity ac =
     (case identity_counts ac identity of
        None \<Rightarrow> None
      | Some n \<Rightarrow>
          Some (if n - 1 = 0 then ac\<lparr>identity_counts := (identity_counts ac)(identity := None)\<rparr>
                else ac\<lparr>identity_counts := (identity_counts ac)(identity \<mapsto> n - 1)\<rparr>))"

datatype AcquireStart = Decided bool string | MustWait

text \<open>The first locked section of \<^verbatim>\<open>acquire\<close>.\<close>

definition acquire_start :: "string \<Rightarrow> AdmissionController \<Rightarrow> AdmissionController \<times> AcquireStart" where
  "acquire_start identity ac =
     (if max_per_identity ac \<le> identity_count ac identity then (ac, Decided False ''identity_limit'')
      else if 0 < permits ac
      then (add_identity identity (ac\<lparr>permits := permits ac - 1\<rparr>), Decided True ''ok'')
      else if max_queue ac \<le> current_queue ac then (ac, Decided False ''queue_full'')
      else (add_identity identity (ac\<lparr>current_queue := current_queue ac + 1\<rparr>), MustWait))"

text \<open>The wait on the semaphore, when it succeeds.\<close>

definition semaphore_acquire :: "AdmissionController \<Rightarrow> AdmissionController option" where
  "semaphore_acquire ac = (if 0 < permits ac then Some (ac\<lparr>permits := permits ac - 1\<rparr>) else None)"

text \<open>The second locked section of \<^verbatim>\<open>acquire\<close>.\<close>

definition acquire_finish ::
  "bool \<Rightarrow> string \<Rightarrow> AdmissionController \<Rightarrow> (AdmissionController \<times> bool \<times> string) option" where
  "acquire_finish acquired identity ac =
     (let ac = ac\<lparr>current_queue := current_queue ac - 1\<rparr> in
      if \<not> acquired then map_option (\<lambda>ac. (ac, False, ''timeout'')) (drop_identity identity ac)
      else Some (ac, True, ''ok''))"

text \<open>\<^verbatim>\<open>release\<close>: the locked section, then the semaphore.\<close>

definition release_identity :: "string \<Rightarrow> AdmissionController \<Rightarrow> AdmissionController option" where
  "release_identity identity ac = drop_identity identity ac"

definition semaphore_release :: "AdmissionController \<Rightarrow> AdmissionController" where
  "semaphore_release ac = ac\<lparr>permits := permits ac + 1\<rparr>"

subsection \<open>The decorator\<close>

definition get_client_identity :: "string option \<Rightarrow> string option \<Rightarrow> string" where
  "get_client_identity forwarded remote_addr =
     (case forwarded of
        Some (c # cs) \<Rightarrow> py_strip (hd (split_on CHR '','' (c # cs)))
      | _ \<Rightarrow> (case remote_addr of Some (c # cs) \<Rightarrow> c # cs | _ \<Rightarrow> ''unknown''))"

text \<open>Status code and \<^verbatim>\<open>Retry-After\<close> of a rejection: \<open>int(timeout_seconds * 2) or 5\<close>, truncating.\<close>

definition rejection_status :: "string \<Rightarrow> nat" where
  "rejection_status reason = (if reason = ''identity_limit'' then 429 else 503)"

definition retry_after :: "AdmissionController \<Rightarrow> int" where
  "retry_after ac =
     (let t = timeout_seconds ac * 2; n = (if 0 \<le> t then \<lfloor>t\<rfloor> else \<lceil>t\<rceil>) in if n = 0 then 5 else n)"

subsection \<open>Interleaved requests\<close>

text \<open>
  Where a request thread is: outside the controller, waiting for the semaphore, past a successful
  or timed-out wait but before the second locked section, running the handler, or between the two
  parts of the release.
\<close>

datatype phase =
    Outside
  | Waiting string
  | Signalled string
  | TimedOut string
  | Serving string
  | Releasing

type_synonym admission_state = "AdmissionController \<times> phase list"

inductive admission_step :: "admission_state \<Rightarrow> nat \<Rightarrow> admission_state \<Rightarrow> bool" where
  admit: "i < length ts \<Longrightarrow> ts ! i = Outside \<Longrightarrow> acquire_start ident ac = (ac', Decided True r)
    \<Longrightarrow> admission_step (ac, ts) i (ac', ts[i := Serving ident])"
| refuse: "i < length ts \<Longrightarrow> ts ! i = Outside \<Longrightarrow> acquire_start ident ac = (ac', Decided False r)
    \<Longrightarrow> admission_step (ac, ts) i (ac', ts)"
| enqueue: "i < length ts \<Longrightarrow> ts ! i = Outside \<Longrightarrow> acquire_start ident ac = (ac', MustWait)
    \<Longrightarrow> admission_step (ac, ts) i (ac', ts[i := Waiting ident])"
| wake: "i < length ts \<Longrightarrow> ts ! i = Waiting ident \<Longrightarrow> semaphore_acquire ac = Some ac'
    \<Longrightarrow> admission_step (ac, ts) i (ac', ts[i := Signalled ident])"
| expire: "i < length ts \<Longrightarrow> ts ! i = Waiting ident
    \<Longrightarrow> admission_step (ac, ts) i (ac, ts[i := TimedOut ident])"
| finish_ok: "i < length ts \<Longrightarrow> ts ! i = Signalled ident \<Longrightarrow> acquire_finish True ident ac = Some (ac', True, r)
    \<Longrightarrow> admission_step (ac, ts) i (ac', ts[i := Serving ident])"
| finish_timeout: "i < length ts \<Longrightarrow> ts ! i = TimedOut ident \<Longrightarrow> acquire_finish False ident ac = Some (ac', False, r)
    \<Longrightarrow> admission_step (ac, ts) i (ac', ts[i := Outside])"
| release_locked: "i < length ts \<Longrightarrow> ts ! i = Serving ident \<Longrightarrow> release_identity ident ac = Some ac'
    \<Longrightarrow> admission_step (ac, ts) i (ac', ts[i := Releasing])"
| release_slot: "i < length ts \<Longrightarrow> ts ! i = Releasing
    \<Longrightarrow> admission_step (ac, ts) i (semaphore_release ac, ts[i := Outside])"

inductive_cases admission_stepE: "admission_step (ac, ts) i s'"

definition admission_init :: "nat \<Rightarrow> int \<Rightarrow> int \<Rightarrow> rat \<Rightarrow> admission_state \<Rightarrow> bool" where
  "admission_init mc mq mi to s \<longleftrightarrow>
     fst s = new_controller mc mq mi to \<and> list_all (\<lambda>p. p = Outside) (snd s)"

subsection \<open>The invariant\<close>

fun holds_slot :: "phase \<Rightarrow> bool" where
  "holds_slot (Signalled _) = True"
| "holds_slot (Serving _) = True"
| "holds_slot Releasing = True"
| "holds_slot _ = False"

fun in_queue :: "phase \<Rightarrow> bool" where
  "in_queue (Waiting _) = True"
| "in_queue (Signalled _) = True"
| "in_queue (TimedOut _) = True"
| "in_queue _ = False"

fun counted_as :: "string \<Rightarrow> phase \<Rightarrow> bool" where
  "counted_as ident (Waiting j) = (j = ident)"
| "counted_as ident (Signalled j) = (j = ident)"
| "counted_as ident (TimedOut j) = (j = ident)"
| "counted_as ident (Serving j) = (j = ident)"
| "counted_as ident _ = False"

definition admission_inv :: "nat \<Rightarrow> int \<Rightarrow> int \<Rightarrow> rat \<Rightarrow> admission_state \<Rightarrow> bool" where
  "admission_inv mc mq mi to s \<longleftrightarrow>
     max_concurrent (fst s) = mc \<and> max_queue (fst s) = mq \<and> max_per_identity (fst s) = mi \<and> timeout_seconds (fst s) = to \<and>
     int (permits (fst s)) + how_many holds_slot (snd s) = int mc \<and>
     current_queue (fst s) = how_many in_queue (snd s) \<and>
     current_queue (fst s) \<le> max 0 mq \<and>
     (\<forall>ident. identity_counts (fst s) ident =
        (let n = how_many (counted_as ident) (snd s) in if n = 0 then None else Some n)) \<and>
     (\<forall>ident. how_many (counted_as ident) (snd s) \<le> max 0 mi)"

lemma identity_count_inv:
  "admission_inv mc mq mi to (ac, ts) \<Longrightarrow> identity_count ac ident = how_many (counted_as ident) ts"
  by (simp add: admission_inv_def identity_count_def Let_def)

text \<open>What the two dictionary operations do to the counts.\<close>

lemma add_identity_sel [simp]:
  "max_concurrent (add_identity j ac) = max_concurrent ac" "max_queue (add_identity j ac) = max_queue ac"
  "max_per_identity (add_identity j ac) = max_per_identity ac"
  "timeout_seconds (add_identity j ac) = timeout_seconds ac" "permits (add_identity j ac) = permits ac"
  "current_queue (add_identity j ac) = current_queue ac"
  "identity_counts (add_identity j ac) = (identity_counts ac)(j \<mapsto> identity_count ac j + 1)"
  by (simp_all add: add_identity_def)

lemma identity_count_update [simp]:
  "identity_count (ac\<lparr>permits := p\<rparr>) j = identity_count ac j"
  "identity_count (ac\<lparr>current_queue := q\<rparr>) j = identity_count ac j"
  by (simp_all add: identity_count_def)

lemma drop_identity_Some:
  "drop_identity j ac = Some ac' \<longleftrightarrow>
     (\<exists>n. identity_counts ac j = Some n \<and>
        ac' = ac\<lparr>identity_counts := (identity_counts ac)(j := if n = 1 then None else Some (n - 1))\<rparr>)"
  by (auto simp: drop_identity_def split: option.splits)

lemma acquire_start_admit:
  "acquire_start j ac = (ac', Decided True r) \<longleftrightarrow>
     identity_count ac j < max_per_identity ac \<and> 0 < permits ac \<and> r = ''ok'' \<and>
     ac' = add_identity j (ac\<lparr>permits := permits ac - 1\<rparr>)"
  by (auto simp: acquire_start_def)

lemma acquire_start_wait:
  "acquire_start j ac = (ac', MustWait) \<longleftrightarrow>
     identity_count ac j < max_per_identity ac \<and> permits ac = 0 \<and> current_queue ac < max_queue ac \<and>
     ac' = add_identity j (ac\<lparr>current_queue := current_queue ac + 1\<rparr>)"
  by (auto simp: acquire_start_def)

lemma acquire_start_refuse:
  "acquire_start j ac = (ac', Decided False r) \<Longrightarrow> ac' = ac"
  by (auto simp: acquire_start_def split: if_splits)

lemmas admission_ops = acquire_start_admit acquire_start_wait semaphore_acquire_def acquire_finish_def
  release_identity_def semaphore_release_def drop_identity_Some

lemma admission_inv_step:
  assumes inv: "admission_inv mc mq mi to s" and step: "admission_step s i s'"
  shows "admission_inv mc mq mi to s'"
  using step inv
proof cases
  case (admit ts ident ac ac' r)
  then show ?thesis using identity_count_inv [OF inv [unfolded admit(1)], of ident] inv
    by (auto simp: admission_ops admission_inv_def how_many_update Let_def of_nat_diff)
next
  case (refuse ts ident ac ac' r)
  then show ?thesis using inv acquire_start_refuse by metis
next
  case (enqueue ts ident ac ac')
  then show ?thesis using identity_count_inv [OF inv [unfolded enqueue(1)], of ident] inv
    by (auto simp: admission_ops admission_inv_def how_many_update Let_def)
next
  case (wake ts ident ac ac')
  then show ?thesis using inv
    by (auto simp: admission_ops admission_inv_def how_many_update Let_def of_nat_diff split: if_splits)
next
  case (expire ts ident ac)
  then show ?thesis using inv
    by (auto simp: admission_inv_def how_many_update Let_def)
next
  case (finish_ok ts ident ac ac' r)
  then show ?thesis using inv
    by (auto simp: admission_ops admission_inv_def how_many_update Let_def)
next
  case (finish_timeout ts ident ac ac' r)
  moreover have "0 < how_many (counted_as ident) ts" using finish_timeout by (intro how_many_pos) auto
  moreover have "how_many (counted_as ident) ts \<le> max 0 mi" using inv finish_timeout by (simp add: admission_inv_def)
  ultimately show ?thesis using inv
    by (auto simp: admission_ops admission_inv_def how_many_update Let_def split: if_splits)
next
  case (release_locked ts ident ac ac')
  moreover have "0 < how_many (counted_as ident) ts" using release_locked by (intro how_many_pos) auto
  moreover have "how_many (counted_as ident) ts \<le> max 0 mi" using inv release_locked by (simp add: admission_inv_def)
  ultimately show ?thesis using inv
    by (auto simp: admission_ops admission_inv_def how_many_update Let_def split: if_splits)
next
  case (release_slot ts ac)
  then show ?thesis using inv
    by (auto simp: admission_ops admission_inv_def how_many_update Let_def)
qed

interpretation admission: invariant_system "admission_init mc mq mi to" admission_step "admission_inv mc mq mi to"
  for mc mq mi to
proof
  fix s assume "admission_init mc mq mi to s"
  moreover have "how_many P (snd s) = 0" if "\<not> P Outside" for P
    using calculation that by (intro how_many_none) (auto simp: admission_init_def list_all_iff)
  ultimately show "admission_inv mc mq mi to s"
    by (simp add: admission_init_def admission_inv_def new_controller_def)
qed (rule admission_inv_step)

subsection \<open>Properties\<close>

abbreviation admission_reachable :: "nat \<Rightarrow> int \<Rightarrow> int \<Rightarrow> rat \<Rightarrow> admission_state \<Rightarrow> bool" where
  "admission_reachable mc mq mi to \<equiv> reachable (admission_init mc mq mi to) admission_step"

fun is_serving :: "phase \<Rightarrow> bool" where
  "is_serving (Serving _) = True"
| "is_serving _ = False"

fun is_waiting :: "phase \<Rightarrow> bool" where
  "is_waiting (Waiting _) = True"
| "is_waiting _ = False"

text \<open>
  C3: under every interleaving of the requests, at most \<open>max_concurrent\<close> handlers run, at most
  \<open>max_queue\<close> requests wait, and one identity never has more than \<open>max_per_identity\<close> requests
  running or waiting. (The limits are read as 0 when configured negative.)
\<close>

theorem admission_bounds:
  assumes "admission_reachable mc mq mi to (ac, ts)"
  shows "how_many is_serving ts \<le> int mc \<and> how_many is_waiting ts \<le> max 0 mq \<and>
     how_many (counted_as ident) ts \<le> max 0 mi"
proof (intro conjI)
  have inv: "admission_inv mc mq mi to (ac, ts)" using assms by (rule admission.inv_reachable)
  have "how_many is_serving ts \<le> how_many holds_slot ts"
    by (rule how_many_mono) (auto elim: is_serving.elims)
  then show "how_many is_serving ts \<le> int mc" using inv by (simp add: admission_inv_def)
  have "how_many is_waiting ts \<le> how_many in_queue ts"
    by (rule how_many_mono) (auto elim: is_waiting.elims)
  then show "how_many is_waiting ts \<le> max 0 mq" using inv by (simp add: admission_inv_def)
  show "how_many (counted_as ident) ts \<le> max 0 mi" using inv by (simp add: admission_inv_def)
qed

text \<open>A run of two requests of one identity against one slot, the second one waiting.\<close>

definition sample_ac :: AdmissionController where
  "sample_ac = new_controller 1 1 2 3"

lemma sample_run:
  "\<exists>ac. admission_reachable 1 1 2 3 (ac, [Serving ''a'', Waiting ''a'']) \<and> permits ac = 0"
proof -
  obtain ac1 where a1: "acquire_start ''a'' sample_ac = (ac1, Decided True ''ok'')" and
      p1: "identity_count ac1 ''a'' = 1" "max_per_identity ac1 = 2" "permits ac1 = 0"
        "current_queue ac1 = 0" "max_queue ac1 = 1"
    by (simp add: acquire_start_admit sample_ac_def new_controller_def identity_count_def)
  have r0: "admission_reachable 1 1 2 3 (sample_ac, [Outside, Outside])"
    by (rule reach_init) (simp add: admission_init_def sample_ac_def)
  have r1: "admission_reachable 1 1 2 3 (ac1, [Serving ''a'', Outside])"
    using reach_step [OF r0 admission_step.admit [of 0 _ "''a''", OF _ _ a1]] by simp
  obtain ac2 where a2: "acquire_start ''a'' ac1 = (ac2, MustWait)" and p2: "permits ac2 = 0"
    using p1 by (simp add: acquire_start_wait)
  show ?thesis
    using reach_step [OF r1 admission_step.enqueue [of 1 _ "''a''", OF _ _ a2]] p2 by auto
qed

theorem admission_bounds_witness:
  "\<exists>ac. admission_reachable 1 1 2 3 (ac, [Serving ''a'', Waiting ''a'']) \<and>
     how_many is_serving [Serving ''a'', Waiting ''a''] \<le> 1"
  using sample_run admission_bounds [of 1 1 2 3 _ "[Serving ''a'', Waiting ''a'']"] by auto

text \<open>
  no request is ever stuck on a missing dictionary entry, whatever the interleaving: a running
  request can always release, a timed-out one can always leave the queue. And nothing leaks: when
  every request is outside, the controller is exactly the freshly constructed one.
\<close>

theorem admission_no_leak:
  assumes "admission_reachable mc mq mi to (ac, ts)"
  shows "(Serving ident \<in> set ts \<longrightarrow> release_identity ident ac \<noteq> None) \<and>
     (TimedOut ident \<in> set ts \<longrightarrow> acquire_finish False ident ac \<noteq> None) \<and>
     (list_all (\<lambda>p. p = Outside) ts \<longrightarrow> ac = new_controller mc mq mi to)"
proof (intro conjI impI)
  have inv: "admission_inv mc mq mi to (ac, ts)" using assms by (rule admission.inv_reachable)
  have key: "identity_counts ac ident \<noteq> None" if "p \<in> set ts" "counted_as ident p" for p
  proof -
    have "0 < how_many (counted_as ident) ts"
      using that how_many_pos [of _ ts "counted_as ident"] by (auto simp: in_set_conv_nth)
    then show ?thesis using inv by (simp add: admission_inv_def Let_def)
  qed
  show "release_identity ident ac \<noteq> None" if "Serving ident \<in> set ts"
    using key [OF that] by (auto simp: release_identity_def drop_identity_def)
  show "acquire_finish False ident ac \<noteq> None" if "TimedOut ident \<in> set ts"
    using key [OF that] by (auto simp: acquire_finish_def drop_identity_def Let_def)
  show "ac = new_controller mc mq mi to" if "list_all (\<lambda>p. p = Outside) ts"
  proof -
    have "how_many P ts = 0" if "\<not> P Outside" for P
      using \<open>list_all (\<lambda>p. p = Outside) ts\<close> that by (intro how_many_none) (auto simp: list_all_iff)
    then show ?thesis
      using inv by (simp add: admission_inv_def new_controller_def fun_eq_iff Let_def)
  qed
qed

theorem admission_no_leak_witness:
  "\<exists>ac. admission_reachable 1 1 2 3 (ac, [Serving ''a'', Waiting ''a'']) \<and> release_identity ''a'' ac \<noteq> None"
  using sample_run admission_no_leak [of 1 1 2 3 _ "[Serving ''a'', Waiting ''a'']" "''a''"] by auto

end
