(* ===== verification/Verifier_Cache.thy ===== *)
theory Verifier_Cache
  imports Prelude
begin

text \<open>
  The bounded cache of verifier results, after \<^verbatim>\<open>src/backend/verifier_cache.py\<close>. The dictionary of
  entries is an association list in insertion order, so that re-insertion refreshes an entry and
  the first entry is the eviction victim. SHA-256 is the parameter \<open>H\<close>, the monotonic clock reading
  an argument, the metric counters fields of the state. Evicting from an empty dictionary
  (\<^verbatim>\<open>max_size\<close> below 1) raises in the source and is \<open>None\<close> here.

  The lemmas show that a run of operations simulates a map of the last writes: a hit is always the
  unexpired result last stored under the same fields; that the size stays within the bound; and
  that keys are equal only for equal fields when \<open>H\<close> does not collide on the two payloads.
\<close>

subsection \<open>Keys\<close>

definition CACHE_KEY_DOMAIN_TAG :: string where
  "CACHE_KEY_DOMAIN_TAG = ''harpocrates:verifier-cache:v1''"

definition encode_cache_key_field :: "string \<Rightarrow> string" where
  "encode_cache_key_field v = frame v"

definition normalize_hex_field :: "string \<Rightarrow> string" where
  "normalize_hex_field v = py_lower (py_strip v)"

text \<open>The six arguments every operation takes.\<close>

record CacheFields =
  cf_domain :: string
  cf_network :: string
  cf_circuit_version :: string
  cf_verifier_version :: string
  cf_proof_hex :: string
  cf_public_inputs_hex :: string

definition cache_key_fields :: "CacheFields \<Rightarrow> string list" where
  "cache_key_fields q =
     [CACHE_KEY_DOMAIN_TAG, cf_domain q, cf_network q, cf_circuit_version q, cf_verifier_version q,
      normalize_hex_field (cf_proof_hex q), normalize_hex_field (cf_public_inputs_hex q)]"

definition cache_payload :: "CacheFields \<Rightarrow> bytes" where
  "cache_payload q = encode_ascii (concat (map encode_cache_key_field (cache_key_fields q)))"

definition get_cache_key :: "(bytes \<Rightarrow> bytes) \<Rightarrow> CacheFields \<Rightarrow> string" where
  "get_cache_key H q = tohex (H (cache_payload q))"

subsection \<open>The cache\<close>

record VerifierCache =
  vc_max_size :: int
  vc_positive_ttl :: rat
  vc_negative_ttl :: rat
  vc_cache :: "(string \<times> (bool \<times> rat)) list"
  vc_proof_keys :: "string \<rightharpoonup> string set"
  vc_hits :: nat
  vc_misses :: nat
  vc_evictions :: nat

definition new_cache :: "int \<Rightarrow> rat \<Rightarrow> rat \<Rightarrow> VerifierCache" where
  "new_cache ms pos neg =
     \<lparr>vc_max_size = ms, vc_positive_ttl = pos, vc_negative_ttl = neg, vc_cache = [],
      vc_proof_keys = Map.empty, vc_hits = 0, vc_misses = 0, vc_evictions = 0\<rparr>"

text \<open>\<open>if proof_id:\<close> holds of non-empty text only.\<close>

definition named :: "string option \<Rightarrow> string option" where
  "named proof_id = (case proof_id of Some (c # cs) \<Rightarrow> Some (c # cs) | _ \<Rightarrow> None)"

definition discard_key ::
  "string option \<Rightarrow> string \<Rightarrow> (string \<rightharpoonup> string set) \<Rightarrow> (string \<rightharpoonup> string set)" where
  "discard_key proof_id key pk =
     (case named proof_id of
        None \<Rightarrow> pk
      | Some p \<Rightarrow> (case pk p of None \<Rightarrow> pk | Some ks \<Rightarrow> pk(p \<mapsto> ks - {key})))"

definition cache_get ::
  "(bytes \<Rightarrow> bytes) \<Rightarrow> CacheFields \<Rightarrow> string option \<Rightarrow> rat \<Rightarrow> VerifierCache \<Rightarrow> bool option \<times> VerifierCache" where
  "cache_get H q proof_id now c =
     (let key = get_cache_key H q in
      case map_of (vc_cache c) key of
        Some (result, expires_at) \<Rightarrow>
          if now < expires_at then
            (Some result,
             c\<lparr>vc_hits := vc_hits c + 1,
               vc_cache := AList.update key (result, expires_at) (AList.delete key (vc_cache c)),
               vc_proof_keys := discard_key proof_id key (vc_proof_keys c)\<rparr>)
          else (None, c\<lparr>vc_cache := AList.delete key (vc_cache c), vc_misses := vc_misses c + 1\<rparr>)
      | None \<Rightarrow> (None, c\<lparr>vc_misses := vc_misses c + 1\<rparr>))"

definition entry_ttl :: "VerifierCache \<Rightarrow> bool \<Rightarrow> rat" where
  "entry_ttl c is_valid = (if is_valid then vc_positive_ttl c else vc_negative_ttl c)"

text \<open>The three cases before the insertion in \<^verbatim>\<open>set\<close>: replace, evict the oldest, room left.\<close>

definition make_room :: "string \<Rightarrow> string option \<Rightarrow> VerifierCache \<Rightarrow> VerifierCache option" where
  "make_room key proof_id c =
     (if key \<in> fst ` set (vc_cache c) then
        Some (c\<lparr>vc_cache := AList.delete key (vc_cache c),
                vc_proof_keys := discard_key proof_id key (vc_proof_keys c)\<rparr>)
      else if vc_max_size c \<le> int (length (vc_cache c)) then
        (case vc_cache c of
           [] \<Rightarrow> None
         | (oldest, _) # _ \<Rightarrow>
             Some (c\<lparr>vc_cache := AList.delete oldest (vc_cache c), vc_evictions := vc_evictions c + 1\<rparr>))
      else Some c)"

definition cache_set ::
  "(bytes \<Rightarrow> bytes) \<Rightarrow> CacheFields \<Rightarrow> bool \<Rightarrow> string option \<Rightarrow> rat \<Rightarrow> VerifierCache \<Rightarrow> VerifierCache option" where
  "cache_set H q is_valid proof_id now c =
     (let key = get_cache_key H q; expires_at = now + entry_ttl c is_valid in
      map_option (\<lambda>c.
        c\<lparr>vc_cache := AList.update key (is_valid, expires_at) (vc_cache c),
          vc_proof_keys :=
            (case named proof_id of
               None \<Rightarrow> vc_proof_keys c
             | Some p \<Rightarrow> (vc_proof_keys c)(p \<mapsto>
                 insert key (case vc_proof_keys c p of None \<Rightarrow> {} | Some ks \<Rightarrow> ks)))\<rparr>)
        (make_room key proof_id c))"

definition cache_invalidate ::
  "(bytes \<Rightarrow> bytes) \<Rightarrow> CacheFields \<Rightarrow> string option \<Rightarrow> VerifierCache \<Rightarrow> VerifierCache" where
  "cache_invalidate H q proof_id c =
     (let key = get_cache_key H q in
      c\<lparr>vc_cache := AList.delete key (vc_cache c),
        vc_proof_keys :=
          (case named proof_id of
             None \<Rightarrow> vc_proof_keys c
           | Some p \<Rightarrow>
               (case vc_proof_keys c p of
                  None \<Rightarrow> vc_proof_keys c
                | Some ks \<Rightarrow>
                    if ks = {} then vc_proof_keys c
                    else if ks - {key} = {} then (vc_proof_keys c)(p := None)
                    else (vc_proof_keys c)(p \<mapsto> ks - {key})))\<rparr>)"

definition cache_invalidate_proof :: "string \<Rightarrow> VerifierCache \<Rightarrow> VerifierCache" where
  "cache_invalidate_proof proof_id c =
     (let ks = (case vc_proof_keys c proof_id of None \<Rightarrow> {} | Some ks \<Rightarrow> ks) in
      c\<lparr>vc_cache := filter (\<lambda>(k, _). k \<notin> ks) (vc_cache c),
        vc_proof_keys := (vc_proof_keys c)(proof_id := None)\<rparr>)"

definition cache_clear :: "VerifierCache \<Rightarrow> VerifierCache" where
  "cache_clear c = c\<lparr>vc_cache := [], vc_proof_keys := Map.empty\<rparr>"

text \<open>The operations as data, so that a history of calls is a list.\<close>

datatype CacheOp =
    Get CacheFields "string option" rat
  | Put CacheFields bool "string option" rat
  | Invalidate CacheFields "string option"
  | InvalidateProof string
  | Clear

fun cache_step :: "(bytes \<Rightarrow> bytes) \<Rightarrow> CacheOp \<Rightarrow> VerifierCache \<Rightarrow> VerifierCache option" where
  "cache_step H (Get q p now) c = Some (snd (cache_get H q p now c))"
| "cache_step H (Put q b p now) c = cache_set H q b p now c"
| "cache_step H (Invalidate q p) c = Some (cache_invalidate H q p c)"
| "cache_step H (InvalidateProof p) c = Some (cache_invalidate_proof p c)"
| "cache_step H Clear c = Some (cache_clear c)"

subsection \<open>The abstract cache\<close>

text \<open>
  What a caller may rely on: for each key the last result stored, with its expiry, forgotten when
  the key is invalidated or the cache cleared. Lookups, evictions and per-proof invalidation do
  not write to it.
\<close>

fun spec_step ::
  "(bytes \<Rightarrow> bytes) \<Rightarrow> rat \<Rightarrow> rat \<Rightarrow> CacheOp \<Rightarrow> (string \<rightharpoonup> bool \<times> rat) \<Rightarrow> (string \<rightharpoonup> bool \<times> rat)" where
  "spec_step H pos neg (Put q b p now) m = m(get_cache_key H q \<mapsto> (b, now + (if b then pos else neg)))"
| "spec_step H pos neg (Invalidate q p) m = m(get_cache_key H q := None)"
| "spec_step H pos neg Clear m = Map.empty"
| "spec_step H pos neg _ m = m"

definition cache_rel :: "int \<Rightarrow> rat \<Rightarrow> rat \<Rightarrow> VerifierCache \<Rightarrow> (string \<rightharpoonup> bool \<times> rat) \<Rightarrow> bool" where
  "cache_rel ms pos neg c m \<longleftrightarrow>
     vc_max_size c = ms \<and> vc_positive_ttl c = pos \<and> vc_negative_ttl c = neg \<and>
     distinct (map fst (vc_cache c)) \<and> int (length (vc_cache c)) \<le> max 1 ms \<and>
     (\<forall>k e. map_of (vc_cache c) k = Some e \<longrightarrow> m k = Some e)"

subsection \<open>Simulation\<close>

lemma map_of_filter_keys: "map_of (filter (\<lambda>(k, _). P k) d) k = (if P k then map_of d k else None)"
  by (induction d) auto

lemma make_room_cases:
  assumes "make_room key p c = Some c'"
  obtains (replace) "key \<in> fst ` set (vc_cache c)" "vc_cache c' = AList.delete key (vc_cache c)"
  | (evict) old where "key \<notin> fst ` set (vc_cache c)" "old \<in> fst ` set (vc_cache c)"
      "vc_cache c' = AList.delete old (vc_cache c)"
  | (room) "key \<notin> fst ` set (vc_cache c)" "int (length (vc_cache c)) < vc_max_size c"
      "vc_cache c' = vc_cache c"
proof (cases "key \<in> fst ` set (vc_cache c)")
  case True
  then show thesis using assms by (intro replace) (auto simp: make_room_def)
next
  case new: False
  show thesis
  proof (cases "vc_max_size c \<le> int (length (vc_cache c))")
    case True
    with new assms obtain old e rest where r: "vc_cache c = (old, e) # rest"
      by (auto simp: make_room_def split: list.splits)
    then show thesis using new True assms by (intro evict [of old]) (auto simp: make_room_def)
  next
    case False
    then show thesis using new assms by (intro room) (auto simp: make_room_def)
  qed
qed

lemma make_room_config:
  "make_room key p c = Some c' \<Longrightarrow> vc_max_size c' = vc_max_size c \<and>
     vc_positive_ttl c' = vc_positive_ttl c \<and> vc_negative_ttl c' = vc_negative_ttl c"
  by (auto simp: make_room_def split: if_splits list.splits)

lemma make_room_rel:
  assumes "cache_rel ms pos neg c m" "make_room key p c = Some c'"
  shows "distinct (map fst (vc_cache c')) \<and> key \<notin> fst ` set (vc_cache c') \<and>
     int (length (vc_cache c')) + 1 \<le> max 1 ms \<and>
     (\<forall>k e. map_of (vc_cache c') k = Some e \<longrightarrow> m k = Some e)"
  using assms(2)
proof (cases rule: make_room_cases)
  case replace
  then show ?thesis using assms(1) length_delete_less [OF replace(1)] delete_notin_dom [of key "vc_cache c"]
    by (simp add: cache_rel_def distinct_delete)
next
  case (evict old)
  then show ?thesis
    using assms(1) length_delete_less [OF evict(2)] dom_delete_subset [of old "vc_cache c"]
    by (auto simp add: cache_rel_def distinct_delete)
next
  case room
  then show ?thesis using assms(1) by (simp add: cache_rel_def)
qed

lemma cache_set_rel:
  assumes rel: "cache_rel ms pos neg c m" and set: "cache_set H q b p now c = Some c'"
  shows "cache_rel ms pos neg c' (m(get_cache_key H q \<mapsto> (b, now + (if b then pos else neg))))"
proof -
  let ?key = "get_cache_key H q"
  obtain d where d: "make_room ?key p c = Some d"
      and c': "vc_cache c' = AList.update ?key (b, now + entry_ttl c b) (vc_cache d)"
        "vc_max_size c' = vc_max_size d" "vc_positive_ttl c' = vc_positive_ttl d"
        "vc_negative_ttl c' = vc_negative_ttl d"
    using set by (auto simp: cache_set_def Let_def)
  have ttl: "entry_ttl c b = (if b then pos else neg)" using rel by (simp add: entry_ttl_def cache_rel_def)
  note room = make_room_rel [OF rel d]
  have "map_of (vc_cache c') = (map_of (vc_cache d))(?key \<mapsto> (b, now + entry_ttl c b))"
    by (simp add: c' update_conv')
  then show ?thesis
    using room rel make_room_config [OF d] c'
    by (simp add: cache_rel_def ttl distinct_update length_update)
qed

lemma cache_get_cases:
  obtains (miss) "map_of (vc_cache c) (get_cache_key H q) = None"
      "cache_get H q p now c = (None, c\<lparr>vc_misses := vc_misses c + 1\<rparr>)"
  | (hit) b e where "map_of (vc_cache c) (get_cache_key H q) = Some (b, e)" "now < e"
      "fst (cache_get H q p now c) = Some b"
      "vc_cache (snd (cache_get H q p now c)) =
         AList.update (get_cache_key H q) (b, e) (AList.delete (get_cache_key H q) (vc_cache c))"
  | (expired) b e where "map_of (vc_cache c) (get_cache_key H q) = Some (b, e)" "\<not> now < e"
      "fst (cache_get H q p now c) = None"
      "vc_cache (snd (cache_get H q p now c)) = AList.delete (get_cache_key H q) (vc_cache c)"
proof (cases "map_of (vc_cache c) (get_cache_key H q)")
  case None
  then show thesis by (intro miss) (simp_all add: cache_get_def Let_def)
next
  case (Some be)
  then obtain b e where be: "map_of (vc_cache c) (get_cache_key H q) = Some (b, e)" by (cases be) simp
  show thesis
  proof (cases "now < e")
    case True
    then show thesis using be by (intro hit) (simp_all add: cache_get_def Let_def)
  next
    case False
    then show thesis using be by (intro expired) (simp_all add: cache_get_def Let_def)
  qed
qed

lemma cache_get_config:
  "vc_max_size (snd (cache_get H q p now c)) = vc_max_size c \<and>
   vc_positive_ttl (snd (cache_get H q p now c)) = vc_positive_ttl c \<and>
   vc_negative_ttl (snd (cache_get H q p now c)) = vc_negative_ttl c"
  by (simp add: cache_get_def Let_def split: option.split)

lemma cache_get_rel:
  assumes "cache_rel ms pos neg c m"
  shows "cache_rel ms pos neg (snd (cache_get H q p now c)) m"
proof -
  let ?key = "get_cache_key H q" and ?c = "snd (cache_get H q p now c)"
  note cfg = cache_get_config [of H q p now c]
  show ?thesis
  proof (cases H q p now c rule: cache_get_cases)
    case miss
    then show ?thesis using assms by (simp add: cache_rel_def)
  next
    case (hit b e)
    then have "length (AList.delete ?key (vc_cache c)) < length (vc_cache c)"
      by (intro length_delete_less) (auto dest: map_of_SomeD intro: rev_image_eqI)
    then have "length (vc_cache ?c) \<le> length (vc_cache c)"
      using delete_notin_dom [of ?key "vc_cache c"] by (simp add: hit(4) length_update)
    then show ?thesis using assms hit cfg
      by (simp add: cache_rel_def update_conv' distinct_update distinct_delete)
  next
    case (expired b e)
    then show ?thesis using assms cfg length_delete_le [of ?key "vc_cache c"]
      by (simp add: cache_rel_def distinct_delete)
  qed
qed

lemma cache_invalidate_rel:
  "cache_rel ms pos neg c m \<Longrightarrow> cache_rel ms pos neg (cache_invalidate H q p c) (m(get_cache_key H q := None))"
  using length_delete_le [of "get_cache_key H q" "vc_cache c"]
  by (auto simp: cache_invalidate_def cache_rel_def Let_def distinct_delete)

lemma cache_invalidate_proof_rel:
  assumes "cache_rel ms pos neg c m"
  shows "cache_rel ms pos neg (cache_invalidate_proof p c) m"
proof -
  let ?P = "\<lambda>(k, _). k \<notin> (case vc_proof_keys c p of None \<Rightarrow> {} | Some ks \<Rightarrow> ks)"
  have "int (length (filter ?P (vc_cache c))) \<le> max 1 ms"
    using assms length_filter_le [of ?P "vc_cache c"] unfolding cache_rel_def by linarith
  moreover have "distinct (map fst (filter ?P (vc_cache c)))"
    using assms by (simp add: cache_rel_def distinct_map_filter)
  ultimately show ?thesis
    using assms by (auto simp: cache_invalidate_proof_def cache_rel_def map_of_filter_keys
        split: if_splits)
qed

interpretation cache_sim: simulation "cache_step H" "spec_step H pos neg" "cache_rel ms pos neg"
  for H pos neg ms
proof
  fix c m op c' assume "cache_rel ms pos neg c m" "cache_step H op c = Some c'"
  then show "cache_rel ms pos neg c' (spec_step H pos neg op m)"
    by (cases op) (auto simp: cache_set_rel cache_get_rel cache_invalidate_rel
        cache_invalidate_proof_rel, auto simp: cache_clear_def cache_rel_def)
qed

lemma cache_rel_new: "cache_rel ms pos neg (new_cache ms pos neg) Map.empty"
  by (simp add: cache_rel_def new_cache_def)

lemma cache_hit_iff:
  "fst (cache_get H q p now c) = Some b \<longleftrightarrow>
     (\<exists>e. map_of (vc_cache c) (get_cache_key H q) = Some (b, e) \<and> now < e)"
  by (cases H q p now c rule: cache_get_cases) auto

lemma cache_set_total:
  assumes "1 \<le> vc_max_size c"
  shows "\<exists>c'. cache_set H q b p now c = Some c'"
proof -
  have "make_room key p c \<noteq> None" for key
    using assms by (auto simp: make_room_def split: list.splits)
  then show ?thesis by (auto simp: cache_set_def Let_def)
qed

lemma run_total:
  assumes "cache_rel ms pos neg c m" "1 \<le> ms"
  shows "\<exists>c'. run_ops (cache_step H) ops c = Some c'"
  using assms(1)
proof (induction ops arbitrary: c m)
  case (Cons op ops)
  obtain c1 where c1: "cache_step H op c = Some c1"
  proof (cases op)
    case (Put q b p now)
    have "1 \<le> vc_max_size c" using Cons.prems assms(2) by (simp add: cache_rel_def)
    then show thesis using cache_set_total [of c H q b p now] that Put by auto
  qed (use that in auto)
  show ?case using Cons.IH [OF cache_sim.rel_step [OF Cons.prems c1]] c1 by simp
qed simp

subsection \<open>Properties\<close>


definition sample_fields :: CacheFields where
  "sample_fields = \<lparr>cf_domain = ''d'', cf_network = ''n'', cf_circuit_version = ''2'',
     cf_verifier_version = ''1'', cf_proof_hex = ''AB'', cf_public_inputs_hex = '' cd ''\<rparr>"


text \<open>
  with a size limit of at least 1 every history of operations completes without an exception,
  keys stay unique and the number of entries never exceeds the limit.
\<close>

theorem cache_bounded:
  assumes "1 \<le> ms"
  shows "\<exists>c. run_ops (cache_step H) ops (new_cache ms pos neg) = Some c \<and>
     distinct (map fst (vc_cache c)) \<and> int (length (vc_cache c)) \<le> ms"
proof -
  obtain c where c: "run_ops (cache_step H) ops (new_cache ms pos neg) = Some c"
    using run_total [OF cache_rel_new assms] by blast
  have "cache_rel ms pos neg c (fold (spec_step H pos neg) ops Map.empty)"
    using cache_sim.rel_run [OF cache_rel_new c] .
  then show ?thesis using c assms by (auto simp: cache_rel_def)
qed

theorem cache_bounded_witness:
  "\<exists>c. run_ops (cache_step id) [Clear] (new_cache 3 1 1) = Some c \<and>
     distinct (map fst (vc_cache c)) \<and> int (length (vc_cache c)) \<le> 3"
  using cache_bounded [of 3 id "[Clear]" 1 1] by simp

text \<open>
  C22: keys separate. If the hash does not collide on the two payloads, two lookups share a key
  exactly when domain, network, circuit version and verifier version agree and the proof and
  public-input texts agree up to case and surrounding white space: no value can bleed across a
  field boundary.
\<close>

theorem cache_key_separates:
  assumes "inj_on H {cache_payload q, cache_payload r}"
  shows "get_cache_key H q = get_cache_key H r \<longleftrightarrow>
     cf_domain q = cf_domain r \<and> cf_network q = cf_network r \<and>
     cf_circuit_version q = cf_circuit_version r \<and> cf_verifier_version q = cf_verifier_version r \<and>
     py_lower (py_strip (cf_proof_hex q)) = py_lower (py_strip (cf_proof_hex r)) \<and>
     py_lower (py_strip (cf_public_inputs_hex q)) = py_lower (py_strip (cf_public_inputs_hex r))"
proof -
  have enc: "map encode_cache_key_field = map frame"
    by (simp add: fun_eq_iff encode_cache_key_field_def)
  have "get_cache_key H q = get_cache_key H r \<longleftrightarrow> cache_payload q = cache_payload r"
    unfolding get_cache_key_def tohex_eq_iff by (rule inj_on_eq_iff [OF assms]) simp_all
  also have "\<dots> \<longleftrightarrow> cache_key_fields q = cache_key_fields r"
    unfolding cache_payload_def enc encode_ascii_inj by (rule frames_inj) (simp add: cache_key_fields_def)
  finally show ?thesis by (simp add: cache_key_fields_def normalize_hex_field_def)
qed

theorem cache_key_separates_witness:
  "get_cache_key id sample_fields \<noteq> get_cache_key id (sample_fields\<lparr>cf_domain := ''dn'', cf_network := []\<rparr>)"
  using cache_key_separates [of id sample_fields "sample_fields\<lparr>cf_domain := ''dn'', cf_network := []\<rparr>"]
  by (simp add: sample_fields_def)

text \<open>
  a lookup defeats per-proof invalidation. A result stored for proof \<open>p\<close> and then looked up
  with the same proof id stays in the cache through \<^verbatim>\<open>invalidate_proof(p)\<close> and is still served,
  because the lookup removes the key from the proof's key set and does not add it back.
\<close>

theorem hit_defeats_invalidate_proof:
  assumes "p \<noteq> []" "now < now0 + entry_ttl c b" "later < now0 + entry_ttl c b"
    and "cache_set H q b (Some p) now0 c = Some c1"
  shows "fst (cache_get H q None later (cache_invalidate_proof p (snd (cache_get H q (Some p) now c1)))) = Some b"
proof -
  let ?key = "get_cache_key H q"
  obtain x xs where p: "p = x # xs" using assms(1) by (cases p) auto
  have c1: "map_of (vc_cache c1) ?key = Some (b, now0 + entry_ttl c b)"
    using assms(4) by (auto simp: cache_set_def Let_def update_conv')
  let ?c2 = "snd (cache_get H q (Some p) now c1)"
  have get: "?c2 = c1\<lparr>vc_hits := vc_hits c1 + 1,
      vc_cache := AList.update ?key (b, now0 + entry_ttl c b) (AList.delete ?key (vc_cache c1)),
      vc_proof_keys := discard_key (Some p) ?key (vc_proof_keys c1)\<rparr>"
    using assms(2) by (simp add: cache_get_def Let_def c1)
  have "?key \<notin> (case vc_proof_keys ?c2 p of None \<Rightarrow> {} | Some ks \<Rightarrow> ks)"
    unfolding get by (auto simp: discard_key_def named_def p split: option.splits)
  then have "map_of (vc_cache (cache_invalidate_proof p ?c2)) ?key = Some (b, now0 + entry_ttl c b)"
    unfolding get by (simp add: cache_invalidate_proof_def map_of_filter_keys update_conv')
  then show ?thesis using assms(3) by (auto simp: cache_hit_iff)
qed

theorem hit_defeats_invalidate_proof_witness:
  "\<exists>c1. cache_set id sample_fields True (Some ''p'') 0 (new_cache 5 10 5) = Some c1 \<and>
     fst (cache_get id sample_fields None 2
       (cache_invalidate_proof ''p'' (snd (cache_get id sample_fields (Some ''p'') 1 c1)))) = Some True"
proof -
  obtain c1 where c1: "cache_set id sample_fields True (Some ''p'') 0 (new_cache 5 10 5) = Some c1"
    using cache_set_total [of "new_cache 5 10 5" id sample_fields True "Some ''p''" 0]
    by (auto simp: new_cache_def)
  show ?thesis
    using c1 hit_defeats_invalidate_proof [OF _ _ _ c1, of 1 2] by (simp add: new_cache_def entry_ttl_def)
qed

end
