(* ===== verification/Json.thy ===== *)
theory Json
  imports Prelude "HOL-Library.List_Lexorder" "HOL-Library.Char_ord" "HOL-Library.Multiset"
begin

text \<open>
  Canonical JSON: Python's \<^verbatim>\<open>json.dumps(value, separators=(",", ":"), sort_keys=True)\<close> on the values
  the backend hashes. A character is a code point below 256, escaped as \<^verbatim>\<open>json\<close> does with or
  without \<^verbatim>\<open>ensure_ascii\<close>; the options \<open>fr\<close> of the printer are that flag and the text of a float.

  The main lemma is that the text determines the value up to the order of dictionary entries
  (\<open>dumps_inj\<close>), on values without floats. Digests of canonical texts rest on it.
\<close>

subsection \<open>Conversions\<close>

text \<open>\<open>str(v)\<close>; the text of floats and containers is the parameter \<open>other\<close>.\<close>

definition py_str :: "(pyval \<Rightarrow> string) \<Rightarrow> pyval \<Rightarrow> string" where
  "py_str other v =
     (case v of
        PStr s \<Rightarrow> s
      | PNone \<Rightarrow> ''None''
      | PBool b \<Rightarrow> (if b then ''True'' else ''False'')
      | PInt i \<Rightarrow> str_int i
      | _ \<Rightarrow> other v)"

text \<open>\<open>int(v)\<close>: a type error for None and containers, a value error for text that is no number.\<close>

datatype ConversionError = ConvTypeError | ConvValueError

definition py_int_of :: "pyval \<Rightarrow> ConversionError + int" where
  "py_int_of v =
     (case v of
        PInt i \<Rightarrow> Inr i
      | PBool b \<Rightarrow> Inr (if b then 1 else 0)
      | PFloat r \<Rightarrow> Inr (if 0 \<le> r then floor r else ceiling r)
      | PStr s \<Rightarrow> (case py_int 10 s of None \<Rightarrow> Inl ConvValueError | Some i \<Rightarrow> Inr i)
      | _ \<Rightarrow> Inl ConvTypeError)"

text \<open>\<^verbatim>\<open>is_hex_32\<close> of the application: 64 characters that \<open>int(value, 16)\<close> accepts.\<close>

definition app_is_hex_32 :: "pyval \<Rightarrow> bool" where
  "app_is_hex_32 v = (case v of PStr s \<Rightarrow> length s = 64 \<and> py_int 16 s \<noteq> None | _ \<Rightarrow> False)"

subsection \<open>Printing\<close>

definition BACKSLASH :: char where
  "BACKSLASH = CHR 0x5C"

definition QUOTE :: char where
  "QUOTE = CHR 0x22"

type_synonym jopts = "bool \<times> (rat \<Rightarrow> string)"

definition escape_char :: "bool \<Rightarrow> char \<Rightarrow> string" where
  "escape_char ensure_ascii c =
     (let n = char_code c in
      if n = 34 \<or> n = 92 then [BACKSLASH, c]
      else if n = 10 then [BACKSLASH, CHR ''n'']
      else if n = 13 then [BACKSLASH, CHR ''r'']
      else if n = 9 then [BACKSLASH, CHR ''t'']
      else if n = 12 then [BACKSLASH, CHR ''f'']
      else if n = 8 then [BACKSLASH, CHR ''b'']
      else if 32 \<le> n \<and> (n \<le> 126 \<or> \<not> ensure_ascii) then [c]
      else [BACKSLASH, CHR ''u'', CHR ''0'', CHR ''0'', hex_char (n div 16), hex_char (n mod 16)])"

definition json_string :: "bool \<Rightarrow> string \<Rightarrow> string" where
  "json_string ensure_ascii s = QUOTE # concat (map (escape_char ensure_ascii) s) @ [QUOTE]"

fun raw :: "jopts \<Rightarrow> pyval \<Rightarrow> string"
  and list_tail :: "jopts \<Rightarrow> pyval list \<Rightarrow> string"
  and dict_tail :: "jopts \<Rightarrow> (string \<times> pyval) list \<Rightarrow> string" where
  "raw fr PNone = ''null''"
| "raw fr (PBool b) = (if b then ''true'' else ''false'')"
| "raw fr (PInt i) = str_int i"
| "raw fr (PFloat r) = snd fr r"
| "raw fr (PStr s) = json_string (fst fr) s"
| "raw fr (PList []) = ''[]''"
| "raw fr (PList (x # xs)) = CHR ''['' # raw fr x @ list_tail fr xs"
| "raw fr (PDict []) = ''{}''"
| "raw fr (PDict ((k, v) # kvs)) = CHR ''{'' # json_string (fst fr) k @ CHR '':'' # raw fr v @ dict_tail fr kvs"
| "list_tail fr [] = '']''"
| "list_tail fr (x # xs) = CHR '','' # raw fr x @ list_tail fr xs"
| "dict_tail fr [] = ''}''"
| "dict_tail fr ((k, v) # kvs) = CHR '','' # json_string (fst fr) k @ CHR '':'' # raw fr v @ dict_tail fr kvs"

text \<open>\<open>sort_keys\<close>: the entries of every dictionary in the order of their keys.\<close>

fun canon :: "pyval \<Rightarrow> pyval" where
  "canon (PList xs) = PList (map canon xs)"
| "canon (PDict d) = PDict (sort_key fst (map (\<lambda>(k, v). (k, canon v)) d))"
| "canon v = v"

definition dumps :: "jopts \<Rightarrow> pyval \<Rightarrow> string" where
  "dumps fr v = raw fr (canon v)"

fun no_float :: "pyval \<Rightarrow> bool" where
  "no_float (PFloat _) = False"
| "no_float (PList xs) = list_all no_float xs"
| "no_float (PDict d) = list_all (\<lambda>(k, v). no_float v) d"
| "no_float _ = True"

subsection \<open>Strings and numbers can be split off\<close>

fun unescape :: "string \<Rightarrow> (char \<times> string) option" where
  "unescape [] = None"
| "unescape (c # s) =
     (if c \<noteq> BACKSLASH then Some (c, s)
      else (case s of
          [] \<Rightarrow> None
        | d # r \<Rightarrow>
            if d = CHR ''n'' then Some (char_of (10 :: nat), r)
            else if d = CHR ''r'' then Some (char_of (13 :: nat), r)
            else if d = CHR ''t'' then Some (char_of (9 :: nat), r)
            else if d = CHR ''f'' then Some (char_of (12 :: nat), r)
            else if d = CHR ''b'' then Some (char_of (8 :: nat), r)
            else if d = CHR ''u'' then
              Some (char_of (hex_val (r ! 2) * 16 + hex_val (r ! 3)), drop 4 r)
            else Some (d, r)))"

lemma char_of_code: "char_of (char_code c) = c"
  by (simp add: char_code_def)

lemma char_eqI: "char_code c = n \<Longrightarrow> c = char_of n"
  by (metis char_of_code)

lemma unescape_escape: "unescape (escape_char ea c @ r) = Some (c, r)"
proof -
  let ?n = "char_code c"
  consider "?n = 34" | "?n = 92" | "?n = 10" | "?n = 13" | "?n = 9" | "?n = 12" | "?n = 8"
    | "32 \<le> ?n \<and> (?n \<le> 126 \<or> \<not> ea) \<and> ?n \<noteq> 34 \<and> ?n \<noteq> 92"
    | "?n \<notin> {34, 92, 10, 13, 9, 12, 8}" "\<not> (32 \<le> ?n \<and> (?n \<le> 126 \<or> \<not> ea))" by fastforce
  then show ?thesis
  proof cases
    case 8
    then have "c \<noteq> BACKSLASH" by (auto simp: BACKSLASH_def char_code_def)
    then show ?thesis using 8 by (simp add: escape_char_def Let_def)
  next
    case 9
    have "?n div 16 < 16" using char_code_less [of c] by (simp add: less_mult_imp_div_less del: char_code_less)
    then have "hex_val (hex_char (?n div 16)) * 16 + hex_val (hex_char (?n mod 16)) = ?n"
      by (simp add: div_mult_mod_eq)
    moreover have "escape_char ea c =
        [BACKSLASH, CHR ''u'', CHR ''0'', CHR ''0'', hex_char (?n div 16), hex_char (?n mod 16)]"
      using 9 by (auto simp: escape_char_def Let_def)
    ultimately show ?thesis by (simp add: char_of_code)
  qed (drule char_eqI, simp add: escape_char_def Let_def BACKSLASH_def char_code_char_of char_of_eq_iff)+
qed

lemma escape_not_quote: "\<exists>x xs. escape_char ea c = x # xs \<and> x \<noteq> QUOTE"
  by (auto simp: escape_char_def Let_def BACKSLASH_def QUOTE_def char_code_def)

lemma escaped_split:
  "concat (map (escape_char ea) s) @ QUOTE # x = concat (map (escape_char ea) t) @ QUOTE # y \<longleftrightarrow> s = t \<and> x = y"
proof (induction s arbitrary: t)
  case Nil
  show ?case
  proof (cases t)
    case (Cons d ds)
    then show ?thesis using escape_not_quote [of ea d] by auto
  qed auto
next
  case (Cons c cs)
  note IH = Cons.IH
  show ?case
  proof (cases t)
    case Nil
    then show ?thesis using escape_not_quote [of ea c] by auto
  next
    case (Cons d ds)
    have "escape_char ea c @ u = escape_char ea d @ v \<longleftrightarrow> c = d \<and> u = v" for u v
      by (metis unescape_escape option.inject prod.inject)
    then show ?thesis by (simp add: Cons IH)
  qed
qed

lemma json_string_split: "json_string ea s @ x = json_string ea t @ y \<longleftrightarrow> s = t \<and> x = y"
  using escaped_split [of ea s x t y] by (simp add: json_string_def)

text \<open>What follows a value inside a larger text: nothing, or one of the closing characters.\<close>

definition delim :: "string \<Rightarrow> bool" where
  "delim s \<longleftrightarrow> (case s of [] \<Rightarrow> True | c # _ \<Rightarrow> c \<in> {CHR '','', CHR '']'', CHR ''}''})"

lemma delim_simps [simp]:
  "delim []" "delim (c # s) \<longleftrightarrow> c \<in> {CHR '','', CHR '']'', CHR ''}''}"
  by (simp_all add: delim_def)

lemma digits_split:
  assumes "list_all is_digit ds" "list_all is_digit es" "delim s" "delim t" "ds @ s = es @ t"
  shows "ds = es \<and> s = t"
proof -
  have tw: "takeWhile is_digit (xs @ u) = xs" if "list_all is_digit xs" "delim u" for xs u
  proof -
    have "takeWhile is_digit u = []"
      using that(2) by (cases u) (auto simp: is_digit_def char_code_def)
    then show ?thesis using that(1) by (simp add: takeWhile_append2 list_all_iff)
  qed
  show ?thesis using tw [OF assms(1,3)] tw [OF assms(2,4)] assms(5) by auto
qed

lemma str_int_split:
  assumes "delim s" "delim t" "str_int i @ s = str_int j @ t"
  shows "i = j \<and> s = t"
proof -
  have hd: "\<exists>d ds. str_nat n = d # ds \<and> is_digit d" for n
    using is_digit_str_nat [of n] by (cases "str_nat n") (auto dest: sym)
  have "\<not> is_digit CHR ''-''" by (simp add: is_digit_def char_code_def)
  with hd have sign: "str_nat n @ u \<noteq> CHR ''-'' # v" for n u v by (metis append_Cons list.inject)
  have mag: "m = n \<and> s = t" if "str_nat m @ s = str_nat n @ t" for m n
    using digits_split [OF is_digit_str_nat is_digit_str_nat assms(1,2) that] by simp
  consider "i < 0" "j < 0" | "i < 0" "\<not> j < 0" | "\<not> i < 0" "j < 0" | "\<not> i < 0" "\<not> j < 0" by blast
  then show ?thesis
  proof cases
    case 1
    then show ?thesis using assms(3) mag [of "nat (- i)" "nat (- j)"] by (auto simp: str_int_def)
  next
    case 2
    then show ?thesis using assms(3) sign [of "nat j" t] by (simp add: str_int_def) metis
  next
    case 3
    then show ?thesis using assms(3) sign [of "nat i" s] by (simp add: str_int_def)
  next
    case 4
    then show ?thesis using assms(3) mag [of "nat i" "nat j"] by (auto simp: str_int_def)
  qed
qed

subsection \<open>The text determines the value\<close>

text \<open>The first character tells the constructors apart.\<close>

definition json_kind :: "char \<Rightarrow> nat" where
  "json_kind c =
     (if c = CHR ''n'' then 0 else if c = CHR ''t'' then 1 else if c = CHR ''f'' then 2
      else if c = QUOTE then 3 else if c = CHR ''['' then 4 else if c = CHR ''{'' then 5
      else if c = CHR ''-'' \<or> is_digit c then 6 else 7)"

fun kind :: "pyval \<Rightarrow> nat" where
  "kind PNone = 0"
| "kind (PBool b) = (if b then 1 else 2)"
| "kind (PStr _) = 3"
| "kind (PList _) = 4"
| "kind (PDict _) = 5"
| "kind (PInt _) = 6"
| "kind (PFloat _) = 7"

lemma str_int_hd: "\<exists>c cs. str_int i = c # cs \<and> (c = CHR ''-'' \<or> is_digit c)"
proof -
  have "\<exists>d ds. str_nat n = d # ds \<and> is_digit d" for n
    using is_digit_str_nat [of n] by (cases "str_nat n") (auto dest: sym)
  then show ?thesis by (cases "i < 0") (simp_all add: str_int_def, blast)
qed

lemma json_kind_simps [simp]:
  "json_kind CHR ''n'' = 0" "json_kind CHR ''t'' = 1" "json_kind CHR ''f'' = 2" "json_kind QUOTE = 3"
  "json_kind CHR ''['' = 4" "json_kind CHR ''{'' = 5"
  by (simp_all add: json_kind_def QUOTE_def)

lemma json_kind_number: "c = CHR ''-'' \<or> is_digit c \<Longrightarrow> json_kind c = 6"
  by (auto simp: json_kind_def QUOTE_def is_digit_def char_code_def)

lemma json_kind_close [simp]: "json_kind CHR '']'' = 7"
  by (simp add: json_kind_def QUOTE_def is_digit_def char_code_def)

lemma raw_kind:
  assumes "no_float v"
  shows "\<exists>c cs. raw fr v = c # cs \<and> json_kind c = kind v"
proof (cases v)
  case (PInt i)
  then show ?thesis using str_int_hd [of i] json_kind_number by auto
next
  case (PList xs)
  have "\<exists>cs. raw fr (PList xs) = CHR ''['' # cs" by (cases xs) simp_all
  then show ?thesis using PList by auto
next
  case (PDict d)
  have "\<exists>cs. raw fr (PDict d) = CHR ''{'' # cs" by (cases d) (simp, metis raw.simps(9) surj_pair)
  then show ?thesis using PDict by auto
qed (use assms in \<open>auto simp: json_string_def\<close>)

lemma raw_not_close: "no_float v \<Longrightarrow> raw fr v @ s \<noteq> CHR '']'' # t"
proof -
  assume nf: "no_float v"
  then have "kind v \<noteq> 7" by (cases v) auto
  then show ?thesis using raw_kind [OF nf, of fr] by auto
qed

lemma raw_same_kind:
  "no_float v \<Longrightarrow> no_float w \<Longrightarrow> raw fr v @ s = raw fr w @ t \<Longrightarrow> kind v = kind w"
  using raw_kind [of v fr] raw_kind [of w fr] by auto

lemma tail_delim [simp]: "delim (list_tail fr xs @ s)" "delim (dict_tail fr d @ s)"
  by (cases xs; simp) (cases d; auto)

text \<open>\<open>splits fr v\<close>: the text of \<open>v\<close> can be split off the front of a text in one way only.\<close>

definition splits :: "jopts \<Rightarrow> pyval \<Rightarrow> bool" where
  "splits fr v \<longleftrightarrow> (\<forall>w s t. no_float w \<longrightarrow> delim s \<longrightarrow> delim t \<longrightarrow>
     raw fr v @ s = raw fr w @ t \<longrightarrow> v = w \<and> s = t)"

lemma splitsD:
  "splits fr v \<Longrightarrow> no_float w \<Longrightarrow> delim s \<Longrightarrow> delim t \<Longrightarrow> raw fr v @ s = raw fr w @ t \<Longrightarrow> v = w \<and> s = t"
  by (simp add: splits_def)

lemma kind_inv:
  "kind w = 0 \<longleftrightarrow> w = PNone" "kind w = Suc 0 \<longleftrightarrow> w = PBool True" "kind w = 2 \<longleftrightarrow> w = PBool False"
  "kind w = 3 \<longleftrightarrow> (\<exists>x. w = PStr x)" "kind w = 6 \<longleftrightarrow> (\<exists>i. w = PInt i)"
  by (cases w; simp)+

lemma splitsI:
  assumes "no_float v"
    and "\<And>w s t. kind v = kind w \<Longrightarrow> delim s \<Longrightarrow> delim t \<Longrightarrow> raw fr v @ s = raw fr w @ t \<Longrightarrow> v = w \<and> s = t"
  shows "splits fr v"
  unfolding splits_def using assms(2) raw_same_kind [OF assms(1)] by blast

lemma list_tail_split:
  assumes "\<forall>x \<in> set xs. splits fr x" "list_all no_float ys" "list_tail fr xs @ s = list_tail fr ys @ t"
  shows "xs = ys \<and> s = t"
  using assms
proof (induction xs arbitrary: ys)
  case Nil
  then show ?case by (cases ys) auto
next
  case (Cons x xs)
  note IH = Cons.IH and prems = Cons.prems
  show ?case
  proof (cases ys)
    case (Cons y zs)
    have "x = y \<and> list_tail fr xs @ s = list_tail fr zs @ t"
      using prems Cons by (intro splitsD [of fr x y]) auto
    then show ?thesis using IH [of zs] prems Cons by auto
  qed (use prems in simp)
qed

lemma dict_tail_split:
  assumes "\<forall>(k, v) \<in> set d. splits fr v" "list_all (\<lambda>(k, v). no_float v) e"
    "dict_tail fr d @ s = dict_tail fr e @ t"
  shows "d = e \<and> s = t"
  using assms
proof (induction d arbitrary: e)
  case Nil
  then show ?case by (cases e) auto
next
  case (Cons kv d)
  note IH = Cons.IH and prems = Cons.prems
  obtain k v where kv: "kv = (k, v)" by (cases kv)
  show ?case
  proof (cases e)
    case (Cons lw f)
    obtain l w where lw: "lw = (l, w)" by (cases lw)
    have kl: "k = l" and vw: "raw fr v @ dict_tail fr d @ s = raw fr w @ dict_tail fr f @ t"
      using prems(3) by (simp_all add: kv lw Cons json_string_split)
    have "v = w \<and> dict_tail fr d @ s = dict_tail fr f @ t"
      using prems kv lw Cons by (intro splitsD [OF _ _ _ _ vw]) auto
    then show ?thesis using IH [of f] prems Cons kl kv lw by auto
  qed (use prems kv in simp)
qed

lemma raw_splits: "no_float v \<Longrightarrow> splits fr v"
proof (induction v)
  case (PList xs)
  show ?case unfolding splits_def
  proof (intro allI impI)
    fix w s t assume a: "no_float w" "raw fr (PList xs) @ s = raw fr w @ t"
    then obtain ys where w: "w = PList ys"
      using raw_same_kind [OF PList.prems a] by (cases w) (auto split: if_splits)
    have el: "\<forall>x \<in> set xs. splits fr x" using PList by (auto simp: list_all_iff)
    show "PList xs = w \<and> s = t"
    proof (cases xs; cases ys)
      fix x xs' y ys' assume c: "xs = x # xs'" "ys = y # ys'"
      have "list_tail fr xs @ s = list_tail fr ys @ t" using a(2) by (simp add: c w)
      then show ?thesis using list_tail_split [OF el, of ys s t] a(1) w by auto
    qed (use a w PList.prems raw_not_close raw_not_close [symmetric] in auto)
  qed
next
  case (PDict d)
  show ?case unfolding splits_def
  proof (intro allI impI)
    fix w s t assume a: "no_float w" "raw fr (PDict d) @ s = raw fr w @ t"
    then obtain e where w: "w = PDict e"
      using raw_same_kind [OF PDict.prems a] by (cases w) (auto split: if_splits)
    have el: "\<forall>(k, v) \<in> set d. splits fr v" using PDict by (fastforce simp: list_all_iff)
    show "PDict d = w \<and> s = t"
    proof (cases d; cases e)
      fix kv d' lw e' assume c: "d = kv # d'" "e = lw # e'"
      have "dict_tail fr d @ s = dict_tail fr e @ t" using a(2) by (cases kv; cases lw) (simp add: c w)
      then show ?thesis using dict_tail_split [OF el, of e s t] a(1) w by auto
    qed (use a w in \<open>auto simp: json_string_def QUOTE_def\<close>)
  qed
next
  case (PInt i)
  then show ?case using str_int_split by (intro splitsI) (auto simp: kind_inv eq_commute [of _ "kind _"])
next
  case (PStr x)
  then show ?case by (intro splitsI) (auto simp: kind_inv eq_commute [of _ "kind _"] json_string_split)
next
  case (PBool b)
  then show ?case by (intro splitsI) (auto simp: kind_inv eq_commute [of _ "kind _"] split: if_splits)
next
  case PNone
  then show ?case by (intro splitsI) (auto simp: kind_inv eq_commute [of _ "kind _"])
qed simp

lemma no_float_canon [simp]: "no_float (canon v) = no_float v"
proof (induction v rule: canon.induct)
  case (2 d)
  then show ?case by (fastforce simp: list_all_iff)
qed (auto simp: list_all_iff)

theorem dumps_inj:
  assumes "no_float v" "no_float w"
  shows "dumps fr v = dumps fr w \<longleftrightarrow> canon v = canon w"
proof
  assume "dumps fr v = dumps fr w"
  then have "raw fr (canon v) @ [] = raw fr (canon w) @ []" by (simp add: dumps_def)
  moreover have "splits fr (canon v)" using assms(1) by (intro raw_splits) simp
  ultimately show "canon v = canon w" using splitsD [of fr "canon v" "canon w" "[]" "[]"] assms(2) by simp
qed (simp add: dumps_def)

text \<open>Dictionaries with the same canonical form have the same entries.\<close>

lemma canon_dict_lookup:
  assumes "canon (PDict d) = canon (PDict e)" "distinct (map fst d)" "distinct (map fst e)"
  shows "map_option canon (map_of d k) = map_option canon (map_of e k)"
proof -
  let ?f = "map (\<lambda>(k, v). (k, canon v))"
  have keys: "map fst (?f x) = map fst x" for x by (induction x) auto
  have "sort_key fst (?f d) = sort_key fst (?f e)" using assms(1) by simp
  then have "set (?f d) = set (?f e)" by (metis set_sort)
  then have "map_of (?f d) = map_of (?f e)"
    using map_of_inject_set [of "?f d" "?f e"] assms(2,3) by (simp only: keys)
  moreover have "map_of (?f x) k = map_option canon (map_of x k)" for x by (induction x) auto
  ultimately show ?thesis by metis
qed

text \<open>The order of the entries of a dictionary does not matter.\<close>

lemma canon_perm:
  assumes "mset d = mset e" "distinct (map fst d)"
  shows "canon (PDict d) = canon (PDict e)"
proof -
  let ?f = "\<lambda>(k, v). (k, canon v)"
  have keys: "map fst (map ?f x) = map fst x" for x by (induction x) auto
  have "inj_on fst (set (map ?f d))" using assms(2) keys [of d] by (metis distinct_map)
  then have "sort_key fst (map ?f d) = sort_key fst (map ?f e)"
    using assms(1) by (intro sort_key_inj_key_eq) (simp_all only: mset_map mset_sort sorted_sort_key)
  then show ?thesis by simp
qed

end
