(* ===== verification/Lineage.thy ===== *)
theory Lineage
  imports Json
begin

text \<open>
  Lineage of derived media, after \<^verbatim>\<open>src/backend/lineage.py\<close>: the canonical manifest text and its
  digest, the graph limits, and the recursive ancestry search with its shared visited set. The
  database lookup is the argument \<open>get\<close> (the parent ids of a record, \<open>None\<close> without one); SHA-256
  is \<open>H\<close>; \<open>fr\<close> prints floats and \<open>other\<close> is \<^verbatim>\<open>str\<close> on floats, lists and dictionaries. The first
  argument of the search is the remaining interpreter stack: running out of it (a
  \<^verbatim>\<open>RecursionError\<close>) is \<open>None\<close>.

  The lemmas show that the canonical text determines the lineage fields, and that the search,
  given one stack frame more than there are records, returns, and finds the target exactly when
  it is an ancestor.
\<close>

subsection \<open>The manifest\<close>

definition SUPPORTED_OPERATIONS :: "string list" where
  "SUPPORTED_OPERATIONS = [''crop'', ''transcode'', ''blur'', ''redact'', ''compose'']"

definition MAX_LINEAGE_DEPTH :: int where
  "MAX_LINEAGE_DEPTH = 4"

definition MAX_LINEAGE_FANOUT :: nat where
  "MAX_LINEAGE_FANOUT = 4"

definition MAX_LINEAGE_PAYLOAD_BYTES :: nat where
  "MAX_LINEAGE_PAYLOAD_BYTES = 4096"

text \<open>A \<^verbatim>\<open>LineageValidationError\<close> with its message, or the interpreter's own errors.\<close>

datatype LineageError = LineageValidationError string | TypeError | RecursionError

definition is_hex_32 :: "string \<Rightarrow> bool" where
  "is_hex_32 s \<longleftrightarrow> length s = 64 \<and> list_all (\<lambda>ch. ch \<in> set HEX_DIGITS) s"

definition operation_supported :: "pyval \<Rightarrow> LineageError + string" where
  "operation_supported v =
     (case v of
        PStr s \<Rightarrow> if s \<in> set SUPPORTED_OPERATIONS then Inr s
                  else Inl (LineageValidationError ''Unsupported lineage operation'')
      | PList _ \<Rightarrow> Inl TypeError
      | PDict _ \<Rightarrow> Inl TypeError
      | _ \<Rightarrow> Inl (LineageValidationError ''Unsupported lineage operation''))"

definition parent_list :: "pyval \<Rightarrow> LineageError + string list" where
  "parent_list v =
     (case v of
        PList (x # xs) \<Rightarrow>
          if MAX_LINEAGE_FANOUT < length (x # xs)
          then Inl (LineageValidationError ''lineage fan-out exceeds limit'')
          else if list_all (\<lambda>p. case p of PStr s \<Rightarrow> is_hex_32 s | _ \<Rightarrow> False) (x # xs)
          then Inr (map (\<lambda>p. case p of PStr s \<Rightarrow> s | _ \<Rightarrow> []) (x # xs))
          else Inl (LineageValidationError ''parentProofIds must contain 32-byte hex values'')
      | _ \<Rightarrow> Inl (LineageValidationError ''parentProofIds must be a non-empty array''))"

definition REQUIRED_FIELDS :: "string list" where
  "REQUIRED_FIELDS = [''operationType'', ''parametersDigest'', ''toolIdentity'', ''toolVersion'',
     ''outputDigest'', ''network'', ''actorAddress'']"

definition field_str :: "(pyval \<Rightarrow> string) \<Rightarrow> (string \<times> pyval) list \<Rightarrow> string \<Rightarrow> pyval" where
  "field_str other manifest k = PStr (py_str other (dict_get manifest k))"

definition normalized_manifest ::
  "(pyval \<Rightarrow> string) \<Rightarrow> (string \<times> pyval) list \<Rightarrow> string list \<Rightarrow> string \<Rightarrow> (string \<times> pyval) list" where
  "normalized_manifest other manifest parents operation =
     [(''protocol'', PStr ''harpocrates''),
      (''version'', PInt 2),
      (''parentProofIds'', PList (map PStr parents)),
      (''operationType'', PStr operation),
      (''parametersDigest'', field_str other manifest ''parametersDigest''),
      (''toolIdentity'', field_str other manifest ''toolIdentity''),
      (''toolVersion'', field_str other manifest ''toolVersion''),
      (''outputDigest'', field_str other manifest ''outputDigest''),
      (''network'', field_str other manifest ''network''),
      (''actorAddress'', field_str other manifest ''actorAddress'')]"

definition canonical_lineage_manifest ::
  "(rat \<Rightarrow> string) \<Rightarrow> (pyval \<Rightarrow> string) \<Rightarrow> pyval \<Rightarrow> LineageError + string" where
  "canonical_lineage_manifest fr other m =
     (case m of
        PDict manifest \<Rightarrow>
          andthen (operation_supported (dict_get manifest ''operationType'')) (\<lambda>operation.
          andthen (parent_list (dict_get manifest ''parentProofIds'')) (\<lambda>parents.
          andthen (foreach (\<lambda>f _. guard (f \<in> fst ` set manifest)
              (LineageValidationError (''missing lineage field: '' @ f))) REQUIRED_FIELDS ()) (\<lambda>_.
          if MAX_LINEAGE_PAYLOAD_BYTES < length (dumps (True, fr) (PDict manifest))
          then Inl (LineageValidationError ''lineage manifest is too large'')
          else Inr (dumps (True, fr) (PDict (normalized_manifest other manifest parents operation))))))
      | _ \<Rightarrow> Inl (LineageValidationError ''lineage manifest must be a JSON object''))"

definition lineage_manifest_digest ::
  "(bytes \<Rightarrow> bytes) \<Rightarrow> (rat \<Rightarrow> string) \<Rightarrow> (pyval \<Rightarrow> string) \<Rightarrow> pyval \<Rightarrow> LineageError + string" where
  "lineage_manifest_digest H fr other m =
     andthen (canonical_lineage_manifest fr other m) (\<lambda>text. Inr (tohex (H (encode_ascii text))))"

subsection \<open>The ancestry search\<close>

fun contains_in_ancestry ::
    "nat \<Rightarrow> (string \<Rightarrow> string list option) \<Rightarrow> string \<Rightarrow> string set \<Rightarrow> string \<Rightarrow> (bool \<times> string set) option"
  and search_parents ::
    "nat \<Rightarrow> (string \<Rightarrow> string list option) \<Rightarrow> string \<Rightarrow> string set \<Rightarrow> string list \<Rightarrow> (bool \<times> string set) option" where
  "contains_in_ancestry 0 get target visited proof_id = None"
| "contains_in_ancestry (Suc n) get target visited proof_id =
     (if proof_id \<in> visited then Some (False, visited)
      else if proof_id = target then Some (True, insert proof_id visited)
      else (case get proof_id of
              None \<Rightarrow> Some (False, insert proof_id visited)
            | Some parents \<Rightarrow> search_parents n get target (insert proof_id visited) parents))"
| "search_parents n get target visited [] = Some (False, visited)"
| "search_parents n get target visited (p # ps) =
     (case contains_in_ancestry n get target visited p of
        None \<Rightarrow> None
      | Some (found, visited') \<Rightarrow>
          if found then Some (True, visited') else search_parents n get target visited' ps)"

text \<open>The loop of \<^verbatim>\<open>validate_lineage_graph\<close> over the parents; each call starts a new visited set.\<close>

fun any_ancestry :: "nat \<Rightarrow> (string \<Rightarrow> string list option) \<Rightarrow> string \<Rightarrow> string list \<Rightarrow> bool option" where
  "any_ancestry n get target [] = Some False"
| "any_ancestry n get target (p # ps) =
     (case contains_in_ancestry n get target {} p of
        None \<Rightarrow> None
      | Some (found, _) \<Rightarrow> if found then Some True else any_ancestry n get target ps)"

definition validate_lineage_graph ::
  "nat \<Rightarrow> string list \<Rightarrow> int \<Rightarrow> string \<Rightarrow> string option \<Rightarrow> (string \<Rightarrow> string list option) option
   \<Rightarrow> LineageError + unit" where
  "validate_lineage_graph stack parents depth actor output_digest get_lineage_fn =
     andthen (guard (depth \<le> MAX_LINEAGE_DEPTH) (LineageValidationError ''lineage depth exceeds limit'')) (\<lambda>_.
     andthen (guard (length parents \<le> MAX_LINEAGE_FANOUT) (LineageValidationError ''lineage fan-out exceeds limit'')) (\<lambda>_.
     andthen (guard (actor \<noteq> []) (LineageValidationError ''actorAddress is required'')) (\<lambda>_.
     case output_digest of
       Some (c # cs) \<Rightarrow>
         andthen (guard (c # cs \<notin> set parents)
           (LineageValidationError ''lineage cycle detected: output digest appears in parents'')) (\<lambda>_.
         case get_lineage_fn of
           None \<Rightarrow> Inr ()
         | Some get \<Rightarrow>
             (case any_ancestry stack get (c # cs) parents of
                None \<Rightarrow> Inl RecursionError
              | Some found \<Rightarrow> guard (\<not> found)
                  (LineageValidationError ''lineage cycle detected: would create circular dependency'')))
     | _ \<Rightarrow> Inr ())))"

subsection \<open>The lineage table and the registration handler\<close>

record LineageRow =
  lr_id :: nat
  lr_manifest_digest :: string
  lr_output_digest :: string
  lr_manifest :: string
  lr_actor_address :: string
  lr_parent_proof_ids :: "string list"

text \<open>
  The table \<^verbatim>\<open>lineage_events\<close> in insertion order with its id sequence; \<open>None\<close> when no database is
  configured. The manifest column is the canonical text, its \<^verbatim>\<open>outputDigest\<close> member a column.
\<close>

record LineageTable =
  lt_rows :: "LineageRow list"
  lt_next_id :: nat

definition insert_lineage_event ::
  "string \<Rightarrow> string \<Rightarrow> string \<Rightarrow> string \<Rightarrow> string list \<Rightarrow> LineageTable option
   \<Rightarrow> LineageRow option \<times> LineageTable option" where
  "insert_lineage_event manifest_digest output_digest manifest actor_address parents db =
     (case db of
        None \<Rightarrow> (None, None)
      | Some t \<Rightarrow>
          if manifest_digest \<in> lr_manifest_digest ` set (lt_rows t)
          then (None, Some (t\<lparr>lt_next_id := lt_next_id t + 1\<rparr>))
          else let row = \<lparr>lr_id = lt_next_id t, lr_manifest_digest = manifest_digest,
                          lr_output_digest = output_digest, lr_manifest = manifest,
                          lr_actor_address = actor_address, lr_parent_proof_ids = parents\<rparr>
               in (Some row, Some (t\<lparr>lt_rows := lt_rows t @ [row], lt_next_id := lt_next_id t + 1\<rparr>)))"

definition clamp_list_limit :: "int \<Rightarrow> nat" where
  "clamp_list_limit limit = nat (max 1 (min limit 100))"

definition list_lineage_events :: "int \<Rightarrow> LineageTable option \<Rightarrow> LineageRow list" where
  "list_lineage_events limit db =
     (case db of None \<Rightarrow> [] | Some t \<Rightarrow> take (clamp_list_limit limit) (rev (lt_rows t)))"

definition find_lineage_by_output_digest :: "LineageTable option \<Rightarrow> string \<Rightarrow> LineageRow option" where
  "find_lineage_by_output_digest db output_digest =
     (case db of None \<Rightarrow> None
      | Some t \<Rightarrow> find (\<lambda>r. lr_output_digest r = output_digest) (lt_rows t))"

definition find_lineage_by_actor :: "string \<Rightarrow> int \<Rightarrow> LineageTable option \<Rightarrow> LineageRow list" where
  "find_lineage_by_actor actor limit db =
     (case db of None \<Rightarrow> []
      | Some t \<Rightarrow> take (clamp_list_limit limit) (filter (\<lambda>r. lr_actor_address r = actor) (rev (lt_rows t))))"

datatype LineageResponse = Recorded string LineageRow | Refused nat string

definition lineage_parents :: "LineageTable option \<Rightarrow> string \<Rightarrow> string list option" where
  "lineage_parents db proof_id = map_option lr_parent_proof_ids (find_lineage_by_output_digest db proof_id)"

definition register_lineage_event ::
  "nat \<Rightarrow> (bytes \<Rightarrow> bytes) \<Rightarrow> (rat \<Rightarrow> string) \<Rightarrow> (pyval \<Rightarrow> string) \<Rightarrow> nat \<Rightarrow> nat \<Rightarrow> pyval
   \<Rightarrow> LineageTable option \<Rightarrow> LineageResponse \<times> LineageTable option" where
  "register_lineage_event stack H fr other max_json_bytes body_size body db =
     (if max_json_bytes < body_size then (Refused 413 ''JSON payload exceeds size limit'', db)
      else (case body of
        PDict payload \<Rightarrow>
          let output = dict_get payload ''outputDigest'' in
          if \<not> truthy output then (Refused 400 ''outputDigest is required'', db)
          else (case output of
            PStr output_digest \<Rightarrow>
              if \<not> app_is_hex_32 output then (Refused 400 ''outputDigest must be a 32-byte hex string'', db)
              else let checked =
                  andthen (canonical_lineage_manifest fr other body) (\<lambda>canonical.
                  andthen (lineage_manifest_digest H fr other body) (\<lambda>digest.
                  andthen (parent_list (dict_get payload ''parentProofIds'')) (\<lambda>parents.
                  let actor = py_str other (dict_get payload ''actorAddress'') in
                  andthen (validate_lineage_graph stack parents 1 actor (Some output_digest)
                             (Some (lineage_parents db))) (\<lambda>_.
                  Inr (canonical, digest, parents, actor)))))
                in (case checked of
                  Inl (LineageValidationError msg) \<Rightarrow> (Refused 400 msg, db)
                | Inl _ \<Rightarrow> (Refused 500 ''internal error'', db)
                | Inr (canonical, digest, parents, actor) \<Rightarrow>
                    if find_lineage_by_output_digest db output_digest \<noteq> None
                    then (Refused 409 ''lineage already registered for this output digest'', db)
                    else (case insert_lineage_event digest output_digest canonical actor parents db of
                        (None, db') \<Rightarrow> (Refused 500 ''failed to record lineage event'', db')
                      | (Some row, db') \<Rightarrow> (Recorded digest row, db')))
          | _ \<Rightarrow> (Refused 400 ''outputDigest must be a 32-byte hex string'', db))
      | _ \<Rightarrow> (Refused 400 ''JSON body is required'', db)))"

subsection \<open>The search decides ancestry\<close>

definition parent_of :: "(string \<Rightarrow> string list option) \<Rightarrow> (string \<times> string) set" where
  "parent_of get = {(a, b). \<exists>ps. get a = Some ps \<and> b \<in> set ps}"

lemma parent_ofI [intro]: "get a = Some ps \<Longrightarrow> b \<in> set ps \<Longrightarrow> (a, b) \<in> parent_of get"
  by (auto simp: parent_of_def)

definition explored :: "(string \<Rightarrow> string list option) \<Rightarrow> string \<Rightarrow> string set \<Rightarrow> string set \<Rightarrow> bool" where
  "explored get target V V' \<longleftrightarrow>
     V \<subseteq> V' \<and> (target \<in> V' \<longrightarrow> target \<in> V) \<and>
     (\<forall>x y. x \<in> V' - V \<longrightarrow> (x, y) \<in> parent_of get \<longrightarrow> y \<in> V')"

lemma explored_trans: "explored get target U V \<Longrightarrow> explored get target V W \<Longrightarrow> explored get target U W"
  unfolding explored_def by blast

lemma explored_insert:
  "explored get target (insert p V) V' \<Longrightarrow> p \<noteq> target \<Longrightarrow> (\<And>y. (p, y) \<in> parent_of get \<Longrightarrow> y \<in> V')
   \<Longrightarrow> explored get target V V'"
  unfolding explored_def by blast

lemma search_sound:
  "contains_in_ancestry n get target V p = Some (b, V') \<Longrightarrow>
     V \<subseteq> V' \<and> (if b then (p, target) \<in> (parent_of get)\<^sup>* else p \<in> V' \<and> explored get target V V')"
  "search_parents n get target V ps = Some (b, V') \<Longrightarrow>
     V \<subseteq> V' \<and> (if b then \<exists>p \<in> set ps. (p, target) \<in> (parent_of get)\<^sup>*
       else set ps \<subseteq> V' \<and> explored get target V V')"
proof (induction n get target V p and n get target V ps arbitrary: b V' and b V'
    rule: contains_in_ancestry_search_parents.induct)
  case (2 n get target V p)
  show ?case
  proof (cases "p \<in> V \<or> p = target \<or> get p = None")
    case True
    then show ?thesis using "2.prems" by (auto simp: explored_def parent_of_def split: if_splits)
  next
    case False
    then obtain ps where ps: "get p = Some ps" by auto
    have IH: "insert p V \<subseteq> V' \<and> (if b then \<exists>q \<in> set ps. (q, target) \<in> (parent_of get)\<^sup>*
        else set ps \<subseteq> V' \<and> explored get target (insert p V) V')"
      using "2.IH" [OF _ _ ps, of b V'] "2.prems" False ps by simp
    show ?thesis
    proof (cases b)
      case True
      then show ?thesis using IH ps by (auto intro: converse_rtrancl_into_rtrancl)
    next
      case found: False
      have "y \<in> V'" if "(p, y) \<in> parent_of get" for y using that IH found ps by (auto simp: parent_of_def)
      then show ?thesis using IH found False explored_insert [of get target p V V'] by simp
    qed
  qed
next
  case (4 n get target V p ps)
  then obtain c W where c: "contains_in_ancestry n get target V p = Some (c, W)"
    by (auto split: option.splits)
  show ?case
  proof (cases c)
    case True
    then show ?thesis using "4.prems" "4.IH"(1) [OF c] c by auto
  next
    case False
    have 1: "V \<subseteq> W \<and> p \<in> W \<and> explored get target V W" using "4.IH"(1) [OF c] False by simp
    have 2: "W \<subseteq> V' \<and> (if b then \<exists>p \<in> set ps. (p, target) \<in> (parent_of get)\<^sup>*
        else set ps \<subseteq> V' \<and> explored get target W V')"
      using "4.IH"(2) [OF c refl False, of b V'] "4.prems" c False by simp
    show ?thesis using 1 2 explored_trans [of get target V W V'] by auto
  qed
qed (auto simp: explored_def)

lemma search_total:
  assumes "finite D" "\<And>p. get p \<noteq> None \<Longrightarrow> p \<in> D"
  shows "card (D - V) < n \<Longrightarrow> contains_in_ancestry n get target V p \<noteq> None"
    and "card (D - V) < n \<Longrightarrow> search_parents n get target V ps \<noteq> None"
  using assms
proof (induction n get target V p and n get target V ps rule: contains_in_ancestry_search_parents.induct)
  case (2 n get target V p)
  show ?case
  proof (cases "p \<in> V \<or> p = target \<or> get p = None")
    case False
    then obtain ps where ps: "get p = Some ps" and "p \<in> D - V" using "2.prems" by auto
    then have "card (D - insert p V) < card (D - V)"
      using "2.prems"(2) by (intro psubset_card_mono) auto
    then show ?thesis using "2.IH" [OF _ _ ps] "2.prems" False ps by auto
  qed auto
next
  case (4 n get target V p ps)
  obtain c W where c: "contains_in_ancestry n get target V p = Some (c, W)" using 4 by auto
  have "V \<subseteq> W" using search_sound(1) [OF c] by simp
  then have "card (D - W) \<le> card (D - V)" using "4.prems"(2) by (intro card_mono) auto
  then show ?case using "4.IH"(2) [OF c refl] "4.prems" c by (cases c) auto
qed auto

lemma closed_rtrancl: "(a, b) \<in> R\<^sup>* \<Longrightarrow> a \<in> S \<Longrightarrow> R `` S \<subseteq> S \<Longrightarrow> b \<in> S"
  by (induction rule: rtrancl_induct) auto

lemma contains_iff_ancestor:
  assumes "contains_in_ancestry n get target {} p = Some (b, V)"
  shows "b \<longleftrightarrow> (p, target) \<in> (parent_of get)\<^sup>*"
proof (cases b)
  case True
  then show ?thesis using search_sound(1) [OF assms] by simp
next
  case False
  then have V: "p \<in> V" "target \<notin> V" "parent_of get `` V \<subseteq> V"
    using search_sound(1) [OF assms] by (auto simp: explored_def)
  then show ?thesis using False closed_rtrancl [OF _ V(1,3)] by auto
qed

lemma any_ancestry_iff:
  assumes "finite D" "\<And>p. get p \<noteq> None \<Longrightarrow> p \<in> D" "card D < n"
  shows "any_ancestry n get target ps = Some (\<exists>p \<in> set ps. (p, target) \<in> (parent_of get)\<^sup>*)"
proof (induction ps)
  case (Cons p ps)
  obtain b V where c: "contains_in_ancestry n get target {} p = Some (b, V)"
    using search_total(1) [where get = get and D = D and V = "{}" and n = n and target = target and p = p, OF assms(1,2)] assms(3) by auto
  then show ?case using Cons contains_iff_ancestor [OF c] by auto
qed simp

subsection \<open>The table stays acyclic\<close>

lemma any_ancestry_False:
  "any_ancestry n get target ps = Some False \<Longrightarrow> p \<in> set ps \<Longrightarrow> (p, target) \<notin> (parent_of get)\<^sup>*"
  by (induction ps) (auto split: option.splits if_splits dest: contains_iff_ancestor)

lemma acyclic_new_node:
  assumes "acyclic R" "\<forall>p \<in> set ps. (p, v) \<notin> R\<^sup>*"
  shows "acyclic (R \<union> {v} \<times> set ps) \<and> (\<forall>q. (q, v) \<notin> R\<^sup>* \<longrightarrow> (q, v) \<notin> (R \<union> {v} \<times> set ps)\<^sup>*)"
  using assms
proof (induction ps)
  case (Cons p ps)
  have "R \<union> {v} \<times> set (p # ps) = insert (v, p) (R \<union> {v} \<times> set ps)" by auto
  then show ?case using Cons by (auto simp: acyclic_insert rtrancl_insert)
qed simp

definition lineage_inv :: "LineageTable option \<Rightarrow> bool" where
  "lineage_inv db \<longleftrightarrow> acyclic (parent_of (lineage_parents db)) \<and>
     (case db of None \<Rightarrow> True | Some t \<Rightarrow> distinct (map lr_output_digest (lt_rows t)))"

lemma find_None_iff_digest: "find (\<lambda>r. f r = d) rows = None \<longleftrightarrow> d \<notin> f ` set rows"
  by (auto simp: find_None_iff)

lemma insert_lineage_inv:
  assumes inv: "lineage_inv db" and new: "find_lineage_by_output_digest db out = None"
    and anc: "\<And>p. p \<in> set ps \<Longrightarrow> (p, out) \<notin> (parent_of (lineage_parents db))\<^sup>*"
  shows "lineage_inv (snd (insert_lineage_event dig out man actor ps db))"
proof (cases db)
  case None
  then show ?thesis using inv by (simp add: insert_lineage_event_def)
next
  case (Some t)
  show ?thesis
  proof (cases "dig \<in> lr_manifest_digest ` set (lt_rows t)")
    case True
    then show ?thesis using inv Some
      by (simp add: insert_lineage_event_def lineage_inv_def parent_of_def lineage_parents_def
          find_lineage_by_output_digest_def)
  next
    case False
    let ?db = "snd (insert_lineage_event dig out man actor ps db)"
    have fresh: "out \<notin> lr_output_digest ` set (lt_rows t)"
      using new Some by (simp add: find_lineage_by_output_digest_def find_None_iff_digest)
    have "lineage_parents ?db = (lineage_parents db)(out \<mapsto> ps)"
      using new False Some by (auto simp: fun_eq_iff insert_lineage_event_def lineage_parents_def
          find_lineage_by_output_digest_def find_append Let_def split: option.splits)
    moreover have "lineage_parents db out = None" using new by (simp add: lineage_parents_def)
    ultimately have "parent_of (lineage_parents ?db) = parent_of (lineage_parents db) \<union> {out} \<times> set ps"
      by (auto simp: parent_of_def split: if_splits)
    then show ?thesis
      using inv acyclic_new_node [of "parent_of (lineage_parents db)" ps out] anc fresh False Some
      by (auto simp: lineage_inv_def insert_lineage_event_def Let_def)
  qed
qed

lemma register_lineage_cases:
  obtains (same) "snd (register_lineage_event stack H fr other mx sz body db) = db"
  | (inserted) dig out man actor ps where "find_lineage_by_output_digest db out = None"
      "any_ancestry stack (lineage_parents db) out ps = Some False"
      "snd (register_lineage_event stack H fr other mx sz body db)
        = snd (insert_lineage_event dig out man actor ps db)"
proof (cases "snd (register_lineage_event stack H fr other mx sz body db) = db")
  case False
  then obtain out man dig ps actor where
      "find_lineage_by_output_digest db out = None"
      "validate_lineage_graph stack ps 1 actor (Some out) (Some (lineage_parents db)) = Inr ()" "out \<noteq> []"
      "snd (register_lineage_event stack H fr other mx sz body db)
        = snd (insert_lineage_event dig out man actor ps db)"
    by (auto simp: register_lineage_event_def Let_def andthen_eq_Inr andthen_eq_Inl
        split: if_splits pyval.splits sum.splits LineageError.splits prod.splits option.splits)
      (metis snd_conv)+
  then show thesis
    by (intro inserted [of out ps dig man actor])
      (auto simp: validate_lineage_graph_def andthen_eq_Inr split: list.splits option.splits)
qed

text \<open>A request: interpreter stack, payload size limit, body size, body.\<close>

type_synonym lineage_request = "nat \<times> nat \<times> nat \<times> pyval"

definition lineage_step ::
  "(bytes \<Rightarrow> bytes) \<Rightarrow> (rat \<Rightarrow> string) \<Rightarrow> (pyval \<Rightarrow> string) \<Rightarrow> LineageTable option \<Rightarrow> lineage_request
   \<Rightarrow> LineageTable option \<Rightarrow> bool" where
  "lineage_step H fr other db req db' \<longleftrightarrow>
     (case req of (stack, mx, sz, body) \<Rightarrow> db' = snd (register_lineage_event stack H fr other mx sz body db))"

definition lineage_init :: "LineageTable option \<Rightarrow> bool" where
  "lineage_init db \<longleftrightarrow> (case db of None \<Rightarrow> True | Some t \<Rightarrow> lt_rows t = [])"

interpretation lineage: invariant_system lineage_init "lineage_step H fr other" lineage_inv for H fr other
proof
  fix db assume "lineage_init db"
  then show "lineage_inv db"
    by (auto simp: lineage_init_def lineage_inv_def parent_of_def lineage_parents_def acyclic_def
        find_lineage_by_output_digest_def split: option.splits)
next
  fix db req db' assume inv: "lineage_inv db" and step: "lineage_step H fr other db req db'"
  obtain stack mx sz body where req: "req = (stack, mx, sz, body)" by (cases req)
  show "lineage_inv db'"
  proof (cases stack H fr other mx sz body db rule: register_lineage_cases)
    case same
    then show ?thesis using inv step by (simp add: lineage_step_def req)
  next
    case (inserted dig out man actor ps)
    then show ?thesis
      using insert_lineage_inv [OF inv inserted(1), of ps] any_ancestry_False [OF inserted(2)] step
      by (simp add: lineage_step_def req)
  qed
qed

lemma lineage_parents_domain:
  "lineage_parents (Some t) p \<noteq> None \<Longrightarrow> p \<in> lr_output_digest ` set (lt_rows t)"
  by (auto simp: lineage_parents_def find_lineage_by_output_digest_def find_Some_iff)

subsection \<open>Properties\<close>


text \<open>
  C23: the ancestry search always answers, and correctly. Given more stack frames than the table has
  rows, it returns, and it returns true exactly when the target is the proof itself or an
  ancestor of it, cycles in the table included.
\<close>

theorem ancestry_search_correct:
  assumes "length (lt_rows t) < stack"
  shows "\<exists>visited. contains_in_ancestry stack (lineage_parents (Some t)) target {} proof_id =
     Some ((proof_id, target) \<in> (parent_of (lineage_parents (Some t)))\<^sup>*, visited)"
proof -
  let ?get = "lineage_parents (Some t)" and ?D = "lr_output_digest ` set (lt_rows t)"
  have "card ?D \<le> length (lt_rows t)" by (metis card_length image_set length_map)
  then have "contains_in_ancestry stack ?get target {} proof_id \<noteq> None"
    using search_total(1) [of ?D ?get "{}" stack target proof_id] lineage_parents_domain [of t] assms
    by fastforce
  then obtain b V where c: "contains_in_ancestry stack ?get target {} proof_id = Some (b, V)" by auto
  show ?thesis using c contains_iff_ancestor [OF c] by auto
qed

definition sample_row :: "string \<Rightarrow> string list \<Rightarrow> LineageRow" where
  "sample_row out ps = \<lparr>lr_id = 1, lr_manifest_digest = out, lr_output_digest = out, lr_manifest = [],
     lr_actor_address = ''a'', lr_parent_proof_ids = ps\<rparr>"

theorem ancestry_search_correct_witness:
  "\<exists>visited. contains_in_ancestry 3 (lineage_parents (Some \<lparr>lt_rows =
       [sample_row ''b'' [''c'', ''a''], sample_row ''a'' [''b'']], lt_next_id = 3\<rparr>)) ''c'' {} ''a'' =
     Some ((''a'', ''c'') \<in> (parent_of (lineage_parents (Some \<lparr>lt_rows =
       [sample_row ''b'' [''c'', ''a''], sample_row ''a'' [''b'']], lt_next_id = 3\<rparr>)))\<^sup>*, visited)"
  using ancestry_search_correct [of "\<lparr>lt_rows =
       [sample_row ''b'' [''c'', ''a''], sample_row ''a'' [''b'']], lt_next_id = 3\<rparr>" 3 "''c''" "''a''"]
  by simp

text \<open>The fields of a manifest that its canonical text is about.\<close>

definition lineage_fields ::
  "(pyval \<Rightarrow> string) \<Rightarrow> (string \<times> pyval) list \<Rightarrow> pyval \<times> pyval \<times> pyval list" where
  "lineage_fields other d =
     (dict_get d ''parentProofIds'', dict_get d ''operationType'',
      map (field_str other d) [''parametersDigest'', ''toolIdentity'', ''toolVersion'', ''outputDigest'',
        ''network'', ''actorAddress''])"

lemma inj_PStr: "inj PStr"
  by (rule injI) simp

lemma parent_list_Inr:
  assumes "parent_list v = Inr ps"
  shows "v = PList (map PStr ps)"
proof (cases v)
  case (PList xs)
  then have all: "list_all (\<lambda>p. case p of PStr s \<Rightarrow> is_hex_32 s | _ \<Rightarrow> False) xs"
      and ps: "ps = map (\<lambda>p. case p of PStr s \<Rightarrow> s | _ \<Rightarrow> []) xs"
    using assms by (simp_all add: parent_list_def split: list.splits if_splits)
  have "map PStr ps = xs"
    unfolding ps using all by (induction xs) (auto split: pyval.splits)
  then show ?thesis using PList by simp
qed (use assms in \<open>simp_all add: parent_list_def\<close>)

lemma canonical_lineage_manifest_Inr:
  assumes "canonical_lineage_manifest fr other (PDict d) = Inr c"
  shows "\<exists>ps op. dict_get d ''parentProofIds'' = PList (map PStr ps) \<and> dict_get d ''operationType'' = PStr op
     \<and> c = dumps (True, fr) (PDict (normalized_manifest other d ps op))"
proof -
  obtain ps op where "parent_list (dict_get d ''parentProofIds'') = Inr ps"
      "operation_supported (dict_get d ''operationType'') = Inr op"
      "c = dumps (True, fr) (PDict (normalized_manifest other d ps op))"
    using assms by (auto simp: canonical_lineage_manifest_def andthen_eq_Inr split: if_splits)
  then show ?thesis
    by (auto simp: operation_supported_def dest!: parent_list_Inr split: pyval.splits if_splits)
qed

lemma normalized_inj:
  assumes "canon (PDict (normalized_manifest other d ps op)) = canon (PDict (normalized_manifest other e qs oq))"
  shows "ps = qs \<and> op = oq \<and> (\<forall>k \<in> {''parametersDigest'', ''toolIdentity'', ''toolVersion'', ''outputDigest'',
     ''network'', ''actorAddress''}. field_str other d k = field_str other e k)"
proof -
  let ?N = "normalized_manifest other d ps op" and ?M = "normalized_manifest other e qs oq"
  have dist: "distinct (map fst (normalized_manifest other d ps op))" for d ps op
    by (simp add: normalized_manifest_def)
  have eq: "map_option canon (map_of ?N k) = map_option canon (map_of ?M k)" for k
    by (rule canon_dict_lookup [OF assms dist dist])
  have "canon \<circ> PStr = PStr" by (simp add: fun_eq_iff)
  then have "map PStr ps = map PStr qs" using eq [of "''parentProofIds''"]
    by (simp add: normalized_manifest_def)
  then have 1: "ps = qs" by (rule map_injective [OF _ inj_PStr])
  have 2: "op = oq" using eq [of "''operationType''"] by (simp add: normalized_manifest_def)
  have "canon (field_str other x k) = field_str other x k" for x k by (simp add: field_str_def)
  then show ?thesis
    using 1 2 eq [of "''parametersDigest''"] eq [of "''toolIdentity''"] eq [of "''toolVersion''"]
      eq [of "''outputDigest''"] eq [of "''network''"] eq [of "''actorAddress''"]
    by (simp add: normalized_manifest_def)
qed

lemma no_float_normalized: "no_float (PDict (normalized_manifest other d ps op))"
  by (simp add: normalized_manifest_def field_str_def list_all_iff)

text \<open>
  C24: the canonical text identifies the lineage. Two accepted manifests have the same canonical
  text exactly when they have the same parents, the same operation and the same six described
  fields; the order of their entries and any additional entries do not matter.
\<close>

theorem canonical_manifest_determines:
  assumes "canonical_lineage_manifest fr other (PDict d) = Inr c"
    and "canonical_lineage_manifest fr other (PDict e) = Inr c'"
  shows "c = c' \<longleftrightarrow> lineage_fields other d = lineage_fields other e"
proof -
  obtain ps op where d: "dict_get d ''parentProofIds'' = PList (map PStr ps)"
      "dict_get d ''operationType'' = PStr op" "c = dumps (True, fr) (PDict (normalized_manifest other d ps op))"
    using canonical_lineage_manifest_Inr [OF assms(1)] by blast
  obtain qs oq where e: "dict_get e ''parentProofIds'' = PList (map PStr qs)"
      "dict_get e ''operationType'' = PStr oq" "c' = dumps (True, fr) (PDict (normalized_manifest other e qs oq))"
    using canonical_lineage_manifest_Inr [OF assms(2)] by blast
  have fields: "lineage_fields other d = lineage_fields other e \<longleftrightarrow> ps = qs \<and> op = oq \<and>
      (\<forall>k \<in> {''parametersDigest'', ''toolIdentity'', ''toolVersion'', ''outputDigest'',
        ''network'', ''actorAddress''}. field_str other d k = field_str other e k)"
    by (auto simp: lineage_fields_def d e dest: map_injective [OF _ inj_PStr])
  have "c = c' \<longleftrightarrow> canon (PDict (normalized_manifest other d ps op)) = canon (PDict (normalized_manifest other e qs oq))"
    unfolding d e by (rule dumps_inj [OF no_float_normalized no_float_normalized])
  also have "\<dots> \<longleftrightarrow> lineage_fields other d = lineage_fields other e"
  proof
    assume "lineage_fields other d = lineage_fields other e"
    then have "normalized_manifest other d ps op = normalized_manifest other e qs oq"
      unfolding fields by (simp add: normalized_manifest_def)
    then show "canon (PDict (normalized_manifest other d ps op)) = canon (PDict (normalized_manifest other e qs oq))"
      by simp
  next
    assume "canon (PDict (normalized_manifest other d ps op)) = canon (PDict (normalized_manifest other e qs oq))"
    from normalized_inj [OF this] show "lineage_fields other d = lineage_fields other e"
      unfolding fields .
  qed
  finally show ?thesis .
qed

definition sample_manifest :: "(string \<times> pyval) list" where
  "sample_manifest =
     [(''operationType'', PStr ''crop''),
      (''parentProofIds'', PList [PStr (tohex (replicate 32 1))]),
      (''parametersDigest'', PStr ''p''), (''toolIdentity'', PStr ''t''), (''toolVersion'', PStr ''1''),
      (''outputDigest'', PStr (tohex (replicate 32 2))), (''network'', PStr ''n''), (''actorAddress'', PStr ''a'')]"

lemma sample_manifest_size: "length (dumps (True, \<lambda>_. []) (PDict sample_manifest)) \<le> 4096"
  by code_simp

lemma sample_parents: "parent_list (PList [PStr (tohex (replicate 32 1))]) = Inr [tohex (replicate 32 1)]"
proof -
  have "list_all (\<lambda>ch. ch \<in> set HEX_DIGITS) (tohex (replicate 32 1))"
    using list_all_is_hex_tohex [of "replicate 32 1"] unfolding list_all_iff using is_hex_iff by blast
  then show ?thesis by (simp add: parent_list_def MAX_LINEAGE_FANOUT_def is_hex_32_def)
qed

lemma sample_canonical:
  assumes "mset d = mset sample_manifest"
  shows "\<exists>c. canonical_lineage_manifest (\<lambda>_. []) (\<lambda>_. []) (PDict d) = Inr c"
proof -
  have dist: "distinct (map fst sample_manifest)" by (simp add: sample_manifest_def)
  have "distinct (map fst d)" using assms dist by (metis mset_eq_imp_distinct_iff mset_map)
  then have get: "dict_get d k = dict_get sample_manifest k" for k
    using map_of_inject_set [of d sample_manifest] dist mset_eq_setD [OF assms] by (simp add: dict_get_def)
  have "dumps (True, \<lambda>_. []) (PDict d) = dumps (True, \<lambda>_. []) (PDict sample_manifest)"
    unfolding dumps_def using canon_perm [OF assms [symmetric] dist] by simp
  moreover have "fst ` set d = fst ` set sample_manifest" using mset_eq_setD [OF assms] by simp
  moreover have "dict_get sample_manifest ''parentProofIds'' = PList [PStr (tohex (replicate 32 1))]"
    "dict_get sample_manifest ''operationType'' = PStr ''crop''"
    by (simp_all add: dict_get_def sample_manifest_def)
  ultimately show ?thesis
    using sample_manifest_size
    by (simp add: canonical_lineage_manifest_def get sample_parents operation_supported_def
        SUPPORTED_OPERATIONS_def MAX_LINEAGE_PAYLOAD_BYTES_def REQUIRED_FIELDS_def)
      (simp add: sample_manifest_def)
qed

theorem canonical_manifest_determines_witness:
  "\<exists>c c'. canonical_lineage_manifest (\<lambda>_. []) (\<lambda>_. []) (PDict sample_manifest) = Inr c \<and>
     canonical_lineage_manifest (\<lambda>_. []) (\<lambda>_. []) (PDict (rev sample_manifest)) = Inr c' \<and> c = c'"
proof -
  obtain c c' where c: "canonical_lineage_manifest (\<lambda>_. []) (\<lambda>_. []) (PDict sample_manifest) = Inr c"
      "canonical_lineage_manifest (\<lambda>_. []) (\<lambda>_. []) (PDict (rev sample_manifest)) = Inr c'"
    using sample_canonical [of sample_manifest] sample_canonical [of "rev sample_manifest"] by auto
  have "lineage_fields (\<lambda>_. []) sample_manifest = lineage_fields (\<lambda>_. []) (rev sample_manifest)"
    by (simp add: lineage_fields_def field_str_def sample_manifest_def dict_get_def)
  then show ?thesis using canonical_manifest_determines [OF c] c by blast
qed

lemma sample_output_hex: "app_is_hex_32 (PStr (tohex (replicate 32 2)))"
proof -
  have "tohex (replicate 32 2) \<noteq> []" by (simp add: replicate_numeral_Cons)
  then show ?thesis using hex_text_py_int [OF list_all_is_hex_tohex] by (simp add: app_is_hex_32_def)
qed

lemma validate_empty_table:
  assumes "out \<noteq> []" "p \<noteq> out" "actor \<noteq> []"
  shows "validate_lineage_graph (Suc n) [p] 1 actor (Some out)
    (Some (lineage_parents (Some \<lparr>lt_rows = [], lt_next_id = k\<rparr>))) = Inr ()"
  using assms
  by (cases out) (auto simp: validate_lineage_graph_def MAX_LINEAGE_DEPTH_def MAX_LINEAGE_FANOUT_def
      lineage_parents_def find_lineage_by_output_digest_def)


end
