(* ===== verification/Base64.thy ===== *)
theory Base64
  imports Prelude
begin

text \<open>
  URL-safe base64 as Python's \<^verbatim>\<open>base64\<close> module has it: \<^verbatim>\<open>urlsafe_b64encode\<close>, and the lenient
  \<^verbatim>\<open>urlsafe_b64decode\<close>, which skips characters outside the alphabet, stops at complete padding and
  fails when characters are left over. The decoder inverts the encoder.
\<close>

definition B64_ALPHABET :: string where
  "B64_ALPHABET = ''ABCDEFGHIJKLMNOPQRSTUVWXYZabcdefghijklmnopqrstuvwxyz0123456789-_''"

definition b64_char :: "nat \<Rightarrow> char" where
  "b64_char n = B64_ALPHABET ! n"

fun position_of :: "'a \<Rightarrow> 'a list \<Rightarrow> nat option" where
  "position_of c [] = None"
| "position_of c (x # xs) = (if x = c then Some 0 else map_option Suc (position_of c xs))"

text \<open>Decoding also takes the characters of the standard alphabet.\<close>

definition b64_val :: "char \<Rightarrow> nat option" where
  "b64_val c =
     (if c = CHR ''+'' then Some 62 else if c = CHR ''/'' then Some 63 else position_of c B64_ALPHABET)"

fun b64encode :: "bytes \<Rightarrow> string" where
  "b64encode [] = []"
| "b64encode [a] = [b64_char (unat a div 4), b64_char (unat a mod 4 * 16), CHR ''='', CHR ''='']"
| "b64encode [a, b] =
     [b64_char (unat a div 4), b64_char (unat a mod 4 * 16 + unat b div 16),
      b64_char (unat b mod 16 * 4), CHR ''='']"
| "b64encode (a # b # c # bs) =
     [b64_char (unat a div 4), b64_char (unat a mod 4 * 16 + unat b div 16),
      b64_char (unat b mod 16 * 4 + unat c div 64), b64_char (unat c mod 64)] @ b64encode bs"

text \<open>
  The decoder's loop: characters read of the current group of four, the bits left over from the last
  one, the padding characters seen, and the output.
\<close>

fun b64_loop :: "nat \<Rightarrow> nat \<Rightarrow> nat \<Rightarrow> bytes \<Rightarrow> string \<Rightarrow> bytes option" where
  "b64_loop q left pads out [] = (if q = 0 then Some out else None)"
| "b64_loop q left pads out (ch # cs) =
     (if ch = CHR ''='' then
        (if 2 \<le> q then if 4 \<le> q + (pads + 1) then Some out else b64_loop q left (pads + 1) out cs
         else b64_loop q left pads out cs)
      else (case b64_val ch of
          None \<Rightarrow> b64_loop q left pads out cs
        | Some v \<Rightarrow>
            if q = 0 then b64_loop 1 v 0 out cs
            else if q = 1 then b64_loop 2 (v mod 16) 0 (out @ [of_nat (left * 4 + v div 16)]) cs
            else if q = 2 then b64_loop 3 (v mod 4) 0 (out @ [of_nat (left * 16 + v div 4)]) cs
            else b64_loop 0 0 0 (out @ [of_nat (left * 64 + v)]) cs))"

definition b64decode :: "string \<Rightarrow> bytes option" where
  "b64decode s = b64_loop 0 0 0 [] s"

lemma position_of_nth: "distinct xs \<Longrightarrow> i < length xs \<Longrightarrow> position_of (xs ! i) xs = Some i"
  by (induction xs arbitrary: i) (auto simp: nth_Cons split: nat.splits)

lemma alphabet_facts: "distinct B64_ALPHABET" "length B64_ALPHABET = 64"
    "list_all (\<lambda>c. c \<noteq> CHR ''='' \<and> c \<noteq> CHR ''+'' \<and> c \<noteq> CHR ''/'') B64_ALPHABET"
  by (simp_all add: B64_ALPHABET_def)

lemma b64_char_facts:
  assumes "n < 64"
  shows "b64_char n \<noteq> CHR ''=''" "b64_val (b64_char n) = Some n"
proof -
  have "b64_char n \<noteq> CHR ''='' \<and> b64_char n \<noteq> CHR ''+'' \<and> b64_char n \<noteq> CHR ''/''"
    using alphabet_facts(2,3) assms by (simp add: b64_char_def list_all_length)
  then show "b64_char n \<noteq> CHR ''=''" "b64_val (b64_char n) = Some n"
    using position_of_nth [OF alphabet_facts(1)] alphabet_facts(2) assms
    by (simp_all add: b64_val_def b64_char_def)
qed

lemma sextet_bounds:
  "unat (a :: byte) div 4 < 64" "unat a mod 4 * 16 < 64" "unat b mod 16 * 4 < 64"
  "unat a mod 4 * 16 + unat (b :: byte) div 16 < 64" "unat b mod 16 * 4 + unat (c :: byte) div 64 < 64"
  "unat c mod 64 < 64"
proof -
  have l: "unat a < 256" "unat b < 256" "unat c < 256" by (rule unat_byte_less)+
  then show "unat a div 4 < 64" by (simp add: less_mult_imp_div_less)
  have "unat a mod 4 < 4" "unat b mod 16 < 16" "unat b div 16 < 16" "unat c div 64 < 4"
    using l by (simp_all add: less_mult_imp_div_less)
  then show "unat a mod 4 * 16 < 64" "unat b mod 16 * 4 < 64"
    "unat a mod 4 * 16 + unat b div 16 < 64" "unat b mod 16 * 4 + unat c div 64 < 64" by linarith+
  show "unat c mod 64 < 64" by simp
qed

lemma sextet_join:
  fixes a b c :: byte
  shows "unat a div 4 * 4 + (unat a mod 4 * 16 + unat b div 16) div 16 = unat a"
    "(unat a mod 4 * 16 + unat b div 16) mod 16 * 16 + (unat b mod 16 * 4 + unat c div 64) div 4 = unat b"
    "(unat b mod 16 * 4 + unat c div 64) mod 4 * 64 + unat c mod 64 = unat c"
    "unat a div 4 * 4 + unat a mod 4 * 16 div 16 = unat a"
    "(unat a mod 4 * 16 + unat b div 16) mod 16 * 16 + unat b mod 16 * 4 div 4 = unat b"
proof -
  have "unat b div 16 < 16" "unat c div 64 < 4"
    using unat_byte_less [of b] unat_byte_less [of c] by (simp_all add: less_mult_imp_div_less)
  then have "(unat a mod 4 * 16 + unat b div 16) div 16 = unat a mod 4"
    "(unat a mod 4 * 16 + unat b div 16) mod 16 = unat b div 16"
    "(unat b mod 16 * 4 + unat c div 64) div 4 = unat b mod 16"
    "(unat b mod 16 * 4 + unat c div 64) mod 4 = unat c div 64" by simp_all
  then show "unat a div 4 * 4 + (unat a mod 4 * 16 + unat b div 16) div 16 = unat a"
    "(unat a mod 4 * 16 + unat b div 16) mod 16 * 16 + (unat b mod 16 * 4 + unat c div 64) div 4 = unat b"
    "(unat b mod 16 * 4 + unat c div 64) mod 4 * 64 + unat c mod 64 = unat c"
    "unat a div 4 * 4 + unat a mod 4 * 16 div 16 = unat a"
    "(unat a mod 4 * 16 + unat b div 16) mod 16 * 16 + unat b mod 16 * 4 div 4 = unat b"
    by (simp_all only: nonzero_mult_div_cancel_right div_mult_mod_eq)
qed

lemma b64_loop_encode: "b64_loop 0 0 0 out (b64encode bs) = Some (out @ bs)"
proof (induction bs arbitrary: out rule: b64encode.induct)
  case (2 a)
  then show ?case by (simp add: b64_char_facts sextet_bounds sextet_join)
next
  case (3 a b)
  then show ?case by (simp add: b64_char_facts sextet_bounds sextet_join)
next
  case (4 a b c bs)
  define x y z w where d: "x = unat a div 4" "y = unat a mod 4 * 16 + unat b div 16"
    "z = unat b mod 16 * 4 + unat c div 64" "w = unat c mod 64"
  have lt: "x < 64" "y < 64" "z < 64" "w < 64" unfolding d by (rule sextet_bounds)+
  have "x * 4 + y div 16 = unat a" "y mod 16 * 16 + z div 4 = unat b" "z mod 4 * 64 + w = unat c"
    unfolding d by (rule sextet_join)+
  then have "of_nat (x * 4 + y div 16) = a" "of_nat (y mod 16 * 16 + z div 4) = b" "of_nat (z mod 4 * 64 + w) = c"
    by simp_all
  then show ?case using 4 lt
    by (simp add: b64_char_facts flip: d del: of_nat_add of_nat_mult of_nat_mod)
qed simp

lemma b64decode_encode [simp]: "b64decode (b64encode bs) = Some bs"
  by (simp add: b64decode_def b64_loop_encode)

lemma length_b64encode: "length (b64encode bs) mod 4 = 0"
  by (induction bs rule: b64encode.induct) auto

text \<open>Encoded text is printable ASCII without white space.\<close>

lemma b64_char_plain: "n < 64 \<Longrightarrow> \<not> is_space (b64_char n) \<and> char_code (b64_char n) < 128"
proof -
  have "list_all (\<lambda>c. \<not> is_space c \<and> char_code c < 128) B64_ALPHABET"
    by (simp add: B64_ALPHABET_def is_space_def char_code_def)
  then show "n < 64 \<Longrightarrow> \<not> is_space (b64_char n) \<and> char_code (b64_char n) < 128"
    using alphabet_facts(2) by (simp add: b64_char_def list_all_length)
qed

lemma b64encode_plain: "list_all (\<lambda>c. \<not> is_space c \<and> char_code c < 128) (b64encode bs)"
proof -
  have "\<not> is_space CHR ''='' \<and> char_code CHR ''='' < 128" by (simp add: is_space_def char_code_def)
  then show ?thesis
    by (induction bs rule: b64encode.induct) (simp_all add: b64_char_plain sextet_bounds)
qed

lemma b64encode_Nil_iff [simp]: "b64encode bs = [] \<longleftrightarrow> bs = []"
  by (cases bs rule: b64encode.cases) auto

section \<open>Strict decoding of the standard alphabet\<close>

text \<open>\<^verbatim>\<open>base64.b64decode(text, validate=True)\<close>: complete groups of four, padding only at the very end.\<close>

definition STD_ALPHABET :: string where
  "STD_ALPHABET = ''ABCDEFGHIJKLMNOPQRSTUVWXYZabcdefghijklmnopqrstuvwxyz0123456789+/''"

definition std_val :: "char \<Rightarrow> nat option" where
  "std_val c = position_of c STD_ALPHABET"

fun b64_strict :: "string \<Rightarrow> bytes option" where
  "b64_strict [] = Some []"
| "b64_strict (a # b # c # d # rest) =
     (case (std_val a, std_val b) of
        (Some x, Some y) \<Rightarrow>
          if d = CHR ''='' \<and> rest = [] then
            (if c = CHR ''='' then Some [of_nat (x * 4 + y div 16)]
             else (case std_val c of
                None \<Rightarrow> None
              | Some z \<Rightarrow> Some [of_nat (x * 4 + y div 16), of_nat (y mod 16 * 16 + z div 4)]))
          else (case (std_val c, std_val d) of
              (Some z, Some w) \<Rightarrow>
                map_option (\<lambda>bs. of_nat (x * 4 + y div 16) # of_nat (y mod 16 * 16 + z div 4) # of_nat (z mod 4 * 64 + w) # bs)
                  (b64_strict rest)
            | _ \<Rightarrow> None)
      | _ \<Rightarrow> None)"
| "b64_strict _ = None"

lemma b64_strict_head:
  assumes "b64_strict (a # s) = Some data"
  shows "\<exists>x y bs. std_val a = Some x \<and> y < 4 \<and> data = of_nat (x * 4 + y) # bs"
proof -
  have "v < 64" if "std_val c = Some v" for c v
  proof -
    have "position_of c xs = Some i \<Longrightarrow> i < length xs" for xs :: string and i
      by (induction xs arbitrary: i) (auto split: if_splits)
    from this [of STD_ALPHABET v] show ?thesis using that by (simp add: std_val_def STD_ALPHABET_def)
  qed
  then have "y div 16 < 4" if "std_val c = Some y" for c y using that by fastforce
  then show ?thesis using assms
    by (cases "a # s" rule: b64_strict.cases) (auto split: option.splits if_splits)
qed

end
