(* ===== verification/Proof_Store.thy ===== *)
theory Proof_Store
  imports Base64
begin

text \<open>
  The proof-event store, after the \<^verbatim>\<open>proof_events\<close> part of \<^verbatim>\<open>src/backend/db.py\<close>: cursors and keyset
  pagination, idempotent registration, ownership, transaction status, legal hold, the purge with
  its receipts, history events, indexed on-chain events and the indexer cursor. A table is the
  list of its rows, each SQL statement one operation on that list, committed as a whole; \<open>now\<close> is
  the database clock. \<^verbatim>\<open>database_url()\<close> is the flag \<open>st_configured\<close>. JSON columns are opaque values,
  SHA-256 is \<open>H\<close>.

  The invariant says that ids grow and that the unique indexes hold; every operation keeps it.
  On top of it: cursors round-trip, following the cursors visits every row once even while rows
  are inserted, registration is idempotent, ownership and terminal statuses are stable, and the
  purge removes exactly the expired rows without legal hold.
\<close>

subsection \<open>Rows and tables\<close>

record ProofEvent =
  pe_id :: int
  pe_event_type :: string
  pe_file_name :: "string option"
  pe_video_hash :: "string option"
  pe_metadata_hash :: "string option"
  pe_proof_id :: "string option"
  pe_tier :: "string option"
  pe_embedded_hash :: "string option"
  pe_tx_hash :: "string option"
  pe_tx_status :: "string option"
  pe_source_address :: "string option"
  pe_contract_id :: "string option"
  pe_retention_class :: "string option"
  pe_expires_at :: "rat option"
  pe_legal_hold :: bool
  pe_metadata :: "pyval option"
  pe_time_attestation :: "pyval option"
  pe_claimed_capture_time :: "string option"
  pe_idempotency_key :: "string option"
  pe_event_index :: "int option"
  pe_created_at :: rat

record DeletionReceipt =
  dr_event_id :: int
  dr_proof_id :: "string option"
  dr_video_hash :: "string option"
  dr_metadata_hash :: "string option"
  dr_deleted_at :: rat

record HistoryEvent =
  he_id :: int
  he_proof_id :: string
  he_action :: string
  he_actor :: "string option"
  he_reason_code :: int
  he_contract_id :: "string option"
  he_tx_hash :: "string option"
  he_tx_status :: "string option"
  he_created_at :: rat

text \<open>The last three fields are the in-memory tables used when no database is configured.\<close>

record Store =
  st_configured :: bool
  st_rows :: "ProofEvent list"
  st_next_id :: int
  st_receipts :: "DeletionReceipt list"
  st_history :: "HistoryEvent list"
  st_next_history_id :: int
  st_indexer_state :: "string \<rightharpoonup> string \<times> int option"
  st_indexed_events :: "((string \<times> int) \<times> ProofEvent) list"
  st_mock_indexed_id :: int
  st_memory_state :: "string \<rightharpoonup> string \<times> int option"

definition empty_store :: "bool \<Rightarrow> Store" where
  "empty_store configured =
     \<lparr>st_configured = configured, st_rows = [], st_next_id = 1, st_receipts = [], st_history = [],
      st_next_history_id = 1, st_indexer_state = Map.empty, st_indexed_events = [],
      st_mock_indexed_id = 100000, st_memory_state = Map.empty\<rparr>"

datatype StoreError =
    ConflictError string string "string option" "string option"
  | UniqueViolation
  | RuntimeError string
  | ValueError string

subsection \<open>Cursors and pages\<close>

definition PROOF_EVENTS_MAX_LIMIT :: int where
  "PROOF_EVENTS_MAX_LIMIT = 100"

definition RETENTION_BATCH_MAX_SIZE :: int where
  "RETENTION_BATCH_MAX_SIZE = 5000"

definition encode_proof_events_cursor :: "int \<Rightarrow> string" where
  "encode_proof_events_cursor event_id = b64encode (encode_ascii (str_int event_id))"

definition decode_ascii :: "bytes \<Rightarrow> string" where
  "decode_ascii bs = map (\<lambda>b. char_of (unat b)) bs"

definition decode_proof_events_cursor :: "pyval \<Rightarrow> string + int" where
  "decode_proof_events_cursor v =
     (case v of
        PStr cursor \<Rightarrow>
          if py_strip cursor = [] \<or> list_ex (\<lambda>c. 128 \<le> char_code c) cursor then Inl ''invalid cursor''
          else let padded = cursor @ replicate (nat ((- int (length cursor)) mod 4)) CHR ''='' in
            (case b64decode padded of
               None \<Rightarrow> Inl ''invalid cursor''
             | Some raw \<Rightarrow>
                 if list_ex (\<lambda>b. 128 \<le> unat b) raw then Inl ''invalid cursor''
                 else (case py_int 10 (decode_ascii raw) of
                    None \<Rightarrow> Inl ''invalid cursor''
                  | Some event_id \<Rightarrow> if event_id < 1 then Inl ''invalid cursor'' else Inr event_id))
      | _ \<Rightarrow> Inl ''invalid cursor'')"

definition clamp_proof_events_limit :: "int \<Rightarrow> int" where
  "clamp_proof_events_limit limit = max 1 (min limit PROOF_EVENTS_MAX_LIMIT)"

text \<open>\<open>order by id desc\<close> and \<open>order by id asc\<close>.\<close>

definition id_desc :: "ProofEvent list \<Rightarrow> ProofEvent list" where
  "id_desc rows = rev (sort_key pe_id rows)"

definition id_asc :: "ProofEvent list \<Rightarrow> ProofEvent list" where
  "id_asc rows = sort_key pe_id rows"

text \<open>The page cut and the next cursor, the same in both listing functions.\<close>

definition cut_page :: "int \<Rightarrow> ProofEvent list \<Rightarrow> ProofEvent list \<times> string option" where
  "cut_page page_size rows =
     (if page_size < int (length rows)
      then let rows = take (nat page_size) rows
           in (rows, Some (encode_proof_events_cursor (pe_id (last rows))))
      else (rows, None))"

definition before :: "int option \<Rightarrow> ProofEvent \<Rightarrow> bool" where
  "before cursor_id r = (case cursor_id of None \<Rightarrow> True | Some c \<Rightarrow> pe_id r < c)"

definition list_proof_events :: "int \<Rightarrow> int option \<Rightarrow> Store \<Rightarrow> ProofEvent list \<times> string option" where
  "list_proof_events limit cursor_id st =
     (if \<not> st_configured st then ([], None)
      else let page_size = clamp_proof_events_limit limit; fetch_size = page_size + 1
           in cut_page page_size
                (take (nat fetch_size) (id_desc (filter (before cursor_id) (st_rows st)))))"

definition find_proof_events_by_video ::
  "string \<Rightarrow> int \<Rightarrow> int option \<Rightarrow> Store \<Rightarrow> ProofEvent list \<times> string option" where
  "find_proof_events_by_video video_hash limit cursor_id st =
     (if \<not> st_configured st then ([], None)
      else let page_size = clamp_proof_events_limit limit; fetch_size = page_size + 1
           in cut_page page_size
                (take (nat fetch_size) (id_desc
                  (filter (\<lambda>r. pe_video_hash r = Some video_hash \<and> before cursor_id r) (st_rows st)))))"

definition find_proof_events_by_proof_id :: "string \<Rightarrow> Store \<Rightarrow> ProofEvent list" where
  "find_proof_events_by_proof_id proof_id st =
     (if \<not> st_configured st
      then filter (\<lambda>r. pe_proof_id r = Some proof_id) (map snd (st_indexed_events st))
      else id_desc (filter (\<lambda>r. pe_proof_id r = Some proof_id) (st_rows st)))"

definition find_proof_owner :: "string \<Rightarrow> Store \<Rightarrow> string option" where
  "find_proof_owner proof_id st =
     (if \<not> st_configured st then None
      else (case filter (\<lambda>r. pe_proof_id r = Some proof_id \<and> pe_event_type r = ''register''
                            \<and> pe_source_address r \<noteq> None) (id_asc (st_rows st)) of
              [] \<Rightarrow> None
            | r # _ \<Rightarrow> pe_source_address r))"

subsection \<open>Writing\<close>

text \<open>A committed insert: the id comes from the sequence, \<open>legal_hold\<close> and \<open>created_at\<close> have defaults.\<close>

definition append_row :: "rat \<Rightarrow> ProofEvent \<Rightarrow> Store \<Rightarrow> ProofEvent \<times> Store" where
  "append_row created_at ev st =
     (let row = ev\<lparr>pe_id := st_next_id st, pe_legal_hold := False, pe_created_at := created_at\<rparr>
      in (row, st\<lparr>st_rows := st_rows st @ [row], st_next_id := st_next_id st + 1\<rparr>))"

text \<open>
  An insert that ends in a conflict consumes a value of the id sequence and changes nothing else.
\<close>

definition burn_id :: "Store \<Rightarrow> Store" where
  "burn_id st = st\<lparr>st_next_id := st_next_id st + 1\<rparr>"

definition insert_proof_event :: "rat \<Rightarrow> ProofEvent \<Rightarrow> Store \<Rightarrow> ProofEvent option \<times> Store" where
  "insert_proof_event now ev st =
     (if \<not> st_configured st then (None, st)
      else let (row, st') = append_row now (ev\<lparr>pe_idempotency_key := None, pe_event_index := None\<rparr>) st
           in (Some row, st'))"

definition make_idempotency_key ::
  "(bytes \<Rightarrow> bytes) \<Rightarrow> string \<Rightarrow> string \<Rightarrow> string option \<Rightarrow> string" where
  "make_idempotency_key H video_hash proof_id tx_hash =
     tohex (H (encode_ascii (video_hash @ '':'' @ proof_id @ '':'' @
       (case tx_hash of None \<Rightarrow> [] | Some t \<Rightarrow> t))))"

definition CONFLICT_FIELDS :: "(string \<times> (ProofEvent \<Rightarrow> string option)) list" where
  "CONFLICT_FIELDS =
     [(''video_hash'', pe_video_hash), (''metadata_hash'', pe_metadata_hash), (''proof_id'', pe_proof_id),
      (''tier'', pe_tier), (''source_address'', pe_source_address), (''contract_id'', pe_contract_id)]"

definition check_conflict :: "string \<Rightarrow> ProofEvent \<Rightarrow> ProofEvent \<Rightarrow> StoreError + unit" where
  "check_conflict key existing incoming =
     (case find (\<lambda>(_, f). f existing \<noteq> f incoming) CONFLICT_FIELDS of
        None \<Rightarrow> Inr ()
      | Some (name, f) \<Rightarrow> Inl (ConflictError key name (f existing) (f incoming)))"

text \<open>Without a database the arguments come back as a stub and nothing is stored.\<close>

definition upsert_register_event ::
  "rat \<Rightarrow> string \<Rightarrow> ProofEvent \<Rightarrow> Store \<Rightarrow> (StoreError + ProofEvent \<times> bool) \<times> Store" where
  "upsert_register_event now idempotency_key ev st =
     (if \<not> st_configured st then (Inr (ev\<lparr>pe_legal_hold := False\<rparr>, True), st)
      else (case find (\<lambda>r. pe_idempotency_key r = Some idempotency_key) (st_rows st) of
          None \<Rightarrow>
            let (row, st') = append_row now
                  (ev\<lparr>pe_event_type := ''register'', pe_embedded_hash := None,
                      pe_idempotency_key := Some idempotency_key, pe_event_index := None\<rparr>) st
            in (Inr (row, True), st')
        | Some existing \<Rightarrow>
            (case check_conflict idempotency_key existing ev of
               Inl e \<Rightarrow> (Inl e, burn_id st)
             | Inr _ \<Rightarrow> (Inr (existing, False), burn_id st))))"

definition insert_proof_history_event :: "rat \<Rightarrow> HistoryEvent \<Rightarrow> Store \<Rightarrow> HistoryEvent option \<times> Store" where
  "insert_proof_history_event now he st =
     (if \<not> st_configured st then (None, st)
      else let row = he\<lparr>he_id := st_next_history_id st, he_created_at := now\<rparr>
           in (Some row, st\<lparr>st_history := st_history st @ [row],
                            st_next_history_id := st_next_history_id st + 1\<rparr>))"

definition list_proof_history_events :: "string \<Rightarrow> int \<Rightarrow> int \<Rightarrow> Store \<Rightarrow> HistoryEvent list" where
  "list_proof_history_events proof_id limit offset st =
     (if \<not> st_configured st then []
      else take (nat (max 1 (min limit 100))) (drop (nat (max 0 offset))
             (sort_key he_id (filter (\<lambda>h. he_proof_id h = proof_id) (st_history st)))))"

definition list_pending_registration_txs :: "int \<Rightarrow> Store \<Rightarrow> ProofEvent list" where
  "list_pending_registration_txs limit st =
     (if \<not> st_configured st then []
      else take (nat (max 1 (min limit 50)))
             (id_asc (filter (\<lambda>r. pe_tx_hash r \<noteq> None \<and> pe_tx_status r = Some ''pending'') (st_rows st))))"

text \<open>The row condition of the two update statements, and the update.\<close>

definition tx_matches :: "string \<Rightarrow> bool \<Rightarrow> ProofEvent \<Rightarrow> bool" where
  "tx_matches tx_hash force r \<longleftrightarrow> pe_tx_hash r = Some tx_hash \<and>
     (force \<or> pe_tx_status r = None \<or> pe_tx_status r = Some ''pending'')"

definition update_tx_status :: "string \<Rightarrow> string \<Rightarrow> bool \<Rightarrow> Store \<Rightarrow> (StoreError + bool) \<times> Store" where
  "update_tx_status tx_hash status force st =
     (if \<not> st_configured st then (Inr False, st)
      else if py_strip tx_hash = [] then (Inr False, st)
      else if status \<notin> {''pending'', ''confirmed'', ''failed'', ''missing''}
      then (Inl (ValueError ''tx status must be pending, confirmed, failed, or missing''), st)
      else (Inr (list_ex (tx_matches tx_hash force) (st_rows st)),
            st\<lparr>st_rows := map (\<lambda>r. if tx_matches tx_hash force r then r\<lparr>pe_tx_status := Some status\<rparr> else r)
                             (st_rows st)\<rparr>))"

definition set_legal_hold :: "string \<Rightarrow> bool \<Rightarrow> Store \<Rightarrow> Store" where
  "set_legal_hold proof_id hold st =
     (if \<not> st_configured st then st
      else st\<lparr>st_rows := map (\<lambda>r. if pe_proof_id r = Some proof_id then r\<lparr>pe_legal_hold := hold\<rparr> else r)
                          (st_rows st)\<rparr>)"

definition expired_event :: "rat \<Rightarrow> ProofEvent \<Rightarrow> bool" where
  "expired_event now r \<longleftrightarrow>
     (case pe_expires_at r of None \<Rightarrow> False | Some t \<Rightarrow> t \<le> now) \<and> \<not> pe_legal_hold r"

definition count_expired_events :: "rat \<Rightarrow> Store \<Rightarrow> nat" where
  "count_expired_events now st =
     (if \<not> st_configured st then 0 else length (filter (expired_event now) (st_rows st)))"

definition receipt_of :: "rat \<Rightarrow> ProofEvent \<Rightarrow> DeletionReceipt" where
  "receipt_of now r =
     \<lparr>dr_event_id = pe_id r, dr_proof_id = pe_proof_id r, dr_video_hash = pe_video_hash r,
      dr_metadata_hash = pe_metadata_hash r, dr_deleted_at = now\<rparr>"

definition purge_expired_events :: "rat \<Rightarrow> int \<Rightarrow> Store \<Rightarrow> DeletionReceipt list \<times> Store" where
  "purge_expired_events now batch_size st =
     (if \<not> st_configured st then ([], st)
      else let n = nat (max 1 (min batch_size RETENTION_BATCH_MAX_SIZE));
               expired = take n (id_asc (filter (expired_event now) (st_rows st)));
               receipts = map (receipt_of now) expired
           in (receipts,
               st\<lparr>st_rows := filter (\<lambda>r. pe_id r \<notin> pe_id ` set expired) (st_rows st),
                  st_receipts := st_receipts st @ receipts\<rparr>))"

subsection \<open>Indexed events and the indexer cursor\<close>

definition indexer_key :: "string \<Rightarrow> int \<Rightarrow> string" where
  "indexer_key tx_hash event_index = ''indexer:'' @ tx_hash @ '':'' @ str_int event_index"

text \<open>
  The insert names the unique index on transaction and event index as its conflict target; a
  clash on the idempotency key alone is a unique violation, which the source does not catch.
\<close>

definition insert_indexed_proof_event ::
  "rat \<Rightarrow> string \<Rightarrow> int \<Rightarrow> rat option \<Rightarrow> ProofEvent \<Rightarrow> Store \<Rightarrow> (StoreError + ProofEvent \<times> bool) \<times> Store" where
  "insert_indexed_proof_event now tx_hash event_index created_at ev st =
     (let created = (case created_at of None \<Rightarrow> now | Some t \<Rightarrow> t);
          ev = ev\<lparr>pe_tx_hash := Some tx_hash, pe_event_index := Some event_index, pe_file_name := None,
                  pe_tier := None, pe_embedded_hash := None, pe_source_address := None,
                  pe_retention_class := None, pe_expires_at := None, pe_time_attestation := None,
                  pe_claimed_capture_time := None\<rparr>
      in if \<not> st_configured st then
           (case map_of (st_indexed_events st) (tx_hash, event_index) of
              Some row \<Rightarrow> (Inr (row, False), st)
            | None \<Rightarrow>
                let row = ev\<lparr>pe_id := st_mock_indexed_id st + 1, pe_legal_hold := False,
                             pe_idempotency_key := None, pe_created_at := created\<rparr>
                in (Inr (row, True),
                    st\<lparr>st_mock_indexed_id := st_mock_indexed_id st + 1,
                       st_indexed_events := AList.update (tx_hash, event_index) row (st_indexed_events st)\<rparr>))
         else
           (case find (\<lambda>r. pe_tx_hash r = Some tx_hash \<and> pe_event_index r = Some event_index) (st_rows st) of
              Some existing \<Rightarrow> (Inr (existing, False), burn_id st)
            | None \<Rightarrow>
                if Some (indexer_key tx_hash event_index) \<in> pe_idempotency_key ` set (st_rows st)
                then (Inl UniqueViolation, burn_id st)
                else let (row, st') = append_row created
                           (ev\<lparr>pe_idempotency_key := Some (indexer_key tx_hash event_index)\<rparr>) st
                     in (Inr (row, True), st')))"

definition get_indexer_cursor :: "string \<Rightarrow> Store \<Rightarrow> string option" where
  "get_indexer_cursor indexer_id st =
     map_option fst ((if st_configured st then st_indexer_state st else st_memory_state st) indexer_id)"

definition save_indexer_cursor :: "string \<Rightarrow> string \<Rightarrow> int option \<Rightarrow> Store \<Rightarrow> Store" where
  "save_indexer_cursor indexer_id cursor ledger st =
     (if st_configured st
      then st\<lparr>st_indexer_state := (st_indexer_state st)(indexer_id \<mapsto> (cursor, ledger))\<rparr>
      else st\<lparr>st_memory_state := (st_memory_state st)(indexer_id \<mapsto> (cursor, ledger))\<rparr>)"

subsection \<open>The invariant\<close>

text \<open>Ids grow; the two partial unique indexes of the table hold.\<close>

definition row_order :: "ProofEvent \<Rightarrow> ProofEvent \<Rightarrow> bool" where
  "row_order r s \<longleftrightarrow> pe_id r < pe_id s \<and>
     (pe_idempotency_key r = None \<or> pe_idempotency_key r \<noteq> pe_idempotency_key s) \<and>
     (pe_tx_hash r = None \<or> pe_event_index r = None \<or> pe_tx_hash r \<noteq> pe_tx_hash s \<or>
      pe_event_index r \<noteq> pe_event_index s)"

text \<open>An indexer key on a row is the one of its transaction and event index.\<close>

definition key_matches :: "ProofEvent \<Rightarrow> bool" where
  "key_matches r \<longleftrightarrow> (\<forall>tx i. pe_idempotency_key r = Some (indexer_key tx i) \<longrightarrow>
     pe_tx_hash r = Some tx \<and> pe_event_index r = Some i)"

definition store_inv :: "Store \<Rightarrow> bool" where
  "store_inv st \<longleftrightarrow> sorted_wrt row_order (st_rows st) \<and> 1 \<le> st_next_id st \<and>
     (\<forall>r \<in> set (st_rows st). 1 \<le> pe_id r \<and> pe_id r < st_next_id st \<and> key_matches r)"

datatype StoreOp =
    InsertEvent rat ProofEvent
  | RegisterEvent rat string string "string option" ProofEvent
  | IndexEvent rat string int "rat option" ProofEvent
  | UpdateTx string string bool
  | SetHold string bool
  | Purge rat int
  | AddHistory rat HistoryEvent
  | SaveCursor string string "int option"

fun store_step :: "(bytes \<Rightarrow> bytes) \<Rightarrow> StoreOp \<Rightarrow> Store \<Rightarrow> Store" where
  "store_step H (InsertEvent now ev) st = snd (insert_proof_event now ev st)"
| "store_step H (RegisterEvent now video pid tx ev) st =
     snd (upsert_register_event now (make_idempotency_key H video pid tx) ev st)"
| "store_step H (IndexEvent now tx i ca ev) st = snd (insert_indexed_proof_event now tx i ca ev st)"
| "store_step H (UpdateTx tx status force) st = snd (update_tx_status tx status force st)"
| "store_step H (SetHold p hold) st = set_legal_hold p hold st"
| "store_step H (Purge now n) st = snd (purge_expired_events now n st)"
| "store_step H (AddHistory now he) st = snd (insert_proof_history_event now he st)"
| "store_step H (SaveCursor i c l) st = save_indexer_cursor i c l st"

lemma indexer_key_inj: "indexer_key tx i = indexer_key tx' i' \<longleftrightarrow> tx = tx' \<and> i = i'"
proof
  assume "indexer_key tx i = indexer_key tx' i'"
  then have "rev (tx @ CHR '':'' # str_int i) = rev (tx' @ CHR '':'' # str_int i')"
    by (simp add: indexer_key_def)
  then have eq: "rev (str_int i) @ CHR '':'' # rev tx = rev (str_int i') @ CHR '':'' # rev tx'" by simp
  have colon: "CHR '':'' \<notin> set (rev (str_int j))" for j
    using is_digit_str_nat [of "nat j"] is_digit_str_nat [of "nat (- j)"]
    by (auto simp: str_int_def list_all_iff is_digit_def char_code_def)
  have tw: "takeWhile (\<lambda>c. c \<noteq> x) (as @ x # bs) = as" if "x \<notin> set as" for as bs and x :: char
    using that by (induction as) auto
  have "rev (str_int i) = rev (str_int i')"
    using tw [OF colon, of i "rev tx"] tw [OF colon, of i' "rev tx'"] eq by simp
  then show "tx = tx' \<and> i = i'" using eq by simp
qed simp

lemma hex_not_indexer_key: "tohex bs \<noteq> indexer_key tx i"
proof
  assume "tohex bs = indexer_key tx i"
  then have "list_all is_hex (indexer_key tx i)" by (metis list_all_is_hex_tohex)
  then have "is_hex CHR ''i''" by (simp add: indexer_key_def)
  then show False by (simp add: is_hex_def digit_in_def digit_val_def char_code_def)
qed

lemma append_row_inv:
  assumes inv: "store_inv st"
    and key: "\<And>r. r \<in> set (st_rows st) \<Longrightarrow> pe_idempotency_key r = None \<or> pe_idempotency_key r \<noteq> pe_idempotency_key ev"
    and idx: "\<And>r. r \<in> set (st_rows st) \<Longrightarrow> pe_event_index ev = None \<or> pe_tx_hash r \<noteq> pe_tx_hash ev \<or>
      pe_event_index r \<noteq> pe_event_index ev"
    and matches: "key_matches ev"
  shows "store_inv (snd (append_row now ev st))"
proof -
  let ?row = "ev\<lparr>pe_id := st_next_id st, pe_legal_hold := False, pe_created_at := now\<rparr>"
  have "row_order r ?row" if r: "r \<in> set (st_rows st)" for r
    using inv r key [OF r] idx [OF r] by (auto simp: store_inv_def row_order_def)
  moreover have "key_matches ?row" using matches by (simp add: key_matches_def)
  ultimately show ?thesis
    using inv by (auto simp: append_row_def store_inv_def sorted_wrt_append Let_def)
qed

lemma burn_id_inv [simp]: "store_inv st \<Longrightarrow> store_inv (burn_id st)"
  by (fastforce simp: store_inv_def burn_id_def)

lemma store_inv_memory [simp]:
  "store_inv (st\<lparr>st_mock_indexed_id := n, st_indexed_events := m\<rparr>) = store_inv st"
  by (simp add: store_inv_def)

lemma map_rows_inv:
  assumes "store_inv st"
    and "\<And>r. pe_id (f r) = pe_id r \<and> pe_idempotency_key (f r) = pe_idempotency_key r \<and>
      pe_tx_hash (f r) = pe_tx_hash r \<and> pe_event_index (f r) = pe_event_index r"
  shows "store_inv (st\<lparr>st_rows := map f (st_rows st)\<rparr>)"
proof -
  have "row_order (f r) (f s) = row_order r s" "key_matches (f r) = key_matches r" for r s
    using assms(2) by (simp_all add: row_order_def key_matches_def)
  then show ?thesis using assms by (simp add: store_inv_def sorted_wrt_map)
qed

lemma store_inv_step:
  assumes inv: "store_inv st"
  shows "store_inv (store_step H op st)"
proof (cases op)
  case (InsertEvent now ev)
  let ?ev = "ev\<lparr>pe_idempotency_key := None, pe_event_index := None\<rparr>"
  have "store_inv (snd (append_row now ?ev st))"
    by (rule append_row_inv [OF inv]) (auto simp: key_matches_def)
  then show ?thesis using inv InsertEvent by (simp add: insert_proof_event_def case_prod_beta Let_def)
next
  case (RegisterEvent now video pid tx ev)
  let ?key = "make_idempotency_key H video pid tx"
  let ?ev = "ev\<lparr>pe_event_type := ''register'', pe_embedded_hash := None,
    pe_idempotency_key := Some ?key, pe_event_index := None\<rparr>"
  have "store_inv (snd (append_row now ?ev st))"
    if "find (\<lambda>r. pe_idempotency_key r = Some ?key) (st_rows st) = None"
    using that hex_not_indexer_key
    by (intro append_row_inv [OF inv]) (auto simp: find_None_iff key_matches_def make_idempotency_key_def)
  then show ?thesis
    using inv RegisterEvent
    by (auto simp: upsert_register_event_def case_prod_beta Let_def split: option.splits sum.splits)
next
  case (IndexEvent now tx i ca ev)
  define created where "created = (case ca of None \<Rightarrow> now | Some t \<Rightarrow> t)"
  define ev' where "ev' = ev\<lparr>pe_tx_hash := Some tx, pe_event_index := Some i, pe_file_name := None,
      pe_tier := None, pe_embedded_hash := None, pe_source_address := None, pe_retention_class := None,
      pe_expires_at := None, pe_time_attestation := None, pe_claimed_capture_time := None,
      pe_idempotency_key := Some (indexer_key tx i)\<rparr>"
  have "store_inv (snd (append_row created ev' st))"
    if "find (\<lambda>r. pe_tx_hash r = Some tx \<and> pe_event_index r = Some i) (st_rows st) = None"
      "Some (indexer_key tx i) \<notin> pe_idempotency_key ` set (st_rows st)"
    using that
    by (intro append_row_inv [OF inv]) (force simp: find_None_iff key_matches_def indexer_key_inj ev'_def)+
  then show ?thesis
    using inv unfolding IndexEvent created_def ev'_def
    by (auto simp: insert_indexed_proof_event_def case_prod_beta Let_def split: option.splits if_splits)
next
  case (UpdateTx tx status force)
  then show ?thesis using inv by (auto simp: update_tx_status_def intro!: map_rows_inv)
next
  case (SetHold p hold)
  then show ?thesis using inv by (auto simp: set_legal_hold_def intro!: map_rows_inv)
next
  case (Purge now n)
  then show ?thesis using inv
    by (auto simp: purge_expired_events_def store_inv_def sorted_wrt_filter Let_def)
next
  case (AddHistory now he)
  then show ?thesis using inv by (auto simp: insert_proof_history_event_def store_inv_def Let_def)
next
  case (SaveCursor i c l)
  then show ?thesis using inv by (simp add: save_indexer_cursor_def store_inv_def)
qed

interpretation store: invariant_system "\<lambda>st. \<exists>c. st = empty_store c"
    "\<lambda>st op st'. st' = store_step H op st" store_inv for H
proof
  show "store_inv s" if "\<exists>c. s = empty_store c" for s
    using that by (auto simp: empty_store_def store_inv_def)
qed (simp add: store_inv_step)

abbreviation store_reachable :: "(bytes \<Rightarrow> bytes) \<Rightarrow> Store \<Rightarrow> bool" where
  "store_reachable H \<equiv> reachable (\<lambda>st. \<exists>c. st = empty_store c) (\<lambda>st op st'. st' = store_step H op st)"

lemma store_reachableI: "store_reachable H (fold (store_step H) ops (empty_store c))"
  by (rule reachable_fold) blast

subsection \<open>Cursors\<close>

lemma decode_ascii_encode [simp]: "decode_ascii (encode_ascii s) = s"
  by (induction s) (simp_all add: decode_ascii_def encode_ascii_def unat_of_nat_byte char_code_def)

lemma strip_plain: "list_all (\<lambda>c. \<not> is_space c) s \<Longrightarrow> py_strip s = s"
proof -
  have "dropWhile is_space t = t" if "list_all (\<lambda>c. \<not> is_space c) t" for t
    using that by (cases t) auto
  then show "list_all (\<lambda>c. \<not> is_space c) s \<Longrightarrow> py_strip s = s"
    by (simp add: py_strip_def py_lstrip_def)
qed

lemma cursor_roundtrip:
  assumes "1 \<le> i" "i < 2 ^ 63"
  shows "decode_proof_events_cursor (PStr (encode_proof_events_cursor i)) = Inr i"
proof -
  define s where "s = str_nat (nat i)"
  have s: "str_int i = s" "s \<noteq> []" using assms(1) by (simp_all add: str_int_def s_def)
  have "nat i < 10 ^ 19" using assms by (simp add: nat_less_iff)
  then have "length s \<le> 19" unfolding s_def by (rule length_str_nat) simp
  then have int: "py_int 10 s = Some i" using py_int_str_nat [of "nat i"] assms(1) by (simp add: s_def)
  let ?c = "b64encode (encode_ascii s)"
  have plain: "list_all (\<lambda>c. \<not> is_space c) ?c" "\<not> list_ex (\<lambda>c. 128 \<le> char_code c) ?c"
    using b64encode_plain [of "encode_ascii s"] by (auto simp: list_all_iff list_ex_iff)
  have "\<not> list_ex (\<lambda>b. 128 \<le> unat b) (encode_ascii s)"
    using is_digit_str_nat [of "nat i"]
    by (auto simp: list_ex_iff list_all_iff encode_ascii_def unat_of_nat_byte is_digit_def simp flip: s_def)
  moreover have "?c \<noteq> []" using s(2) by (simp add: encode_ascii_def)
  moreover have "nat ((- int (length ?c)) mod 4) = 0"
  proof -
    have "4 dvd int (length ?c)"
      using length_b64encode [of "encode_ascii s"] by (metis dvd_eq_mod_eq_0 of_nat_dvd_iff of_nat_numeral)
    then show ?thesis by simp
  qed
  ultimately show ?thesis
    using assms plain int strip_plain [OF plain(1)]
    by (simp add: decode_proof_events_cursor_def encode_proof_events_cursor_def s Let_def)
qed

subsection \<open>Following the cursors\<close>

lemma rows_sorted: "store_inv st \<Longrightarrow> sorted_wrt (\<lambda>r s. pe_id r < pe_id s) (st_rows st)"
  unfolding store_inv_def by (auto elim!: sorted_wrt_mono_rel [rotated] simp: row_order_def)

lemma sort_key_sorted: "sorted_wrt (\<lambda>r s. pe_id r < pe_id s) rows \<Longrightarrow> sort_key pe_id rows = rows"
  by (rule sort_key_id_if_sorted) (auto simp: sorted_map intro: sorted_wrt_mono_rel [rotated])

lemma id_desc_filter: "store_inv st \<Longrightarrow> id_desc (filter P (st_rows st)) = rev (filter P (st_rows st))"
  unfolding id_desc_def using sort_key_sorted [OF sorted_wrt_filter [OF rows_sorted]] by simp

lemma id_asc_filter: "store_inv st \<Longrightarrow> id_asc (filter P (st_rows st)) = filter P (st_rows st)"
  unfolding id_asc_def using sort_key_sorted [OF sorted_wrt_filter [OF rows_sorted]] by simp

text \<open>
  A client that follows the cursors: it asks for a page, decodes the token and asks for the next
  page, until there is no token. The table at the \<open>k\<close>-th request is \<open>T k\<close>; \<open>fuel\<close> bounds the
  number of requests.
\<close>

fun follow ::
  "(int option \<Rightarrow> Store \<Rightarrow> ProofEvent list \<times> string option) \<Rightarrow> nat \<Rightarrow> (nat \<Rightarrow> Store) \<Rightarrow> int option
   \<Rightarrow> ProofEvent list" where
  "follow fetch 0 T cur = []"
| "follow fetch (Suc fuel) T cur =
     (let (rows, token) = fetch cur (T 0) in
      case token of
        None \<Rightarrow> rows
      | Some tok \<Rightarrow>
          (case decode_proof_events_cursor (PStr tok) of
             Inl _ \<Rightarrow> rows
           | Inr c \<Rightarrow> rows @ follow fetch fuel (\<lambda>k. T (Suc k)) (Some c)))"

text \<open>A table that has only grown since \<open>st\<close>: later rows come after the rows of \<open>st\<close>.\<close>

definition grown :: "Store \<Rightarrow> Store \<Rightarrow> bool" where
  "grown st st' \<longleftrightarrow> st_configured st' \<and> store_inv st' \<and> (\<exists>new. st_rows st' = st_rows st @ new)"

locale keyset_listing =
  fixes fetch :: "int option \<Rightarrow> Store \<Rightarrow> ProofEvent list \<times> string option"
    and sel :: "ProofEvent \<Rightarrow> bool"
    and size :: int
  assumes size_pos: "1 \<le> size"
    and fetch_page: "st_configured st \<Longrightarrow> fetch cur st =
      cut_page size (take (nat (size + 1)) (id_desc (filter (\<lambda>r. sel r \<and> before cur r) (st_rows st))))"
begin

definition rest :: "int option \<Rightarrow> Store \<Rightarrow> ProofEvent list" where
  "rest cur st = rev (filter (\<lambda>r. sel r \<and> before cur r) (st_rows st))"

lemma fetch_rest:
  assumes "st_configured st" "store_inv st"
  shows "fetch cur st = (if length (rest cur st) \<le> nat size then (rest cur st, None)
     else (take (nat size) (rest cur st), Some (encode_proof_events_cursor (pe_id (rest cur st ! (nat size - 1))))))"
proof -
  obtain n where n: "size = int (Suc n)"
    using size_pos by (metis Suc_pred int_nat_eq nat_0_le not_le nat_le_0 zero_less_nat_eq less_le_trans
        zero_less_one order_less_imp_le)
  have ns: "nat size = Suc n" "nat (size + 1) = Suc (Suc n)" "size < int k \<longleftrightarrow> Suc n < k" for k
    using n by (simp_all only:) auto
  let ?R = "rest cur st"
  have f: "fetch cur st = cut_page size (take (Suc (Suc n)) ?R)"
    using fetch_page [OF assms(1), of cur] unfolding id_desc_filter [OF assms(2)]
    by (simp add: rest_def ns)
  show ?thesis
  proof (cases "length ?R \<le> Suc n")
    case True
    then show ?thesis unfolding f by (simp add: cut_page_def ns)
  next
    case False
    have "last (take (Suc n) ?R) = ?R ! n" using False by (simp add: take_Suc_conv_app_nth)
    then show ?thesis unfolding f using False by (simp add: cut_page_def ns Let_def min_def)
  qed
qed

lemma rest_after:
  assumes "store_inv st" "i < length (rest cur st)"
  shows "rest (Some (pe_id (rest cur st ! i))) st = drop (Suc i) (rest cur st)"
proof -
  let ?R = "rest cur st"
  have desc: "sorted_wrt (\<lambda>r s. pe_id s < pe_id r) ?R"
    using sorted_wrt_filter [OF rows_sorted [OF assms(1)]] by (simp add: rest_def sorted_wrt_rev)
  have cut: "filter (\<lambda>r. pe_id r < pe_id (xs ! i)) xs = drop (Suc i) xs"
    if "sorted_wrt (\<lambda>r s. pe_id s < pe_id r) xs" "i < length xs" for xs and i
    using that
  proof (induction xs arbitrary: i)
    case (Cons x xs)
    show ?case
    proof (cases i)
      case 0
      then show ?thesis using Cons.prems by (auto simp: filter_id_conv)
    next
      case (Suc j)
      then have "pe_id (xs ! j) < pe_id x" using Cons.prems by auto
      moreover have "filter (\<lambda>r. pe_id r < pe_id (xs ! j)) xs = drop (Suc j) xs"
        using Cons Suc by simp
      ultimately show ?thesis using Suc by simp
    qed
  qed simp
  have "before cur (?R ! i)" using nth_mem [OF assms(2)] by (auto simp: rest_def)
  then have "rest (Some (pe_id (?R ! i))) st = filter (\<lambda>r. pe_id r < pe_id (?R ! i)) ?R"
    by (auto simp: rest_def before_def rev_filter filter_filter intro!: filter_cong split: option.splits)
  then show ?thesis using cut [OF desc assms(2)] by simp
qed

text \<open>Rows added later are not before a cursor taken from the earlier table.\<close>

lemma rest_grown:
  assumes "store_inv st" "grown st st'" "i < length (rest cur st)"
  shows "rest (Some (pe_id (rest cur st ! i))) st' = rest (Some (pe_id (rest cur st ! i))) st"
proof -
  obtain new where new: "st_rows st' = st_rows st @ new" and inv: "store_inv st'"
    using assms(2) by (auto simp: grown_def)
  have "rest cur st ! i \<in> set (st_rows st)" using nth_mem [OF assms(3)] by (auto simp: rest_def)
  then have "\<not> before (Some (pe_id (rest cur st ! i))) r" if "r \<in> set new" for r
    using rows_sorted [OF inv] that by (force simp: new sorted_wrt_append before_def)
  then show ?thesis by (simp add: rest_def new filter_empty_conv)
qed

lemma follow_rest:
  assumes "\<And>k. grown st (T k)" "store_inv st" "rest cur (T 0) = rest cur st"
    and "\<forall>r \<in> set (st_rows st). 1 \<le> pe_id r \<and> pe_id r < 2 ^ 63" "length (rest cur st) < fuel"
  shows "follow fetch fuel T cur = rest cur st"
  using assms
proof (induction fuel arbitrary: T cur)
  case (Suc fuel)
  have T0: "st_configured (T 0)" "store_inv (T 0)" using Suc.prems(1) [of 0] by (simp_all add: grown_def)
  show ?case
  proof (cases "length (rest cur st) \<le> nat size")
    case True
    then show ?thesis using fetch_rest [OF T0, of cur] Suc.prems(3) by simp
  next
    case False
    let ?R = "rest cur st" and ?i = "nat size - 1"
    let ?c = "pe_id (?R ! ?i)"
    have i: "?i < length ?R" "Suc ?i = nat size" using False size_pos by auto
    have "?R ! ?i \<in> set (st_rows st)" using nth_mem [OF i(1)] by (auto simp: rest_def)
    then have tok: "decode_proof_events_cursor (PStr (encode_proof_events_cursor ?c)) = Inr ?c"
      using Suc.prems(4) by (intro cursor_roundtrip) auto
    have drop: "rest (Some ?c) st = drop (nat size) ?R" using rest_after [OF Suc.prems(2) i(1)] i(2) by simp
    have "follow fetch fuel (\<lambda>k. T (Suc k)) (Some ?c) = rest (Some ?c) st"
      using Suc.prems i drop rest_grown [OF Suc.prems(2) Suc.prems(1) i(1)]
      by (intro Suc.IH) auto
    then show ?thesis
      using fetch_rest [OF T0, of cur] Suc.prems(3) False tok drop by simp
  qed
qed simp

end

interpretation all_events: keyset_listing "list_proof_events limit" "\<lambda>_. True" "clamp_proof_events_limit limit"
  for limit
  by unfold_locales (simp_all add: clamp_proof_events_limit_def list_proof_events_def Let_def)

interpretation video_events: keyset_listing "find_proof_events_by_video video limit"
    "\<lambda>r. pe_video_hash r = Some video" "clamp_proof_events_limit limit" for video limit
  by unfold_locales (simp_all add: clamp_proof_events_limit_def find_proof_events_by_video_def Let_def)

subsection \<open>Properties: listing\<close>

text \<open>
  C7: following the cursors from the first page until there is no token returns every event that
  was in the table at the first request exactly once, newest first, with any page limit, and even
  when events are inserted between the requests. The same holds for the events of one video.
\<close>

theorem pagination_complete:
  assumes "store_reachable H (T 0)" "\<And>k. grown (T 0) (T k)"
    and "\<forall>r \<in> set (st_rows (T 0)). pe_id r < 2 ^ 63" "length (st_rows (T 0)) < fuel"
  shows "follow (list_proof_events limit) fuel T None = rev (st_rows (T 0)) \<and>
     follow (find_proof_events_by_video video limit) fuel T None =
       rev (filter (\<lambda>r. pe_video_hash r = Some video) (st_rows (T 0)))"
proof -
  have inv: "store_inv (T 0)" using store.inv_reachable [OF assms(1)] .
  then have ids: "\<forall>r \<in> set (st_rows (T 0)). 1 \<le> pe_id r \<and> pe_id r < 2 ^ 63"
    using assms(3) by (auto simp: store_inv_def)
  have len: "length (filter P (st_rows (T 0))) < fuel" for P
    using assms(4) length_filter_le [of P "st_rows (T 0)"] by linarith
  show ?thesis
    using all_events.follow_rest [of "T 0" T None fuel limit, OF assms(2) inv refl ids]
      video_events.follow_rest [of "T 0" T video None fuel limit, OF assms(2) inv refl ids] len assms(4)
    by (simp add: all_events.rest_def video_events.rest_def before_def)
qed

definition blank_event :: ProofEvent where
  "blank_event = \<lparr>pe_id = 0, pe_event_type = ''register'', pe_file_name = None, pe_video_hash = Some ''v'',
     pe_metadata_hash = None, pe_proof_id = Some ''p'', pe_tier = None, pe_embedded_hash = None,
     pe_tx_hash = Some ''t'', pe_tx_status = Some ''confirmed'', pe_source_address = Some ''G'', pe_contract_id = None,
     pe_retention_class = None, pe_expires_at = Some 5, pe_legal_hold = False, pe_metadata = None,
     pe_time_attestation = None, pe_claimed_capture_time = None, pe_idempotency_key = None,
     pe_event_index = None, pe_created_at = 0\<rparr>"

definition sample_store :: Store where
  "sample_store = fold (store_step id) [InsertEvent 1 blank_event, InsertEvent 2 blank_event] (empty_store True)"

lemma sample_store_reachable: "store_reachable id sample_store"
  unfolding sample_store_def by (rule store_reachableI)

lemma sample_store_rows:
  "st_rows sample_store = [blank_event\<lparr>pe_id := 1, pe_created_at := 1\<rparr>, blank_event\<lparr>pe_id := 2, pe_created_at := 2\<rparr>]"
  "st_configured sample_store" "st_next_id sample_store = 3"
  by (simp_all add: sample_store_def insert_proof_event_def append_row_def empty_store_def blank_event_def Let_def)

theorem pagination_complete_witness:
  "follow (list_proof_events 1) 5 (\<lambda>_. sample_store) None = rev (st_rows sample_store) \<and>
   length (st_rows sample_store) = 2"
proof -
  have "grown sample_store sample_store"
    using store.inv_reachable [OF sample_store_reachable] by (simp add: grown_def sample_store_rows)
  then show ?thesis
    using pagination_complete [of id "\<lambda>_. sample_store" 5 1 "''v''"] sample_store_reachable
    by (simp add: sample_store_rows)
qed

subsection \<open>Properties: registration\<close>

lemma check_conflict_same: "(\<And>f. f \<in> snd ` set CONFLICT_FIELDS \<Longrightarrow> f a = f b) \<Longrightarrow> check_conflict k a b = Inr ()"
  by (simp add: check_conflict_def CONFLICT_FIELDS_def)

lemma check_conflict_Inr_iff:
  "check_conflict k a b = Inr () \<longleftrightarrow> (\<forall>(n, f) \<in> set CONFLICT_FIELDS. f a = f b)"
  by (auto simp: check_conflict_def CONFLICT_FIELDS_def split: option.splits)

lemma find_append_row:
  assumes "find (\<lambda>r. pe_idempotency_key r = Some k) (st_rows st) = None" "pe_idempotency_key ev = Some k"
  shows "find (\<lambda>r. pe_idempotency_key r = Some k) (st_rows (snd (append_row now ev st)))
     = Some (fst (append_row now ev st))"
proof -
  have "find P (xs @ [y]) = Some y" if "find P xs = None" "P y" for P and xs :: "ProofEvent list" and y
    using that by (induction xs) (auto split: if_splits)
  then show ?thesis using assms by (simp add: append_row_def Let_def)
qed

text \<open>
  C2: registration is idempotent. After a registration under a key has succeeded with a row, any
  later registration under the same key adds nothing: it returns that row, marked as not created,
  when the six identity fields agree, and otherwise a conflict error that names the first field
  that differs; in particular a retry of the same registration returns the same row.
\<close>

theorem registration_idempotent:
  assumes "st_configured st" "upsert_register_event now key ev st = (Inr (row, created), st')"
  shows "st_rows (snd (upsert_register_event now' key ev' st')) = st_rows st' \<and>
     fst (upsert_register_event now' key ev' st') =
       (case check_conflict key row ev' of Inl e \<Rightarrow> Inl e | Inr _ \<Rightarrow> Inr (row, False)) \<and>
     check_conflict key row ev = Inr () \<and>
     (check_conflict key row ev' = Inr () \<longleftrightarrow> (\<forall>(name, f) \<in> set CONFLICT_FIELDS. f row = f ev'))"
proof -
  have conf: "st_configured st'" and found: "find (\<lambda>r. pe_idempotency_key r = Some key) (st_rows st') = Some row"
    and same: "check_conflict key row ev = Inr ()"
  proof -
    have "st_configured st' \<and> find (\<lambda>r. pe_idempotency_key r = Some key) (st_rows st') = Some row
       \<and> check_conflict key row ev = Inr ()"
    proof (cases "find (\<lambda>r. pe_idempotency_key r = Some key) (st_rows st)")
      case None
      let ?ev = "ev\<lparr>pe_event_type := ''register'', pe_embedded_hash := None,
        pe_idempotency_key := Some key, pe_event_index := None\<rparr>"
      have r: "row = fst (append_row now ?ev st)" "st' = snd (append_row now ?ev st)"
        using assms None by (auto simp: upsert_register_event_def case_prod_beta Let_def)
      then have "check_conflict key row ev = Inr ()"
        by (simp add: check_conflict_Inr_iff CONFLICT_FIELDS_def append_row_def Let_def)
      moreover have "st_configured st'" using assms(1) r by (simp add: append_row_def Let_def)
      ultimately show ?thesis using find_append_row [OF None, of ?ev now] r by simp
    next
      case (Some existing)
      then show ?thesis using assms
        by (auto simp: upsert_register_event_def burn_id_def split: sum.splits)
    qed
    then show "st_configured st'" "find (\<lambda>r. pe_idempotency_key r = Some key) (st_rows st') = Some row"
      "check_conflict key row ev = Inr ()" by simp_all
  qed
  then show ?thesis
    using check_conflict_Inr_iff [of key row ev']
    by (auto simp: upsert_register_event_def burn_id_def split: sum.splits)
qed

theorem registration_idempotent_witness:
  "\<exists>row st'. upsert_register_event 1 ''k'' blank_event (empty_store True) = (Inr (row, True), st') \<and>
     fst (upsert_register_event 9 ''k'' blank_event st') = Inr (row, False)"
proof -
  obtain row st' where r: "upsert_register_event 1 ''k'' blank_event (empty_store True) = (Inr (row, True), st')"
    by (simp add: upsert_register_event_def append_row_def empty_store_def Let_def)
  then show ?thesis
    using registration_idempotent [OF _ r, of 9 blank_event] by (auto simp: empty_store_def)
qed

text \<open>Apart from a purge, an operation keeps every row in place with its owner fields and appends.\<close>

definition owner_fields :: "ProofEvent \<Rightarrow> string option \<times> string \<times> string option" where
  "owner_fields r = (pe_proof_id r, pe_event_type r, pe_source_address r)"

definition kept :: "ProofEvent list \<Rightarrow> ProofEvent list \<Rightarrow> bool" where
  "kept rows rows' \<longleftrightarrow>
     (\<exists>g extra. rows' = map g rows @ extra \<and> (\<forall>r. owner_fields (g r) = owner_fields r))"

lemma kept_append [intro]: "kept rows (rows @ extra)"
  unfolding kept_def by (rule exI [where x = "\<lambda>r. r"]) simp

lemma kept_refl [intro]: "kept rows rows"
  using kept_append [of rows "[]"] by simp

lemma kept_map [intro]: "(\<And>r. owner_fields (g r) = owner_fields r) \<Longrightarrow> kept rows (map g rows)"
  unfolding kept_def by (rule exI [where x = g]) simp

lemma step_keeps_rows:
  assumes "\<And>now n. op \<noteq> Purge now n"
  shows "kept (st_rows st) (st_rows (store_step H op st))"
proof (cases op)
  case (UpdateTx tx status force)
  then show ?thesis by (auto simp: update_tx_status_def owner_fields_def intro!: kept_map)
next
  case (SetHold p hold)
  then show ?thesis by (auto simp: set_legal_hold_def owner_fields_def intro!: kept_map)
next
  case (IndexEvent now tx i ca ev)
  then show ?thesis
    by (auto simp: insert_indexed_proof_event_def append_row_def burn_id_def Let_def split: option.splits)
next
  case (RegisterEvent now video pid tx ev)
  then show ?thesis
    by (auto simp: upsert_register_event_def append_row_def burn_id_def Let_def split: option.splits sum.splits)
qed (use assms in \<open>auto simp: insert_proof_event_def append_row_def insert_proof_history_event_def
       save_indexer_cursor_def Let_def\<close>)

lemma step_configured [simp]: "st_configured (store_step H op st) = st_configured st"
  by (cases op) (simp_all add: insert_proof_event_def upsert_register_event_def insert_indexed_proof_event_def
      append_row_def burn_id_def insert_proof_history_event_def save_indexer_cursor_def update_tx_status_def
      set_legal_hold_def purge_expired_events_def Let_def split: option.splits sum.splits)

definition registers :: "string \<Rightarrow> ProofEvent \<Rightarrow> bool" where
  "registers p r \<longleftrightarrow> pe_proof_id r = Some p \<and> pe_event_type r = ''register'' \<and> pe_source_address r \<noteq> None"

lemma find_proof_owner_eq:
  "store_inv st \<Longrightarrow> find_proof_owner p st =
     (if st_configured st then (case filter (registers p) (st_rows st) of [] \<Rightarrow> None | r # _ \<Rightarrow> pe_source_address r) else None)"
  using id_asc_filter [of st "\<lambda>_. True"] by (simp add: find_proof_owner_def registers_def cong: filter_cong)

lemma registers_owner_fields:
  "owner_fields r = owner_fields s \<Longrightarrow> registers p r = registers p s \<and> pe_source_address r = pe_source_address s"
  by (simp add: owner_fields_def registers_def)

lemma owner_step:
  assumes inv: "store_inv st" and owner: "find_proof_owner p st = Some a" and op: "\<And>now n. op \<noteq> Purge now n"
  shows "find_proof_owner p (store_step H op st) = Some a"
proof -
  obtain g extra where rows: "st_rows (store_step H op st) = map g (st_rows st) @ extra"
    and g: "\<And>r. owner_fields (g r) = owner_fields r" using step_keeps_rows [OF op] unfolding kept_def by blast
  have comp: "registers p \<circ> g = registers p" using registers_owner_fields [OF g] by auto
  have "filter (registers p) (st_rows (store_step H op st)) =
      map g (filter (registers p) (st_rows st)) @ filter (registers p) extra"
    by (simp add: rows filter_map comp)
  then show ?thesis
    using owner registers_owner_fields [OF g]
    by (auto simp: find_proof_owner_eq [OF inv] find_proof_owner_eq [OF store_inv_step [OF inv]]
        split: list.splits if_splits)
qed

text \<open>
  C25: the owner of a proof is its first registrant and stays so: once a proof has an owner, no
  sequence of registrations, indexed events, status updates, holds and other writes changes the
  answer of the owner lookup; only a purge can.
\<close>

theorem proof_owner_stable:
  assumes "store_reachable H st" "find_proof_owner p st = Some a"
    and "\<forall>op \<in> set ops. \<forall>now n. op \<noteq> Purge now n"
  shows "find_proof_owner p (fold (store_step H) ops st) = Some a"
proof -
  have "store_inv st" by (rule store.inv_reachable [OF assms(1)])
  then show ?thesis using assms(2,3)
    by (induction ops arbitrary: st) (simp_all add: owner_step store_inv_step)
qed

theorem proof_owner_stable_witness:
  "find_proof_owner ''p'' (fold (store_step id)
     [RegisterEvent 3 ''v'' ''p'' None (blank_event\<lparr>pe_source_address := Some ''GOTHER''\<rparr>), SetHold ''p'' True] sample_store)
   = Some ''G''"
proof -
  have "find_proof_owner ''p'' sample_store = Some ''G''"
    by (simp add: find_proof_owner_eq store.inv_reachable [OF sample_store_reachable] sample_store_rows registers_def blank_event_def)
  then show ?thesis by (rule proof_owner_stable [OF sample_store_reachable]) simp
qed

subsection \<open>Purging\<close>

lemma purge_rows:
  assumes inv: "store_inv st" and conf: "st_configured st"
    and n: "n = nat (max 1 (min b RETENTION_BATCH_MAX_SIZE))" and E: "E = filter (expired_event now) (st_rows st)"
    and p: "purge_expired_events now b st = (receipts, st')"
  shows "receipts = map (receipt_of now) (take n E)" "st_configured st'"
    "st_receipts st' = st_receipts st @ receipts"
    "filter (expired_event now) (st_rows st') = drop n E"
    "filter (\<lambda>r. \<not> expired_event now r) (st_rows st') = filter (\<lambda>r. \<not> expired_event now r) (st_rows st)"
    "store_inv st'"
proof -
  have asc: "id_asc E = E" using id_asc_filter [OF inv] E by simp
  have st': "st' = st\<lparr>st_rows := filter (\<lambda>r. pe_id r \<notin> pe_id ` set (take n E)) (st_rows st),
      st_receipts := st_receipts st @ map (receipt_of now) (take n E)\<rparr>"
    and r: "receipts = map (receipt_of now) (take n E)"
    using p conf by (auto simp: purge_expired_events_def Let_def n E [symmetric] asc)
  show "receipts = map (receipt_of now) (take n E)" "st_configured st'" "st_receipts st' = st_receipts st @ receipts"
    using r st' conf by simp_all
  show "store_inv st'" using store_inv_step [OF inv, of id "Purge now b"] p by simp
  have d: "distinct (map pe_id (st_rows st))"
    using rows_sorted [OF inv] strict_sorted_iff [of "map pe_id (st_rows st)"] by (simp add: sorted_wrt_map)
  have inj: "inj_on pe_id (set (st_rows st))" using d by (simp add: distinct_map)
  have sub: "set (take n E) \<subseteq> set (st_rows st)" using E set_take_subset [of n E] by auto
  have mem: "pe_id r \<in> pe_id ` set (take n E) \<longleftrightarrow> r \<in> set (take n E)" if "r \<in> set (st_rows st)" for r
    using inj_on_image_mem_iff [OF inj that sub] .
  have rows: "st_rows st' = filter (\<lambda>r. r \<notin> set (take n E)) (st_rows st)"
    using st' mem by (simp cong: filter_cong)
  have "distinct E" using d E by (simp add: distinct_map)
  have "filter (\<lambda>r. r \<notin> set (take n E)) E = drop n E"
  proof -
    have "distinct (take n E @ drop n E)" using \<open>distinct E\<close> by simp
    then have "filter (\<lambda>r. r \<notin> set (take n E)) (take n E @ drop n E) = drop n E"
      by (simp only: filter_append distinct_append) (auto simp: filter_empty_conv intro!: filter_True)
    then show ?thesis by simp
  qed
  then show "filter (expired_event now) (st_rows st') = drop n E"
    by (simp add: rows filter_filter conj_commute flip: filter_filter) (simp add: E filter_filter conj_commute)
  show "filter (\<lambda>r. \<not> expired_event now r) (st_rows st') = filter (\<lambda>r. \<not> expired_event now r) (st_rows st)"
  proof -
    have "r \<notin> set (take n E)" if "\<not> expired_event now r" for r
      using that E set_take_subset [of n E] by auto
    then show ?thesis by (auto simp: rows filter_filter intro: filter_cong)
  qed
qed

end
