(* ===== verification/Job_Queue.thy ===== *)
theory Job_Queue
  imports Prelude
begin

text \<open>
  The in-memory job queue of \<^verbatim>\<open>src/backend/db.py\<close>, the job execution step of
  \<^verbatim>\<open>src/backend/worker.py\<close> and the job-file sweep of \<^verbatim>\<open>src/backend/storage.py\<close>. A job is the
  dictionary the queue stores, an absent entry is \<open>None\<close>; instants and floating-point numbers are
  rationals, and the clock is an argument of each operation. What a job processor computes is a
  parameter.
\<close>

section \<open>The queue\<close>

record Job =
  jb_id :: nat
  jb_type :: string
  jb_payload :: pyval
  jb_status :: string
  jb_result :: "pyval option"
  jb_progress :: "(string \<times> rat option) option"
  jb_created_at :: rat
  jb_worker_id :: "string option"
  jb_heartbeat_at :: "rat option"
  jb_progress_at :: "rat option"
  jb_completed_at :: "rat option"
  jb_failed_at :: "rat option"
  jb_error :: "string option"
  jb_purged :: bool

text \<open>\<open>_JOBS\<close> in insertion order, and \<open>_next_job_id\<close>.\<close>

record Queue =
  q_jobs :: "(nat \<times> Job) list"
  q_next :: nat

definition empty_queue :: Queue where
  "empty_queue = \<lparr>q_jobs = [], q_next = 1\<rparr>"

definition enqueue_job :: "rat \<Rightarrow> string \<Rightarrow> pyval \<Rightarrow> Queue \<Rightarrow> nat \<times> Queue" where
  "enqueue_job now job_type payload q =
     (let job_id = q_next q in
      (job_id,
       q\<lparr>q_next := job_id + 1,
         q_jobs := AList.update job_id
           \<lparr>jb_id = job_id, jb_type = job_type, jb_payload = payload, jb_status = ''pending'',
            jb_result = None, jb_progress = None, jb_created_at = now, jb_worker_id = None,
            jb_heartbeat_at = None, jb_progress_at = None, jb_completed_at = None,
            jb_failed_at = None, jb_error = None, jb_purged = False\<rparr> (q_jobs q)\<rparr>))"

definition get_job :: "Queue \<Rightarrow> nat \<Rightarrow> Job option" where
  "get_job q job_id = map_of (q_jobs q) job_id"

definition put_job :: "Job \<Rightarrow> nat \<Rightarrow> Queue \<Rightarrow> Queue" where
  "put_job job job_id q = q\<lparr>q_jobs := AList.update job_id job (q_jobs q)\<rparr>"

definition cancel_job :: "nat \<Rightarrow> Queue \<Rightarrow> bool \<times> Queue" where
  "cancel_job job_id q =
     (case get_job q job_id of
        None \<Rightarrow> (False, q)
      | Some job \<Rightarrow>
          if jb_status job = ''pending'' then (True, put_job (job\<lparr>jb_status := ''cancelled''\<rparr>) job_id q)
          else (False, q))"

definition leasable :: "string list \<Rightarrow> nat \<times> Job \<Rightarrow> bool" where
  "leasable job_types kj \<longleftrightarrow> jb_status (snd kj) = ''pending'' \<and> jb_type (snd kj) \<in> set job_types"

definition lease_job :: "string \<Rightarrow> string list \<Rightarrow> Queue \<Rightarrow> Job option \<times> Queue" where
  "lease_job worker_id job_types q =
     (case find (leasable job_types) (q_jobs q) of
        None \<Rightarrow> (None, q)
      | Some (k, job) \<Rightarrow>
          let job' = job\<lparr>jb_status := ''running'', jb_worker_id := Some worker_id\<rparr>
          in (Some job', put_job job' k q))"

definition heartbeat_job :: "rat \<Rightarrow> nat \<Rightarrow> Queue \<Rightarrow> Queue" where
  "heartbeat_job now job_id q =
     (case get_job q job_id of
        None \<Rightarrow> q
      | Some job \<Rightarrow>
          if jb_status job = ''running'' then put_job (job\<lparr>jb_heartbeat_at := Some now\<rparr>) job_id q else q)"

subsection \<open>Progress\<close>

definition JOB_PROGRESS_MIN_INTERVAL_SECONDS :: rat where
  "JOB_PROGRESS_MIN_INTERVAL_SECONDS = 1"

definition JOB_PROGRESS_PHASE_MAX_LENGTH :: nat where
  "JOB_PROGRESS_PHASE_MAX_LENGTH = 64"

text \<open>What \<open>float(percent)\<close> gives: no percent, a number, an infinity, a NaN, or an exception.\<close>

datatype Percent = NoPercent | Finite rat | Infinite bool | NaN | NotANumber

datatype ProgressError = BadPhase | BadPercent

definition half_even :: "rat \<Rightarrow> int" where
  "half_even x =
     (let f = floor x; d = x - of_int f in
      if d < 1 / 2 then f else if 1 / 2 < d then f + 1 else if even f then f else f + 1)"

definition round1 :: "rat \<Rightarrow> rat" where
  "round1 x = of_int (half_even (x * 10)) / 10"

definition clamp_percent :: "Percent \<Rightarrow> ProgressError + rat option" where
  "clamp_percent p =
     (case p of
        NoPercent \<Rightarrow> Inr None
      | Finite x \<Rightarrow> Inr (Some (round1 (min 100 (max 0 x))))
      | Infinite pos \<Rightarrow> Inr (Some (if pos then 100 else 0))
      | NaN \<Rightarrow> Inl BadPercent
      | NotANumber \<Rightarrow> Inl BadPercent)"

definition throttled :: "rat \<Rightarrow> rat option \<Rightarrow> bool" where
  "throttled current last_at =
     (case last_at of None \<Rightarrow> False | Some t \<Rightarrow> current - t < JOB_PROGRESS_MIN_INTERVAL_SECONDS)"

definition report_job_progress ::
  "rat \<Rightarrow> nat \<Rightarrow> pyval \<Rightarrow> Percent \<Rightarrow> Queue \<Rightarrow> (ProgressError + bool) \<times> Queue" where
  "report_job_progress now job_id phase percent q =
     (case get_job q job_id of
        None \<Rightarrow> (Inr False, q)
      | Some job \<Rightarrow>
          if jb_status job \<noteq> ''running'' then (Inr False, q)
          else (case phase of
              PStr s \<Rightarrow>
                if py_strip s = [] then (Inl BadPhase, q)
                else (case clamp_percent percent of
                    Inl e \<Rightarrow> (Inl e, q)
                  | Inr p \<Rightarrow>
                      if throttled now (jb_progress_at job) then (Inr False, q)
                      else (Inr True, put_job (job\<lparr>jb_progress_at := Some now,
                             jb_progress := Some (take JOB_PROGRESS_PHASE_MAX_LENGTH (py_strip s), p)\<rparr>) job_id q))
            | _ \<Rightarrow> (Inl BadPhase, q)))"

subsection \<open>Completion and failure\<close>

definition complete_job :: "rat \<Rightarrow> nat \<Rightarrow> pyval \<Rightarrow> Queue \<Rightarrow> Queue" where
  "complete_job now job_id result q =
     (case get_job q job_id of
        None \<Rightarrow> q
      | Some job \<Rightarrow> put_job (job\<lparr>jb_status := ''completed'', jb_result := Some result,
                                   jb_completed_at := Some now\<rparr>) job_id q)"

definition fail_job :: "rat \<Rightarrow> nat \<Rightarrow> string \<Rightarrow> bool \<Rightarrow> Queue \<Rightarrow> Queue" where
  "fail_job now job_id error is_fatal q =
     (case get_job q job_id of
        None \<Rightarrow> q
      | Some job \<Rightarrow>
          let job = job\<lparr>jb_error := Some error, jb_failed_at := Some now\<rparr>
          in put_job (if is_fatal then job\<lparr>jb_status := ''failed''\<rparr>
                      else job\<lparr>jb_status := ''pending'', jb_worker_id := None\<rparr>) job_id q)"

text \<open>The worker's execution of a leased job: a processor per type, and the exception it may raise.\<close>

datatype Outcome = Returned pyval | Raised bool string

definition WORKER_JOB_TYPES :: "string list" where
  "WORKER_JOB_TYPES = [''embed'', ''extract'', ''silent_witness'', ''verify_tx'']"

definition execute_job :: "(string \<Rightarrow> Job \<Rightarrow> Outcome) \<Rightarrow> rat \<Rightarrow> Job \<Rightarrow> Queue \<Rightarrow> Queue" where
  "execute_job process now job q =
     (case (if jb_type job \<in> set WORKER_JOB_TYPES then process (jb_type job) job
            else Raised True (''Unknown job type '' @ jb_type job)) of
        Returned res \<Rightarrow> complete_job now (jb_id job) res q
      | Raised is_value_error msg \<Rightarrow> fail_job now (jb_id job) msg is_value_error q)"

text \<open>One pass of the worker loop: lease, then execute; the clock is read when the processor ends.\<close>

definition worker_pass :: "(string \<Rightarrow> Job \<Rightarrow> Outcome) \<Rightarrow> string \<Rightarrow> rat \<Rightarrow> Queue \<Rightarrow> Queue" where
  "worker_pass process worker_id now q =
     (case lease_job worker_id WORKER_JOB_TYPES q of
        (None, q') \<Rightarrow> q'
      | (Some job, q') \<Rightarrow> execute_job process now job q')"

datatype QueueOp =
    Enqueue rat string pyval
  | Cancel nat
  | Lease string "string list"
  | Heartbeat rat nat
  | Progress rat nat pyval Percent
  | Complete rat nat pyval
  | Fail rat nat string bool

fun queue_step :: "QueueOp \<Rightarrow> Queue \<Rightarrow> Queue" where
  "queue_step (Enqueue now ty payload) q = snd (enqueue_job now ty payload q)"
| "queue_step (Cancel i) q = snd (cancel_job i q)"
| "queue_step (Lease w tys) q = snd (lease_job w tys q)"
| "queue_step (Heartbeat now i) q = heartbeat_job now i q"
| "queue_step (Progress now i ph pc) q = snd (report_job_progress now i ph pc q)"
| "queue_step (Complete now i r) q = complete_job now i r q"
| "queue_step (Fail now i e fatal) q = fail_job now i e fatal q"

section \<open>The job-file sweep\<close>

record JobFile =
  jf_name :: string
  jf_is_file :: bool
  jf_mtime :: rat
  jf_removable :: bool

definition job_input_name :: "nat \<Rightarrow> string" where
  "job_input_name job_id = ''job_'' @ str_nat job_id @ ''_input''"

definition job_output_name :: "nat \<Rightarrow> string" where
  "job_output_name job_id = ''job_'' @ str_nat job_id @ ''_output''"

text \<open>
  The id group of the file-name pattern: \<open>job_\<close>, a run without underscores, and then the end or
  \<open>_input\<close> or \<open>_output\<close> with any text of one line. An id that is all digits is a number, any other
  text is not a key of the queue.
\<close>

definition single_line :: "string \<Rightarrow> bool" where
  "single_line s \<longleftrightarrow> CHR 0x0A \<notin> set (if s \<noteq> [] \<and> last s = CHR 0x0A then butlast s else s)"

definition job_file_id :: "string \<Rightarrow> string option" where
  "job_file_id name =
     (if \<not> startswith name ''job_'' then None
      else let r = drop 4 name;
               i = takeWhile (\<lambda>c. c \<noteq> CHR ''_'') r;
               tail = dropWhile (\<lambda>c. c \<noteq> CHR ''_'') r
           in if i = [] then None
              else if tail = [] \<or> (startswith tail ''_input'' \<and> single_line (drop 6 tail))
                   \<or> (startswith tail ''_output'' \<and> single_line (drop 7 tail))
              then Some i else None)"

definition job_of_file :: "Queue \<Rightarrow> string \<Rightarrow> (nat \<times> Job) option" where
  "job_of_file q name =
     (case job_file_id name of
        None \<Rightarrow> None
      | Some i \<Rightarrow>
          if list_all is_digit i then map_option (\<lambda>j. (dec_val i, j)) (get_job q (dec_val i)) else None)"

definition TERMINAL_STATES :: "string list" where
  "TERMINAL_STATES = [''completed'', ''failed'', ''cancelled'', ''abandoned'']"

definition terminal_time :: "Job \<Rightarrow> rat" where
  "terminal_time job =
     (case jb_completed_at job of
        Some t \<Rightarrow> t
      | None \<Rightarrow> (case jb_failed_at job of Some t \<Rightarrow> t | None \<Rightarrow> jb_created_at job))"

definition sweep_entry :: "rat \<Rightarrow> rat \<Rightarrow> JobFile \<Rightarrow> Queue \<Rightarrow> bool \<times> Queue" where
  "sweep_entry now ttl entry q =
     (if \<not> jf_is_file entry then (False, q)
      else (case job_of_file q (jf_name entry) of
          None \<Rightarrow> (ttl \<le> now - jf_mtime entry \<and> jf_removable entry, q)
        | Some (k, job) \<Rightarrow>
            if jb_status job \<in> set TERMINAL_STATES \<and> ttl \<le> now - terminal_time job \<and> jf_removable entry
            then (True, put_job (job\<lparr>jb_purged := True\<rparr>) k q)
            else (False, q)))"

text \<open>The files left in the directory, the number removed, and the queue.\<close>

fun sweep_job_files :: "rat \<Rightarrow> rat \<Rightarrow> JobFile list \<Rightarrow> Queue \<Rightarrow> JobFile list \<times> nat \<times> Queue" where
  "sweep_job_files now ttl [] q = ([], 0, q)"
| "sweep_job_files now ttl (e # es) q =
     (let (removed, q') = sweep_entry now ttl e q;
          (kept, n, q'') = sweep_job_files now ttl es q'
      in if removed then (kept, n + 1, q'') else (e # kept, n, q''))"

section \<open>The queue invariant\<close>

definition JOB_STATES :: "string list" where
  "JOB_STATES = [''pending'', ''running'', ''completed'', ''failed'', ''cancelled'']"

definition progress_ok :: "string \<times> rat option \<Rightarrow> bool" where
  "progress_ok p \<longleftrightarrow> fst p \<noteq> [] \<and> length (fst p) \<le> JOB_PROGRESS_PHASE_MAX_LENGTH \<and>
     (case snd p of None \<Rightarrow> True | Some x \<Rightarrow> 0 \<le> x \<and> x \<le> 100)"

definition job_ok :: "nat \<Rightarrow> Job \<Rightarrow> bool" where
  "job_ok k job \<longleftrightarrow> jb_id job = k \<and> jb_status job \<in> set JOB_STATES \<and>
     (jb_status job = ''pending'' \<longrightarrow> jb_worker_id job = None) \<and>
     (jb_status job = ''running'' \<longrightarrow> jb_worker_id job \<noteq> None) \<and>
     (case jb_progress job of None \<Rightarrow> True | Some p \<Rightarrow> progress_ok p)"

definition queue_inv :: "Queue \<Rightarrow> bool" where
  "queue_inv q \<longleftrightarrow> sorted_wrt (<) (map fst (q_jobs q)) \<and> (\<forall>k \<in> fst ` set (q_jobs q). k < q_next q) \<and>
     (\<forall>k job. get_job q k = Some job \<longrightarrow> job_ok k job)"

lemma get_put_job [simp]: "get_job (put_job job k q) = (get_job q)(k \<mapsto> job)"
  by (simp add: get_job_def put_job_def fun_eq_iff update_conv')

lemma get_job_key: "get_job q k = Some job \<Longrightarrow> k \<in> fst ` set (q_jobs q)"
  unfolding get_job_def by (force dest: map_of_SomeD)

lemma queue_inv_put:
  assumes "queue_inv q" "get_job q k = Some job" "job_ok k job'"
  shows "queue_inv (put_job job' k q)"
proof -
  have keys: "map fst (AList.update k job' (q_jobs q)) = map fst (q_jobs q)"
    using get_job_key [OF assms(2)] by (rule keys_update)
  then have "fst ` set (AList.update k job' (q_jobs q)) = fst ` set (q_jobs q)"
    by (metis list.set_map)
  moreover have "q_jobs (put_job job' k q) = AList.update k job' (q_jobs q)" "q_next (put_job job' k q) = q_next q"
    by (simp_all add: put_job_def)
  ultimately show ?thesis
    using assms(1,3) keys unfolding queue_inv_def by (simp only:) simp
qed

lemma queue_inv_job: "queue_inv q \<Longrightarrow> get_job q k = Some job \<Longrightarrow> job_ok k job"
  by (simp add: queue_inv_def)

lemma queue_inv_modify:
  "queue_inv q \<Longrightarrow> get_job q k = Some job \<Longrightarrow> (job_ok k job \<Longrightarrow> job_ok k job') \<Longrightarrow> queue_inv (put_job job' k q)"
  using queue_inv_put queue_inv_job by blast

lemma half_even_bounds: "of_int a \<le> x \<Longrightarrow> a \<le> half_even x" "x \<le> of_int b \<Longrightarrow> half_even x \<le> b"
proof -
  show "a \<le> half_even x" if "of_int a \<le> x" using that le_floor_iff [of a x] by (simp add: half_even_def Let_def)
  show "half_even x \<le> b" if "x \<le> of_int b"
  proof (cases "of_int (floor x) = x")
    case True
    then show ?thesis using that by (simp add: half_even_def Let_def floor_le_iff)
  next
    case False
    then have "of_int (floor x) < x" using of_int_floor_le [of x] by linarith
    then have "floor x < b" using that by linarith
    then show ?thesis by (simp add: half_even_def Let_def)
  qed
qed

lemma round1_bounds: "0 \<le> x \<Longrightarrow> x \<le> 100 \<Longrightarrow> 0 \<le> round1 x \<and> round1 x \<le> 100"
  using half_even_bounds(1) [of 0 "x * 10"] half_even_bounds(2) [of "x * 10" 1000] by (simp add: round1_def)

lemma clamp_percent_bounds: "clamp_percent p = Inr (Some x) \<Longrightarrow> 0 \<le> x \<and> x \<le> 100"
  using round1_bounds by (auto simp: clamp_percent_def split: Percent.splits)

lemma find_lease:
  assumes "queue_inv q" "find (leasable tys) (q_jobs q) = Some (k, job)"
  shows "get_job q k = Some job" "jb_status job = ''pending''" "jb_type job \<in> set tys"
proof -
  have m: "(k, job) \<in> set (q_jobs q)" "leasable tys (k, job)"
    using assms(2) by (auto simp: find_Some_iff)
  have "distinct (map fst (q_jobs q))"
    using assms(1) strict_sorted_iff [of "map fst (q_jobs q)"] by (simp add: queue_inv_def)
  then show "get_job q k = Some job" using m(1) by (simp add: get_job_def)
  show "jb_status job = ''pending''" "jb_type job \<in> set tys" using m(2) by (simp_all add: leasable_def)
qed

lemma queue_inv_enqueue:
  assumes "queue_inv q"
  shows "queue_inv (snd (enqueue_job now ty payload q))"
proof -
  have new: "q_next q \<notin> fst ` set (q_jobs q)" using assms by (auto simp: queue_inv_def)
  show ?thesis
    using assms unfolding queue_inv_def enqueue_job_def Let_def
    by (auto simp: update_new_key [OF new] sorted_wrt_append get_job_def job_ok_def JOB_STATES_def less_SucI
        split: if_splits)
qed

lemma queue_inv_progress: "queue_inv q \<Longrightarrow> queue_inv (snd (report_job_progress now k phase pc q))"
  by (auto simp: report_job_progress_def job_ok_def progress_ok_def JOB_PROGRESS_PHASE_MAX_LENGTH_def
      dest: clamp_percent_bounds intro!: queue_inv_modify split: option.splits pyval.splits sum.splits)

lemma queue_inv_lease: "queue_inv q \<Longrightarrow> queue_inv (snd (lease_job w tys q))"
  using find_lease [of q tys]
  by (auto simp: lease_job_def Let_def job_ok_def JOB_STATES_def intro!: queue_inv_modify split: option.splits)

lemma queue_inv_step: "queue_inv q \<Longrightarrow> queue_inv (queue_step op q)"
  by (cases op)
    (auto simp: queue_inv_enqueue queue_inv_progress queue_inv_lease cancel_job_def heartbeat_job_def
      complete_job_def fail_job_def job_ok_def JOB_STATES_def Let_def intro!: queue_inv_modify split: option.splits)

interpretation queue: invariant_system "\<lambda>q. q = empty_queue" "\<lambda>q op q'. q' = queue_step op q" queue_inv
proof
  show "queue_inv q" if "q = empty_queue" for q using that by (simp add: queue_inv_def empty_queue_def get_job_def)
qed (simp add: queue_inv_step)

abbreviation queue_reachable :: "Queue \<Rightarrow> bool" where
  "queue_reachable \<equiv> reachable (\<lambda>q. q = empty_queue) (\<lambda>q op q'. q' = queue_step op q)"

lemma queue_reachableI: "queue_reachable (fold queue_step ops empty_queue)"
  by (rule reachable_fold) simp

section \<open>Properties\<close>

definition held_by :: "string \<Rightarrow> nat \<Rightarrow> Queue \<Rightarrow> bool" where
  "held_by w k q \<longleftrightarrow> (\<exists>job. get_job q k = Some job \<and> jb_status job \<in> {''running'', ''completed''} \<and>
     jb_worker_id job = Some w)"

lemma get_enqueue_job:
  "queue_inv q \<Longrightarrow> get_job q k = Some job \<Longrightarrow> get_job (snd (enqueue_job now ty p q)) k = Some job"
  using get_job_key [of q k job]
  by (auto simp: queue_inv_def enqueue_job_def Let_def get_job_def update_conv')

lemma held_put: "held_by w k q \<Longrightarrow> (i = k \<Longrightarrow> jb_status job \<in> {''running'', ''completed''} \<and> jb_worker_id job = Some w)
    \<Longrightarrow> held_by w k (put_job job i q)"
  by (auto simp: held_by_def)

lemma held_step:
  assumes "queue_inv q" "held_by w k q" "\<And>now e fatal. op \<noteq> Fail now k e fatal"
  shows "held_by w k (queue_step op q)"
proof (cases op)
  case (Enqueue now ty p)
  then show ?thesis using assms(1,2) get_enqueue_job by (fastforce simp: held_by_def)
next
  case (Lease w' tys)
  show ?thesis
  proof (cases "find (leasable tys) (q_jobs q)")
    case None
    then show ?thesis using assms(2) by (simp add: Lease lease_job_def)
  next
    case (Some kj)
    then obtain i job where f: "find (leasable tys) (q_jobs q) = Some (i, job)" by (cases kj) simp
    have "i \<noteq> k" using find_lease(1,2) [OF assms(1) f] assms(2) by (auto simp: held_by_def)
    then show ?thesis using assms(2) f by (simp add: Lease lease_job_def Let_def held_put)
  qed
next
  case (Fail now i e fatal)
  then have "i \<noteq> k" using assms(3) by blast
  then show ?thesis using assms(2)
    by (auto simp: Fail fail_job_def Let_def intro!: held_put split: option.splits)
qed (use assms(2) in \<open>auto simp: held_by_def cancel_job_def heartbeat_job_def report_job_progress_def complete_job_def
    split: option.splits pyval.splits sum.splits\<close>)

lemma held_fold:
  "queue_inv q \<Longrightarrow> held_by w k q \<Longrightarrow> \<forall>op \<in> set ops. \<forall>now e fatal. op \<noteq> Fail now k e fatal
     \<Longrightarrow> queue_inv (fold queue_step ops q) \<and> held_by w k (fold queue_step ops q)"
  by (induction ops arbitrary: q) (simp_all add: held_step queue_inv_step)

lemma lease_not_held:
  assumes "queue_inv q" "held_by w k q" "lease_job w' tys q = (Some job, q')"
  shows "jb_id job \<noteq> k"
proof -
  obtain i old where f: "find (leasable tys) (q_jobs q) = Some (i, old)" and "jb_id job = jb_id old"
    using assms(3) by (auto simp: lease_job_def Let_def split: option.splits)
  moreover have "jb_id old = i" using queue_inv_job [OF assms(1) find_lease(1) [OF assms(1) f]] by (simp add: job_ok_def)
  ultimately show ?thesis using find_lease(1,2) [OF assms(1) f] assms(2) by (auto simp: held_by_def)
qed

lemma lease_held:
  assumes "queue_inv q" "lease_job w tys q = (Some job, q')"
  shows "held_by w (jb_id job) q'" "queue_inv q'"
    "get_job q (jb_id job) = Some (job\<lparr>jb_status := ''pending'', jb_worker_id := None\<rparr>)"
    "jb_type job \<in> set tys"
proof -
  obtain i old where f: "find (leasable tys) (q_jobs q) = Some (i, old)"
    and j: "job = old\<lparr>jb_status := ''running'', jb_worker_id := Some w\<rparr>" "q' = put_job job i q"
    using assms(2) by (auto simp: lease_job_def Let_def split: option.splits)
  have "job_ok i old" using queue_inv_job [OF assms(1) find_lease(1) [OF assms(1) f]] .
  then show "held_by w (jb_id job) q'" "get_job q (jb_id job) = Some (job\<lparr>jb_status := ''pending'', jb_worker_id := None\<rparr>)"
      "jb_type job \<in> set tys"
    using j find_lease [OF assms(1) f] by (simp_all add: held_by_def job_ok_def)
  show "queue_inv q'" using queue_inv_lease [OF assms(1), of w tys] assms(2) by simp
qed

lemma lease_exists:
  assumes "get_job q i = Some other" "jb_status other = ''pending''" "jb_type other \<in> set tys"
  shows "\<exists>again q'. lease_job w tys q = (Some again, q')"
proof -
  have "(i, other) \<in> set (q_jobs q)" using assms(1) by (simp add: get_job_def map_of_SomeD)
  then have "find (leasable tys) (q_jobs q) \<noteq> None" using assms by (auto simp: find_None_iff leasable_def)
  then show ?thesis by (auto simp: lease_job_def Let_def)
qed

lemma lease_oldest:
  assumes "queue_inv q" "lease_job w tys q = (Some job, q')" "get_job q i = Some other"
    "jb_status other = ''pending''" "jb_type other \<in> set tys"
  shows "jb_id job \<le> i"
proof -
  obtain n where n: "n < length (q_jobs q)" "q_jobs q ! n = (jb_id job, job\<lparr>jb_status := ''pending'', jb_worker_id := None\<rparr>)"
    and least: "\<forall>m < n. \<not> leasable tys (q_jobs q ! m)"
  proof -
    obtain k old where f: "find (leasable tys) (q_jobs q) = Some (k, old)"
      and j: "job = old\<lparr>jb_status := ''running'', jb_worker_id := Some w\<rparr>"
      using assms(2) by (auto simp: lease_job_def Let_def split: option.splits)
    have "job_ok k old" using queue_inv_job [OF assms(1) find_lease(1) [OF assms(1) f]] .
    then have "(k, old) = (jb_id job, job\<lparr>jb_status := ''pending'', jb_worker_id := None\<rparr>)"
      using j find_lease(2) [OF assms(1) f] by (simp add: job_ok_def)
    then show thesis using f that by (auto simp: find_Some_iff)
  qed
  obtain m where m: "m < length (q_jobs q)" "q_jobs q ! m = (i, other)"
    using assms(3) by (auto simp: get_job_def dest!: map_of_SomeD simp: in_set_conv_nth)
  have "n \<le> m" using least m assms(4,5) by (metis leasable_def not_le_imp_less snd_conv)
  moreover have "sorted_wrt (<) (map fst (q_jobs q))" using assms(1) by (simp add: queue_inv_def)
  ultimately show ?thesis
    using n m sorted_wrt_nth_less [of "(<)" "map fst (q_jobs q)" n m] by (cases "n = m") auto
qed

text \<open>
  C10: leases are exclusive. In every reachable queue a lease hands out the pending job of a
  requested type with the smallest id, marked as running for that worker; and whatever happens to
  the queue afterwards, as long as the job is not reported as failed it stays with that worker,
  running or completed, and no lease of any worker returns it again.
\<close>

theorem job_lease_exclusive:
  assumes "queue_reachable q" "lease_job w tys q = (Some job, q')"
    and "\<forall>op \<in> set ops. \<forall>now e fatal. op \<noteq> Fail now (jb_id job) e fatal"
  shows "get_job q (jb_id job) = Some (job\<lparr>jb_status := ''pending'', jb_worker_id := None\<rparr>) \<and>
     jb_type job \<in> set tys \<and>
     (\<forall>i other. get_job q i = Some other \<and> jb_status other = ''pending'' \<and> jb_type other \<in> set tys \<longrightarrow> jb_id job \<le> i) \<and>
     held_by w (jb_id job) (fold queue_step ops q') \<and>
     (\<forall>w' tys' again q''. lease_job w' tys' (fold queue_step ops q') = (Some again, q'') \<longrightarrow> jb_id again \<noteq> jb_id job)"
proof -
  have inv: "queue_inv q" by (rule queue.inv_reachable [OF assms(1)])
  note held = lease_held [OF inv assms(2)]
  note later = held_fold [OF held(2,1) assms(3)]
  show ?thesis
    using held(3,4) lease_oldest [OF inv assms(2)] later lease_not_held [of "fold queue_step ops q'"] by blast
qed

definition sample_queue :: Queue where
  "sample_queue = fold queue_step [Enqueue 1 ''embed'' PNone, Enqueue 2 ''extract'' PNone] empty_queue"

theorem job_lease_exclusive_witness:
  "\<exists>job q'. lease_job ''w1'' [''extract''] sample_queue = (Some job, q') \<and> jb_id job = 2 \<and>
     held_by ''w1'' 2 (fold queue_step [Heartbeat 3 2, Cancel 2, Complete 4 2 PNone, Fail 5 1 ''x'' False] q')"
proof -
  have "queue_reachable sample_queue" unfolding sample_queue_def by (rule queue_reachableI)
  moreover obtain job q' where "lease_job ''w1'' [''extract''] sample_queue = (Some job, q')" "jb_id job = 2"
    by (simp add: sample_queue_def empty_queue_def enqueue_job_def lease_job_def leasable_def Let_def)
  ultimately show ?thesis
    using job_lease_exclusive [of sample_queue "''w1''" "[''extract'']" job q'
        "[Heartbeat 3 2, Cancel 2, Complete 4 2 PNone, Fail 5 1 ''x'' False]"] by fastforce
qed

text \<open>
  a completed job can run again. Reporting a job as failed without the fatal flag, as the worker
  does for a job whose grace period ran out, makes it pending whatever its state was: a job that
  has completed in the meantime is handed to the next worker that asks for its type when no older
  job waits.
\<close>

theorem completed_job_requeued:
  assumes "queue_reachable q" "get_job q k = Some job"
    and "\<forall>i other. get_job q i = Some other \<and> i < k \<longrightarrow> jb_status other \<noteq> ''pending''"
  shows "\<exists>again q'. lease_job w [jb_type job] (fail_job later k msg False (complete_job now k res q)) = (Some again, q')
     \<and> jb_id again = k \<and> jb_result again = Some res \<and> jb_completed_at again = Some now"
proof -
  let ?q = "fail_job later k msg False (complete_job now k res q)"
  have inv: "queue_inv q" by (rule queue.inv_reachable [OF assms(1)])
  have "queue_inv ?q"
    using queue_inv_step [OF queue_inv_step [OF inv, of "Complete now k res"], of "Fail later k msg False"] by simp
  moreover obtain job' where job': "get_job ?q = (get_job q)(k \<mapsto> job')" "jb_status job' = ''pending''"
      "jb_type job' = jb_type job" "jb_result job' = Some res" "jb_completed_at job' = Some now"
    using assms(2) by (simp add: complete_job_def fail_job_def Let_def)
  ultimately obtain again q' where l: "lease_job w [jb_type job] ?q = (Some again, q')"
    using lease_exists [of ?q k job' "[jb_type job]" w] by (metis fun_upd_same list.set_intros(1))
  have "jb_id again \<le> k" using lease_oldest [OF \<open>queue_inv ?q\<close> l, of k job'] job' by simp
  moreover have g: "get_job ?q (jb_id again) = Some (again\<lparr>jb_status := ''pending'', jb_worker_id := None\<rparr>)"
    using lease_held(3) [OF \<open>queue_inv ?q\<close> l] .
  ultimately have "jb_id again = k" using assms(3) job'(1) by (fastforce simp: fun_eq_iff split: if_splits)
  then show ?thesis using l g job' by auto
qed

theorem completed_job_requeued_witness:
  "\<exists>again q'. lease_job ''w2'' [''embed''] (fail_job 4 1 ''late'' False (complete_job 3 1 PNone sample_queue)) = (Some again, q')
     \<and> jb_id again = 1"
proof -
  have r: "queue_reachable sample_queue" unfolding sample_queue_def by (rule queue_reachableI)
  have "\<exists>job. get_job sample_queue 1 = Some job \<and> jb_type job = ''embed''"
    "\<forall>i other. get_job sample_queue i = Some other \<and> i < 1 \<longrightarrow> jb_status other \<noteq> ''pending''"
    by (auto simp: sample_queue_def empty_queue_def enqueue_job_def get_job_def Let_def split: if_splits)
  then show ?thesis using completed_job_requeued [OF r] by metis
qed

subsection \<open>The sweep\<close>

lemma takeWhile_until: "x \<notin> set as \<Longrightarrow> takeWhile (\<lambda>c. c \<noteq> x) (as @ x # bs) = as"
  by (induction as) auto

lemma dropWhile_until: "x \<notin> set as \<Longrightarrow> dropWhile (\<lambda>c. c \<noteq> x) (as @ x # bs) = x # bs"
  by (induction as) auto

lemma underscore_not_digit: "CHR ''_'' \<notin> set (str_nat k)"
  using is_digit_str_nat [of k] by (auto simp: list_all_iff is_digit_def char_code_def)

lemma job_file_id_own:
  "d \<noteq> [] \<Longrightarrow> CHR ''_'' \<notin> set d \<Longrightarrow> job_file_id (''job_'' @ d @ ''_input'') = Some d"
  "d \<noteq> [] \<Longrightarrow> CHR ''_'' \<notin> set d \<Longrightarrow> job_file_id (''job_'' @ d @ ''_output'') = Some d"
  using takeWhile_until [of "CHR ''_''" d "''input''"] dropWhile_until [of "CHR ''_''" d "''input''"]
    takeWhile_until [of "CHR ''_''" d "''output''"] dropWhile_until [of "CHR ''_''" d "''output''"]
  by (simp_all add: job_file_id_def startswith_def single_line_def Let_def)

lemma job_of_own_file:
  assumes "name \<in> {job_input_name k, job_output_name k}"
  shows "job_of_file q name = map_option (\<lambda>j. (k, j)) (get_job q k)"
proof -
  have "job_file_id name = Some (str_nat k)"
    using assms job_file_id_own [OF str_nat_not_Nil underscore_not_digit]
    by (auto simp only: insert_iff empty_iff job_input_name_def job_output_name_def)
  then show ?thesis unfolding job_of_file_def using is_digit_str_nat [of k] by (simp only: option.case if_True dec_val_str_nat)
qed

text \<open>When an entry goes, stated on the queue before the sweep.\<close>

definition sweepable :: "rat \<Rightarrow> rat \<Rightarrow> Queue \<Rightarrow> JobFile \<Rightarrow> bool" where
  "sweepable now ttl q e \<longleftrightarrow> jf_is_file e \<and> jf_removable e \<and>
     (case job_of_file q (jf_name e) of
        None \<Rightarrow> ttl \<le> now - jf_mtime e
      | Some (k, job) \<Rightarrow> jb_status job \<in> set TERMINAL_STATES \<and> ttl \<le> now - terminal_time job)"

text \<open>Setting the purged mark on a job changes no decision.\<close>

definition marked :: "Queue \<Rightarrow> Queue \<Rightarrow> bool" where
  "marked q q' \<longleftrightarrow> (\<forall>k. map_option (\<lambda>j. j\<lparr>jb_purged := True\<rparr>) (get_job q k) = map_option (\<lambda>j. j\<lparr>jb_purged := True\<rparr>) (get_job q' k))"

lemma marked_get:
  assumes "marked q q'" "get_job q k = Some j"
  obtains j' where "get_job q' k = Some j'" "j\<lparr>jb_purged := True\<rparr> = j'\<lparr>jb_purged := True\<rparr>"
  using assms by (cases "get_job q' k") (auto simp: marked_def dest!: spec [where x = k])

lemma marked_refl [simp]: "marked q q"
  by (simp add: marked_def)

lemma marked_trans: "marked q q' \<Longrightarrow> marked q' q'' \<Longrightarrow> marked q q''"
  by (simp add: marked_def)

lemma marked_fields:
  assumes "j\<lparr>jb_purged := True\<rparr> = j'\<lparr>jb_purged := True\<rparr>"
  shows "jb_status j = jb_status j' \<and> terminal_time j = terminal_time j'"
proof -
  have "jb_status j = jb_status j'" "jb_completed_at j = jb_completed_at j'"
    "jb_failed_at j = jb_failed_at j'" "jb_created_at j = jb_created_at j'"
    using arg_cong [OF assms, of jb_status] arg_cong [OF assms, of jb_completed_at]
      arg_cong [OF assms, of jb_failed_at] arg_cong [OF assms, of jb_created_at] by simp_all
  then show ?thesis by (simp add: terminal_time_def split: option.splits)
qed

lemma sweepable_marked: "marked q q' \<Longrightarrow> sweepable now ttl q' e = sweepable now ttl q e"
proof -
  assume m: "marked q q'"
  have n: "get_job q k = None \<longleftrightarrow> get_job q' k = None" for k
    using m unfolding marked_def by (metis map_option_is_None)
  show ?thesis
    using n by (auto simp: sweepable_def job_of_file_def split: option.splits elim!: marked_get [OF m] dest!: marked_fields)
qed

lemma sweep_entry_eq: "sweep_entry now ttl e q = (removed, q') \<Longrightarrow> removed = sweepable now ttl q e \<and> marked q q'"
  by (auto simp: sweep_entry_def sweepable_def marked_def job_of_file_def get_job_def put_job_def update_conv'
      split: option.splits if_splits)

lemma sweep_job_files_eq:
  "sweep_job_files now ttl es q = (kept, n, q') \<Longrightarrow>
     kept = filter (\<lambda>e. \<not> sweepable now ttl q e) es \<and> n = length (filter (sweepable now ttl q) es) \<and> marked q q'"
proof (induction es arbitrary: q kept n q')
  case (Cons e es)
  obtain removed q1 where e: "sweep_entry now ttl e q = (removed, q1)" by fastforce
  obtain kept1 n1 q2 where r: "sweep_job_files now ttl es q1 = (kept1, n1, q2)" by (metis prod_cases3)
  note se = sweep_entry_eq [OF e]
  have same: "sweepable now ttl q1 = sweepable now ttl q" using sweepable_marked [of q q1] se by (simp add: fun_eq_iff)
  show ?case using Cons.prems Cons.IH [OF r] se e r same
    by (auto simp: case_prod_beta Let_def intro: marked_trans split: if_splits)
qed simp

text \<open>
  C26: the sweep removes exactly the files it may. Of the directory it keeps the entries that are not
  regular files, that cannot be unlinked, that belong to a job in a non-terminal state, or whose
  terminal job (or, without a job, whose modification) is more recent than the time to live; the
  input and output files of a pending or running job survive whatever their age, and the returned
  count is the number of files removed.
\<close>

theorem sweep_exact:
  assumes "sweep_job_files now ttl files q = (kept, n, q')"
  shows "kept = filter (\<lambda>e. \<not> sweepable now ttl q e) files \<and> n + length kept = length files \<and>
     (\<forall>e k job. e \<in> set files \<and> get_job q k = Some job \<and> jb_status job \<in> {''pending'', ''running''} \<and>
        jf_name e \<in> {job_input_name k, job_output_name k} \<longrightarrow> e \<in> set kept)"
proof -
  note eq = sweep_job_files_eq [OF assms]
  note sum_length_filter_compl [of "sweepable now ttl q" files]
  moreover have "\<not> sweepable now ttl q e"
    if "get_job q k = Some job" "jb_status job \<in> {''pending'', ''running''}"
      "jf_name e \<in> {job_input_name k, job_output_name k}" for e k job
    using that job_of_own_file [OF that(3), of q] by (auto simp: sweepable_def TERMINAL_STATES_def)
  ultimately show ?thesis using eq by auto
qed

definition sample_files :: "JobFile list" where
  "sample_files =
     [\<lparr>jf_name = job_input_name 1, jf_is_file = True, jf_mtime = 0, jf_removable = True\<rparr>,
      \<lparr>jf_name = job_input_name 9, jf_is_file = True, jf_mtime = 0, jf_removable = True\<rparr>]"

theorem sweep_exact_witness:
  "\<exists>q'. sweep_job_files 1000 10 sample_files sample_queue = ([sample_files ! 0], 1, q')"
proof -
  obtain kept n q' where s: "sweep_job_files 1000 10 sample_files sample_queue = (kept, n, q')" by (metis prod_cases3)
  have one: "job_of_file sample_queue (job_input_name k) = map_option (\<lambda>j. (k, j)) (get_job sample_queue k)" for k
    by (rule job_of_own_file) simp
  have "filter (\<lambda>e. \<not> sweepable 1000 10 sample_queue e) sample_files = [sample_files ! 0]" "length sample_files = 2"
    using one by (simp_all add: sample_files_def sweepable_def sample_queue_def empty_queue_def enqueue_job_def
        get_job_def TERMINAL_STATES_def Let_def)
  moreover have "kept = filter (\<lambda>e. \<not> sweepable 1000 10 sample_queue e) sample_files"
    "n + length kept = length sample_files" using sweep_exact [OF s] by blast+
  ultimately have "kept = [sample_files ! 0]" "n = 1" by simp_all
  then show ?thesis using s by simp
qed

end
