(* ===== verification/Evidence_Blobs.thy ===== *)
theory Evidence_Blobs
  imports Prelude
begin

text \<open>
  Reference-counted evidence blobs, \<^verbatim>\<open>src/backend/evidence_storage.py\<close>. The two tables are lists
  with the keys and the cascading foreign key of their migration, one call is one committed
  transaction, and the file system is the list of existing paths together with the paths whose
  removal the system refuses. Fernet encryption is a pair of parameters.
\<close>

section \<open>Data encryption keys\<close>

definition generate_dek ::
  "(bytes \<Rightarrow> bytes \<Rightarrow> bytes) \<Rightarrow> bytes option \<Rightarrow> bytes \<Rightarrow> bytes \<Rightarrow> bytes \<times> bytes" where
  "generate_dek encrypt master fresh_master dek =
     (let key = (case master of None \<Rightarrow> fresh_master | Some [] \<Rightarrow> fresh_master | Some m \<Rightarrow> m)
      in (dek, encrypt key dek))"

definition decrypt_dek :: "(bytes \<Rightarrow> bytes \<Rightarrow> bytes option) \<Rightarrow> bytes option \<Rightarrow> bytes \<Rightarrow> string + bytes option" where
  "decrypt_dek decrypt master encrypted_dek =
     (case master of
        None \<Rightarrow> Inl ''MASTER_ENCRYPTION_KEY is not set''
      | Some [] \<Rightarrow> Inl ''MASTER_ENCRYPTION_KEY is not set''
      | Some m \<Rightarrow> Inr (decrypt m encrypted_dek))"

section \<open>The tables\<close>

record Blob =
  bl_content_hash :: string
  bl_encrypted_dek :: bytes
  bl_size_bytes :: int
  bl_storage_path :: string
  bl_created_at :: rat

record BlobStore =
  bs_blobs :: "Blob list"
  bs_refs :: "((string \<times> string) \<times> int) list"
  bs_files :: "string list"

datatype BlobError = ForeignKeyViolation

definition has_blob :: "string \<Rightarrow> BlobStore \<Rightarrow> bool" where
  "has_blob h st \<longleftrightarrow> h \<in> set (map bl_content_hash (bs_blobs st))"

definition record_blob :: "rat \<Rightarrow> string \<Rightarrow> bytes \<Rightarrow> int \<Rightarrow> string \<Rightarrow> BlobStore \<Rightarrow> BlobStore" where
  "record_blob now content_hash encrypted_dek size_bytes storage_path st =
     (if has_blob content_hash st then st
      else st\<lparr>bs_blobs := bs_blobs st @
             [\<lparr>bl_content_hash = content_hash, bl_encrypted_dek = encrypted_dek, bl_size_bytes = size_bytes,
               bl_storage_path = storage_path, bl_created_at = now\<rparr>]\<rparr>)"

definition record_tenant_ref :: "string \<Rightarrow> string \<Rightarrow> BlobStore \<Rightarrow> BlobError + BlobStore" where
  "record_tenant_ref tenant_id content_hash st =
     (case map_of (bs_refs st) (tenant_id, content_hash) of
        None \<Rightarrow>
          if has_blob content_hash st
          then Inr (st\<lparr>bs_refs := bs_refs st @ [((tenant_id, content_hash), 1)]\<rparr>)
          else Inl ForeignKeyViolation
      | Some n \<Rightarrow> Inr (st\<lparr>bs_refs := AList.update (tenant_id, content_hash) (n + 1) (bs_refs st)\<rparr>))"

definition remove_tenant_ref :: "string \<Rightarrow> string \<Rightarrow> BlobStore \<Rightarrow> bool \<times> BlobStore" where
  "remove_tenant_ref tenant_id content_hash st =
     (case map_of (bs_refs st) (tenant_id, content_hash) of
        None \<Rightarrow> (False, st)
      | Some ref_count \<Rightarrow>
          (True,
           if 1 < ref_count
           then st\<lparr>bs_refs := AList.update (tenant_id, content_hash) (ref_count - 1) (bs_refs st)\<rparr>
           else st\<lparr>bs_refs := AList.delete (tenant_id, content_hash) (bs_refs st)\<rparr>))"

definition referenced :: "BlobStore \<Rightarrow> string \<Rightarrow> bool" where
  "referenced st h \<longleftrightarrow> list_ex (\<lambda>((_, h'), n). h' = h \<and> 0 < n) (bs_refs st)"

definition unreferenced_blobs :: "BlobStore \<Rightarrow> Blob list" where
  "unreferenced_blobs st = sort_key bl_created_at (filter (\<lambda>b. \<not> referenced st (bl_content_hash b)) (bs_blobs st))"

text \<open>Deleting a blob row also deletes the reference rows that point to it.\<close>

definition delete_blob :: "string \<Rightarrow> BlobStore \<Rightarrow> BlobStore" where
  "delete_blob h st =
     st\<lparr>bs_blobs := filter (\<lambda>b. bl_content_hash b \<noteq> h) (bs_blobs st),
        bs_refs := filter (\<lambda>((_, h'), _). h' \<noteq> h) (bs_refs st)\<rparr>"

definition collect_blob :: "(string \<Rightarrow> bool) \<Rightarrow> Blob \<Rightarrow> nat \<times> BlobStore \<Rightarrow> nat \<times> BlobStore" where
  "collect_blob refuses b acc =
     (let (collected, st) = acc; path = bl_storage_path b in
      if path \<noteq> [] \<and> path \<in> set (bs_files st) \<and> refuses path then (collected, st)
      else (collected + 1,
            delete_blob (bl_content_hash b)
              (if path \<noteq> [] then st\<lparr>bs_files := removeAll path (bs_files st)\<rparr> else st)))"

definition collect_unreferenced_blobs :: "(string \<Rightarrow> bool) \<Rightarrow> int \<Rightarrow> BlobStore \<Rightarrow> nat \<times> BlobStore" where
  "collect_unreferenced_blobs refuses limit st =
     (if limit < 1 then (0, st)
      else fold (collect_blob refuses) (take (nat limit) (unreferenced_blobs st)) (0, st))"

definition get_blob_info :: "string \<Rightarrow> BlobStore \<Rightarrow> (bytes \<times> string) option" where
  "get_blob_info content_hash st =
     map_option (\<lambda>b. (bl_encrypted_dek b, bl_storage_path b))
       (find (\<lambda>b. bl_content_hash b = content_hash) (bs_blobs st))"

datatype BlobOp =
    RecordBlob rat string bytes int string
  | RecordRef string string
  | RemoveRef string string
  | Collect "string \<Rightarrow> bool" int
  | WriteFile string

text \<open>A failed statement leaves the tables as they were; \<open>WriteFile\<close> is the caller storing a blob's bytes.\<close>

fun blob_step :: "BlobOp \<Rightarrow> BlobStore \<Rightarrow> BlobStore" where
  "blob_step (RecordBlob now h dek n path) st = record_blob now h dek n path st"
| "blob_step (RecordRef t h) st = (case record_tenant_ref t h st of Inl _ \<Rightarrow> st | Inr st' \<Rightarrow> st')"
| "blob_step (RemoveRef t h) st = snd (remove_tenant_ref t h st)"
| "blob_step (Collect refuses limit) st = snd (collect_unreferenced_blobs refuses limit st)"
| "blob_step (WriteFile path) st = st\<lparr>bs_files := path # bs_files st\<rparr>"

definition no_blobs :: BlobStore where
  "no_blobs = \<lparr>bs_blobs = [], bs_refs = [], bs_files = []\<rparr>"

section \<open>Invariant and collection\<close>

definition blob_inv :: "BlobStore \<Rightarrow> bool" where
  "blob_inv st \<longleftrightarrow> distinct (map bl_content_hash (bs_blobs st)) \<and> distinct (map fst (bs_refs st)) \<and>
     (\<forall>r \<in> set (bs_refs st). 1 \<le> snd r \<and> has_blob (snd (fst r)) st)"

definition uncollectable :: "(string \<Rightarrow> bool) \<Rightarrow> BlobStore \<Rightarrow> Blob \<Rightarrow> bool" where
  "uncollectable refuses st b \<longleftrightarrow> bl_storage_path b \<noteq> [] \<and> bl_storage_path b \<in> set (bs_files st) \<and> refuses (bl_storage_path b)"

lemma referenced_iff: "blob_inv st \<Longrightarrow> referenced st h \<longleftrightarrow> (\<exists>t. (t, h) \<in> fst ` set (bs_refs st))"
  by (force simp: referenced_def list_ex_iff blob_inv_def)

lemma referencedI: "blob_inv st \<Longrightarrow> map_of (bs_refs st) (t, h) = Some n \<Longrightarrow> referenced st h"
  by (auto simp: referenced_iff dest!: map_of_SomeD) (metis fst_conv image_eqI)

lemma referenced_has_blob: "blob_inv st \<Longrightarrow> referenced st h \<Longrightarrow> has_blob h st"
  by (auto simp: referenced_iff blob_inv_def)

text \<open>Collecting blobs none of which is referenced keeps every reference row.\<close>

definition kept_after :: "(string \<Rightarrow> bool) \<Rightarrow> Blob list \<Rightarrow> BlobStore \<Rightarrow> BlobStore" where
  "kept_after refuses bs st =
     st\<lparr>bs_blobs := filter (\<lambda>b. \<not> (\<exists>c \<in> set bs. bl_content_hash c = bl_content_hash b \<and> \<not> uncollectable refuses st c)) (bs_blobs st),
        bs_files := filter (\<lambda>f. \<not> (\<exists>c \<in> set bs. bl_storage_path c \<noteq> [] \<and> bl_storage_path c = f \<and> \<not> refuses f)) (bs_files st)\<rparr>"

lemma delete_blob_refs:
  "blob_inv st \<Longrightarrow> \<not> referenced st h \<Longrightarrow>
     delete_blob h st = st\<lparr>bs_blobs := filter (\<lambda>b. bl_content_hash b \<noteq> h) (bs_blobs st)\<rparr>"
  by (auto simp: delete_blob_def referenced_iff intro!: filter_True BlobStore.equality) force

lemma collect_blob_eq:
  assumes "blob_inv st" "\<not> referenced st (bl_content_hash b)"
  shows "collect_blob refuses b (n, st) = (if uncollectable refuses st b then (n, st) else (n + 1, kept_after refuses [b] st))"
proof -
  let ?st = "if bl_storage_path b \<noteq> [] then st\<lparr>bs_files := removeAll (bl_storage_path b) (bs_files st)\<rparr> else st"
  have "blob_inv ?st" "\<not> referenced ?st (bl_content_hash b)"
    using assms by (simp_all add: blob_inv_def referenced_def has_blob_def)
  note d = delete_blob_refs [OF this]
  show ?thesis
  proof (cases "uncollectable refuses st b")
    case True
    then show ?thesis by (simp add: collect_blob_def uncollectable_def Let_def)
  next
    case False
    then have "filter (\<lambda>f. bl_storage_path b \<noteq> [] \<longrightarrow> bl_storage_path b = f \<longrightarrow> refuses f) (bs_files st) = bs_files ?st"
      by (auto simp: uncollectable_def removeAll_filter_not_eq filter_empty_conv intro!: filter_cong filter_True)
    then show ?thesis
      using False d by (auto simp: collect_blob_def uncollectable_def kept_after_def Let_def eq_commute)
  qed
qed

lemma blob_inv_kept_after:
  assumes "blob_inv st" "\<forall>b \<in> set bs. \<not> referenced st (bl_content_hash b)"
  shows "blob_inv (kept_after refuses bs st)" "referenced (kept_after refuses bs st) h = referenced st h"
proof -
  show "referenced (kept_after refuses bs st) h = referenced st h" by (simp add: referenced_def kept_after_def)
  have "has_blob h (kept_after refuses bs st)" if "((t, h), n) \<in> set (bs_refs st)" for t h n
  proof -
    have r: "referenced st h" using that assms(1) by (force simp: referenced_iff)
    then show ?thesis using referenced_has_blob [OF assms(1) r] assms(2)
      by (auto simp: has_blob_def kept_after_def intro!: imageI)
  qed
  then show "blob_inv (kept_after refuses bs st)"
    using assms(1) by (auto simp: blob_inv_def kept_after_def distinct_map inj_on_def)
qed

lemma kept_after_Cons:
  assumes "\<not> uncollectable refuses st b"
  shows "kept_after refuses bs (kept_after refuses [b] st) = kept_after refuses (b # bs) st"
    "uncollectable refuses (kept_after refuses [b] st) = uncollectable refuses st"
proof -
  show u: "uncollectable refuses (kept_after refuses [b] st) = uncollectable refuses st"
    by (auto simp: uncollectable_def kept_after_def fun_eq_iff)
  show "kept_after refuses bs (kept_after refuses [b] st) = kept_after refuses (b # bs) st"
    unfolding kept_after_def [of refuses bs] u using assms
    by (auto simp: kept_after_def intro!: filter_cong)
qed

lemma kept_after_skip: "uncollectable refuses st b \<Longrightarrow> kept_after refuses (b # bs) st = kept_after refuses bs st"
  by (rule BlobStore.equality) (auto simp: kept_after_def uncollectable_def intro!: filter_cong)

lemma collect_fold:
  assumes "blob_inv st" "\<forall>b \<in> set bs. \<not> referenced st (bl_content_hash b)"
  shows "fold (collect_blob refuses) bs (n, st) =
     (n + length (filter (\<lambda>b. \<not> uncollectable refuses st b) bs), kept_after refuses bs st)"
  using assms
proof (induction bs arbitrary: n st)
  case Nil
  then show ?case by (simp add: kept_after_def)
next
  case (Cons b bs)
  then show ?case
    using blob_inv_kept_after [OF Cons.prems(1), of "[b]" refuses]
    by (simp add: collect_blob_eq kept_after_Cons kept_after_skip)
qed

lemma unreferenced_set: "set (unreferenced_blobs st) = {b \<in> set (bs_blobs st). \<not> referenced st (bl_content_hash b)}"
  by (auto simp: unreferenced_blobs_def)

lemma collect_eq:
  assumes "blob_inv st"
  shows "collect_unreferenced_blobs refuses limit st =
     (let bs = take (nat limit) (unreferenced_blobs st)
      in (length (filter (\<lambda>b. \<not> uncollectable refuses st b) bs), kept_after refuses bs st))"
proof (cases "limit < 1")
  case True
  then show ?thesis by (simp add: collect_unreferenced_blobs_def kept_after_def)
next
  case False
  have "\<forall>b \<in> set (take (nat limit) (unreferenced_blobs st)). \<not> referenced st (bl_content_hash b)"
    using set_take_subset [of "nat limit" "unreferenced_blobs st"] by (auto simp: unreferenced_set)
  then show ?thesis using False collect_fold [OF assms] by (simp add: collect_unreferenced_blobs_def Let_def)
qed

lemma take_unreferenced:
  "b \<in> set (take n (unreferenced_blobs st)) \<Longrightarrow> b \<in> set (bs_blobs st) \<and> \<not> referenced st (bl_content_hash b)"
  using set_take_subset [of n "unreferenced_blobs st"] by (auto simp: unreferenced_set)

lemma blob_inv_step: "blob_inv st \<Longrightarrow> blob_inv (blob_step op st)"
proof (cases op)
  case (RecordRef t h)
  assume inv: "blob_inv st"
  show ?thesis
  proof (cases "map_of (bs_refs st) (t, h)")
    case None
    then have "(t, h) \<notin> fst ` set (bs_refs st)" by (simp add: map_of_eq_None_iff)
    then show ?thesis using inv RecordRef None by (auto simp: record_tenant_ref_def blob_inv_def has_blob_def)
  next
    case (Some n)
    then have m: "((t, h), n) \<in> set (bs_refs st)" by (rule map_of_SomeD)
    then have "1 \<le> n" "has_blob h st" using inv by (auto simp: blob_inv_def)
    then have "\<forall>r \<in> set (AList.update (t, h) (n + 1) (bs_refs st)). 1 \<le> snd r \<and> has_blob (snd (fst r)) st"
      using inv set_alist_update [of "(t, h)" "n + 1" "bs_refs st"] by (fastforce simp: blob_inv_def)
    then show ?thesis using inv Some RecordRef
      by (simp add: record_tenant_ref_def blob_inv_def has_blob_def distinct_update)
  qed
next
  case (RemoveRef t h)
  assume inv: "blob_inv st"
  show ?thesis
  proof (cases "map_of (bs_refs st) (t, h)")
    case None
    then show ?thesis using inv RemoveRef by (simp add: remove_tenant_ref_def)
  next
    case (Some n)
    then have m: "((t, h), n) \<in> set (bs_refs st)" by (rule map_of_SomeD)
    then have "has_blob h st" using inv by (auto simp: blob_inv_def)
    then have "1 < n \<Longrightarrow> \<forall>r \<in> set (AList.update (t, h) (n - 1) (bs_refs st)). 1 \<le> snd r \<and> has_blob (snd (fst r)) st"
      "\<forall>r \<in> set (AList.delete (t, h) (bs_refs st)). 1 \<le> snd r \<and> has_blob (snd (fst r)) st"
      using inv set_alist_update [of "(t, h)" "n - 1" "bs_refs st"] set_alist_delete [of "(t, h)" "bs_refs st"]
      by (fastforce simp: blob_inv_def)+
    then show ?thesis using inv Some RemoveRef
      by (simp add: remove_tenant_ref_def blob_inv_def has_blob_def distinct_update distinct_delete)
  qed
next
  case (Collect refuses limit)
  assume inv: "blob_inv st"
  show ?thesis using inv take_unreferenced blob_inv_kept_after(1) [OF inv]
    by (auto simp: Collect collect_eq [OF inv] Let_def)
qed (auto simp: record_blob_def blob_inv_def has_blob_def)

interpretation blobs: invariant_system "\<lambda>st. st = no_blobs" "\<lambda>st op st'. st' = blob_step op st" blob_inv
proof
  show "blob_inv st" if "st = no_blobs" for st using that by (simp add: blob_inv_def no_blobs_def)
qed (simp add: blob_inv_step)

abbreviation blobs_reachable :: "BlobStore \<Rightarrow> bool" where
  "blobs_reachable \<equiv> reachable (\<lambda>st. st = no_blobs) (\<lambda>st op st'. st' = blob_step op st)"

section \<open>Properties\<close>

definition ref_count :: "BlobStore \<Rightarrow> string \<Rightarrow> string \<Rightarrow> int" where
  "ref_count st t h = (case map_of (bs_refs st) (t, h) of None \<Rightarrow> 0 | Some n \<Rightarrow> n)"

text \<open>What holds of a stored blob while a tenant has references to it.\<close>

definition secured :: "string \<Rightarrow> string \<Rightarrow> bytes \<times> string \<Rightarrow> BlobStore \<Rightarrow> bool" where
  "secured t h info st \<longleftrightarrow> blob_inv st \<and> 0 < ref_count st t h \<and> get_blob_info h st = Some info \<and>
     (\<forall>b \<in> set (bs_blobs st). bl_storage_path b = snd info \<longrightarrow> bl_content_hash b = h) \<and> snd info \<in> set (bs_files st)"

lemma ref_count_step:
  "ref_count (blob_step (RecordRef t' h') st) t h =
     ref_count st t h + (if (t', h') = (t, h) \<and> (0 < ref_count st t h \<or> has_blob h st) then 1 else 0)"
  if "blob_inv st"
  using that
  by (auto simp: ref_count_def record_tenant_ref_def update_conv' map_add_def split: option.splits)
    (force simp: blob_inv_def dest!: map_of_SomeD)+

lemma ref_count_remove:
  "blob_inv st \<Longrightarrow> ref_count (blob_step (RemoveRef t' h') st) t h =
     ref_count st t h - (if (t', h') = (t, h) \<and> 0 < ref_count st t h then 1 else 0)"
  by (auto simp: ref_count_def remove_tenant_ref_def update_conv' split: option.splits)
    (force simp: blob_inv_def dest!: map_of_SomeD)+

lemma secured_collect:
  assumes "secured t h info st"
  shows "secured t h info (blob_step (Collect refuses limit) st)"
proof -
  let ?bs = "take (nat limit) (unreferenced_blobs st)"
  have inv: "blob_inv st" using assms by (simp add: secured_def)
  have "referenced st h"
    using assms referencedI [OF inv, of t h] by (auto simp: secured_def ref_count_def split: option.splits)
  then have other: "bl_content_hash b \<noteq> h \<and> bl_storage_path b \<noteq> snd info" if "b \<in> set ?bs" for b
    using take_unreferenced [OF that] assms by (auto simp: secured_def)
  have step: "blob_step (Collect refuses limit) st = kept_after refuses ?bs st" by (simp add: collect_eq [OF inv] Let_def)
  have "find (\<lambda>b. bl_content_hash b = h) (bs_blobs (kept_after refuses ?bs st)) = find (\<lambda>b. bl_content_hash b = h) (bs_blobs st)"
    using other by (auto simp: kept_after_def intro!: find_filter_keep)
  then have "get_blob_info h (kept_after refuses ?bs st) = get_blob_info h st" by (simp add: get_blob_info_def)
  then show ?thesis
    using assms other blob_inv_step [OF inv, of "Collect refuses limit"] unfolding step
    by (auto simp: secured_def ref_count_def kept_after_def)
qed

lemma secured_step:
  assumes "secured t h info st" "\<And>now h' dek n. op \<noteq> RecordBlob now h' dek n (snd info)"
    and "op = RemoveRef t h \<Longrightarrow> 1 < ref_count st t h"
  shows "secured t h info (blob_step op st)"
proof (cases op)
  case (Collect refuses limit)
  then show ?thesis using secured_collect [OF assms(1)] by blast
next
  case (RecordBlob now h' dek n path)
  have inv: "blob_inv (blob_step op st)" using assms(1) blob_inv_step by (simp add: secured_def)
  then show ?thesis using assms RecordBlob
    by (auto simp: secured_def record_blob_def get_blob_info_def ref_count_def find_append_keep)
next
  case (RecordRef t' h')
  have inv: "blob_inv st" "blob_inv (blob_step op st)" using assms(1) blob_inv_step by (simp_all add: secured_def)
  then have "0 < ref_count (blob_step op st) t h" using assms(1) by (simp add: RecordRef ref_count_step secured_def del: blob_step.simps)
  then show ?thesis using assms(1) inv RecordRef
    by (auto simp: secured_def record_tenant_ref_def get_blob_info_def split: option.splits)
next
  case (RemoveRef t' h')
  have inv: "blob_inv st" "blob_inv (blob_step op st)" using assms(1) blob_inv_step by (simp_all add: secured_def)
  then have "0 < ref_count (blob_step op st) t h" using assms(1,3) by (auto simp: RemoveRef ref_count_remove secured_def simp del: blob_step.simps)
  then show ?thesis using assms(1) inv RemoveRef
    by (auto simp: secured_def remove_tenant_ref_def get_blob_info_def split: option.splits)
next
  case (WriteFile path)
  then show ?thesis using assms(1)
    by (auto simp: secured_def get_blob_info_def ref_count_def blob_inv_def has_blob_def)
qed

fun removals :: "string \<Rightarrow> string \<Rightarrow> BlobOp list \<Rightarrow> int" where
  "removals t h [] = 0"
| "removals t h (op # ops) = (case op of RemoveRef t' h' \<Rightarrow> if (t', h') = (t, h) then 1 else 0 | _ \<Rightarrow> 0) + removals t h ops"

lemma removals_nonneg: "0 \<le> removals t h ops"
  by (induction ops) (auto split: BlobOp.splits)

lemma ref_count_any:
  assumes "secured t h info st"
  shows "ref_count st t h \<le> ref_count (blob_step op st) t h + (case op of RemoveRef t' h' \<Rightarrow> if (t', h') = (t, h) then 1 else 0 | _ \<Rightarrow> 0)"
proof -
  have inv: "blob_inv st" using assms by (simp add: secured_def)
  show ?thesis
  proof (cases op)
    case (RecordRef t' h')
    then show ?thesis using ref_count_step [OF inv, of t' h' t h] by simp
  next
    case (RemoveRef t' h')
    then show ?thesis using ref_count_remove [OF inv, of t' h' t h] by simp
  next
    case (Collect refuses limit)
    then show ?thesis by (simp add: collect_eq [OF inv] Let_def ref_count_def kept_after_def)
  qed (simp_all add: ref_count_def record_blob_def)
qed

lemma secured_run:
  assumes "secured t h info st" "\<forall>op \<in> set ops. \<forall>now h' dek n. op \<noteq> RecordBlob now h' dek n (snd info)"
    and "removals t h ops < ref_count st t h"
  shows "secured t h info (fold blob_step ops st)"
  using assms
proof (induction ops arbitrary: st)
  case (Cons op ops)
  have "secured t h info (blob_step op st)"
    using Cons.prems removals_nonneg [of t h ops] by (intro secured_step) auto
  moreover have "removals t h ops < ref_count (blob_step op st) t h"
    using Cons.prems(3) ref_count_any [OF Cons.prems(1), of op] by (simp split: BlobOp.splits if_splits)
  ultimately show ?case using Cons.IH Cons.prems(2) by simp
qed simp


definition sample_blobs :: BlobStore where
  "sample_blobs = fold blob_step
     [WriteFile ''/a'', RecordBlob 1 ''h1'' [] 5 ''/a'', RecordBlob 2 ''h2'' [] 5 ''/b'', RecordRef ''t'' ''h1'', RecordRef ''t'' ''h1''] no_blobs"

lemma sample_blobs_eq:
  "blobs_reachable sample_blobs" "get_blob_info ''h1'' sample_blobs = Some ([], ''/a'')"
  "bs_files sample_blobs = [''/a'']" "ref_count sample_blobs ''t'' ''h1'' = 2"
  "bs_blobs sample_blobs =
     [\<lparr>bl_content_hash = ''h1'', bl_encrypted_dek = [], bl_size_bytes = 5, bl_storage_path = ''/a'', bl_created_at = 1\<rparr>,
      \<lparr>bl_content_hash = ''h2'', bl_encrypted_dek = [], bl_size_bytes = 5, bl_storage_path = ''/b'', bl_created_at = 2\<rparr>]"
proof -
  show "blobs_reachable sample_blobs" unfolding sample_blobs_def by (rule reachable_fold) simp
qed (simp_all add: sample_blobs_def no_blobs_def record_blob_def record_tenant_ref_def get_blob_info_def
      ref_count_def has_blob_def)


end
