(* ===== verification/Retention.thy ===== *)
theory Retention
  imports Proof_Store Job_Queue Evidence_Blobs
begin

text \<open>
  The retention worker, \<^verbatim>\<open>src/backend/retention.py\<close>: one run purges expired proof events in batches,
  sweeps the job files and collects unreferenced blobs. It composes the operations of
  \<open>Proof_Store\<close>, \<open>Job_Queue\<close> and \<open>Evidence_Blobs\<close>. The two \<open>while True\<close> loops are recursive
  functions with a termination proof; a batch size \<open>n + 1\<close> stands for the positive batch size that
  the constructor insists on. The database clock is read once per batch: it is a sequence.
\<close>

section \<open>The loops\<close>

definition new_retention_worker :: "int \<Rightarrow> string + nat" where
  "new_retention_worker batch_size =
     (if batch_size < 1 then Inl ''batch_size must be >= 1'' else Inr (nat batch_size - 1))"

lemma purge_shrinks:
  "length (st_rows (snd (purge_expired_events now b st))) + (if fst (purge_expired_events now b st) = [] then 0 else 1)
     \<le> length (st_rows st)"
proof (cases "st_configured st")
  case True
  define E where "E = take (nat (max 1 (min b RETENTION_BATCH_MAX_SIZE))) (id_asc (filter (expired_event now) (st_rows st)))"
  have sub: "set E \<subseteq> set (st_rows st)"
    using set_take_subset unfolding E_def id_asc_def by fastforce
  have p: "purge_expired_events now b st = (map (receipt_of now) E,
      st\<lparr>st_rows := filter (\<lambda>r. pe_id r \<notin> pe_id ` set E) (st_rows st), st_receipts := st_receipts st @ map (receipt_of now) E\<rparr>)"
    using True by (simp add: purge_expired_events_def Let_def E_def)
  show ?thesis
  proof (cases E)
    case (Cons r rs)
    then have "length (filter (\<lambda>r. pe_id r \<notin> pe_id ` set E) (st_rows st)) < length (st_rows st)"
      using sub by (intro length_filter_less [of r]) auto
    then show ?thesis by (simp add: p Cons)
  qed (simp add: p)
qed (simp add: purge_expired_events_def)

function purge_events_loop :: "(nat \<Rightarrow> rat) \<Rightarrow> nat \<Rightarrow> Store \<Rightarrow> nat \<times> Store" where
  "purge_events_loop clock n st =
     (let (receipts, st') = purge_expired_events (clock 0) (int (Suc n)) st in
      if length receipts < Suc n then (length receipts, st')
      else let (m, st'') = purge_events_loop (\<lambda>i. clock (Suc i)) n st' in (length receipts + m, st''))"
  by auto
termination
proof (relation "measure (\<lambda>(_, _, st). length (st_rows st))")
  fix clock :: "nat \<Rightarrow> rat" and n st x receipts st'
  assume x: "x = purge_expired_events (clock 0) (int (Suc n)) st" "(receipts, st') = x" "\<not> length receipts < Suc n"
  then have "receipts \<noteq> []" by auto
  then show "((\<lambda>i. clock (Suc i), n, st'), (clock, n, st)) \<in> measure (\<lambda>(_, _, st). length (st_rows st))"
    using x(1,2) purge_shrinks [of "clock 0" "int (Suc n)" st] by (simp add: prod_eq_iff)
qed simp

lemma collect_blob_length:
  "length (bs_blobs (snd (collect_blob refuses b acc))) \<le> length (bs_blobs (snd acc))"
  by (auto simp: collect_blob_def delete_blob_def Let_def case_prod_beta)

lemma collect_fold_length:
  assumes "set bs \<subseteq> set (bs_blobs st)" "fold (collect_blob refuses) bs (0, st) = (k, st')"
  shows "length (bs_blobs st') + (if k = 0 then 0 else 1) \<le> length (bs_blobs st)"
proof -
  have "(fst acc = 0 \<and> bs_blobs (snd acc) = bs_blobs st \<or> length (bs_blobs (snd acc)) < length (bs_blobs st)) \<Longrightarrow>
      set bs \<subseteq> set (bs_blobs st) \<Longrightarrow>
      (let r = fold (collect_blob refuses) bs acc in fst r = 0 \<and> bs_blobs (snd r) = bs_blobs st \<or>
         length (bs_blobs (snd r)) < length (bs_blobs st))" for acc
  proof (induction bs arbitrary: acc)
    case (Cons b bs)
    have "fst (collect_blob refuses b acc) = 0 \<and> bs_blobs (snd (collect_blob refuses b acc)) = bs_blobs st \<or>
        length (bs_blobs (snd (collect_blob refuses b acc))) < length (bs_blobs st)"
    proof (cases "length (bs_blobs (snd acc)) < length (bs_blobs st)")
      case True
      then show ?thesis using collect_blob_length [of refuses b acc] by linarith
    next
      case False
      then have same: "fst acc = 0" "bs_blobs (snd acc) = bs_blobs st" using Cons.prems(1) by auto
      have "length (filter (\<lambda>c. bl_content_hash c \<noteq> bl_content_hash b) (bs_blobs st)) < length (bs_blobs st)"
        using Cons.prems(2) by (intro length_filter_less [of b]) auto
      then show ?thesis using same by (auto simp: collect_blob_def delete_blob_def Let_def case_prod_beta)
    qed
    then show ?case using Cons.IH Cons.prems(2) by simp
  qed (simp add: Let_def)
  from this [of "(0, st)"] show ?thesis using assms by (auto simp: Let_def)
qed

lemma collect_shrinks:
  "length (bs_blobs (snd (collect_unreferenced_blobs refuses limit st))) +
     (if fst (collect_unreferenced_blobs refuses limit st) = 0 then 0 else 1) \<le> length (bs_blobs st)"
proof -
  have "set (take (nat limit) (unreferenced_blobs st)) \<subseteq> set (bs_blobs st)"
    using set_take_subset [of "nat limit" "unreferenced_blobs st"] by (auto simp: unreferenced_blobs_def)
  then show ?thesis
    using collect_fold_length [of "take (nat limit) (unreferenced_blobs st)" st refuses]
    by (auto simp: collect_unreferenced_blobs_def prod_eq_iff)
qed

function collect_blobs_loop :: "(string \<Rightarrow> bool) \<Rightarrow> nat \<Rightarrow> BlobStore \<Rightarrow> nat \<times> BlobStore" where
  "collect_blobs_loop refuses n st =
     (let (purged, st') = collect_unreferenced_blobs refuses (int (Suc n)) st in
      if purged < Suc n then (purged, st')
      else let (m, st'') = collect_blobs_loop refuses n st' in (purged + m, st''))"
  by auto
termination
proof (relation "measure (\<lambda>(_, _, st). length (bs_blobs st))")
  fix refuses n st x purged st'
  assume x: "x = collect_unreferenced_blobs refuses (int (Suc n)) st" "(purged, st') = x" "\<not> purged < Suc n"
  then show "((refuses, n, st'), (refuses, n, st)) \<in> measure (\<lambda>(_, _, st). length (bs_blobs st))"
    using collect_shrinks [of refuses "int (Suc n)" st] by (simp add: prod_eq_iff split: if_splits)
qed simp

declare purge_events_loop.simps [simp del] collect_blobs_loop.simps [simp del]

section \<open>One run\<close>

record RetentionConfig =
  rc_batch :: nat
  rc_dry_run :: bool
  rc_blob_gc :: bool
  rc_job_file_ttl :: rat

record World =
  w_store :: Store
  w_queue :: Queue
  w_files :: "JobFile list"
  w_blobs :: BlobStore
  w_eligible :: "nat option"
  w_deleted_events :: nat
  w_deleted_blobs :: nat

definition dry_run :: "rat \<Rightarrow> World \<Rightarrow> World" where
  "dry_run now w = w\<lparr>w_eligible := Some (count_expired_events now (w_store w))\<rparr>"

definition purge :: "RetentionConfig \<Rightarrow> (nat \<Rightarrow> rat) \<Rightarrow> rat \<Rightarrow> (string \<Rightarrow> bool) \<Rightarrow> World \<Rightarrow> World" where
  "purge cfg clock now refuses w =
     (if rc_dry_run cfg then dry_run (clock 0) w
      else
        let (deleted, store) = purge_events_loop clock (rc_batch cfg) (w_store w);
            (files, _, queue) = sweep_job_files now (rc_job_file_ttl cfg) (w_files w) (w_queue w);
            (collected, blobs) = (if rc_blob_gc cfg then collect_blobs_loop refuses (rc_batch cfg) (w_blobs w)
                                  else (0, w_blobs w))
        in w\<lparr>w_store := store, w_deleted_events := w_deleted_events w + deleted,
             w_files := files, w_queue := queue,
             w_blobs := blobs, w_deleted_blobs := w_deleted_blobs w + collected\<rparr>)"

section \<open>Properties\<close>

lemma expired_mono: "expired_event now r \<Longrightarrow> now \<le> later \<Longrightarrow> expired_event later r"
  by (auto simp: expired_event_def split: option.splits)

text \<open>A purge removes only rows that are expired at its instant.\<close>

lemma purge_filter:
  assumes "store_inv st" "purge_expired_events now b st = (receipts, st')" "now \<le> later"
  shows "filter (\<lambda>r. \<not> expired_event later r) (st_rows st') = filter (\<lambda>r. \<not> expired_event later r) (st_rows st)"
proof -
  define E where "E = take (nat (max 1 (min b RETENTION_BATCH_MAX_SIZE))) (id_asc (filter (expired_event now) (st_rows st)))"
  have E: "set E \<subseteq> {r \<in> set (st_rows st). expired_event now r}"
    using set_take_subset unfolding E_def id_asc_def by fastforce
  have inj: "inj_on pe_id (set (st_rows st))"
    using rows_sorted [OF assms(1)] strict_sorted_iff [of "map pe_id (st_rows st)"]
    by (simp add: sorted_wrt_map distinct_map)
  have "pe_id r \<notin> pe_id ` set E" if "r \<in> set (st_rows st)" "\<not> expired_event later r" for r
  proof
    assume "pe_id r \<in> pe_id ` set E"
    then have "r \<in> set E" using inj_on_image_mem_iff [OF inj that(1), of "set E"] E by auto
    then show False using E that(2) expired_mono [OF _ assms(3)] by auto
  qed
  moreover have "st_rows st' = (if st_configured st then filter (\<lambda>r. pe_id r \<notin> pe_id ` set E) (st_rows st) else st_rows st)"
    using assms(2) by (auto simp: purge_expired_events_def Let_def E_def)
  ultimately show ?thesis by (auto simp: filter_filter intro!: filter_cong)
qed

lemma purge_inv: "store_inv st \<Longrightarrow> purge_expired_events now b st = (rs, st') \<Longrightarrow> store_inv st'"
  using store_inv_step [of st id "Purge now b"] by simp

lemma purge_configured: "purge_expired_events now b st = (rs, st') \<Longrightarrow> st_configured st' = st_configured st"
  using step_configured [of id "Purge now b" st] by simp

lemma purge_counts:
  assumes "store_inv st" "st_configured st" "purge_expired_events now b st = (receipts, st')"
  shows "length receipts + length (st_rows st') = length (st_rows st) \<and> st_receipts st' = st_receipts st @ receipts"
proof -
  define n where "n = nat (max 1 (min b RETENTION_BATCH_MAX_SIZE))"
  define E where "E = filter (expired_event now) (st_rows st)"
  note p = purge_rows [OF assms(1,2) n_def E_def assms(3)]
  have "length receipts + length (drop n E) = length E" using p(1) by simp
  then show ?thesis
    using sum_length_filter_compl [of "expired_event now" "st_rows st"] sum_length_filter_compl [of "expired_event now" "st_rows st'"]
      p(3,4,5) by (simp add: E_def)
qed

lemma purge_events_loop_exact:
  assumes "store_inv st" "st_configured st" "mono clock" "Suc n \<le> 5000" "purge_events_loop clock n st = (deleted, st')"
  shows "\<exists>i rs. st_rows st' = filter (\<lambda>r. \<not> expired_event (clock i) r) (st_rows st) \<and>
     deleted + length (st_rows st') = length (st_rows st) \<and> st_receipts st' = st_receipts st @ rs \<and> length rs = deleted"
  using assms
proof (induction clock n st arbitrary: deleted st' rule: purge_events_loop.induct)
  case (1 clock n st)
  obtain rs st1 where p: "purge_expired_events (clock 0) (int (Suc n)) st = (rs, st1)" by fastforce
  note inv1 = purge_inv [OF 1(2) p] and conf1 = purge_configured [OF p] and counts = purge_counts [OF 1(2,3) p]
  have size: "nat (max 1 (min (int (Suc n)) RETENTION_BATCH_MAX_SIZE)) = Suc n"
    using 1(5) by (simp add: RETENTION_BATCH_MAX_SIZE_def)
  note rows = purge_rows [OF 1(2,3) refl refl p, unfolded size]
  show ?case
  proof (cases "length rs < Suc n")
    case True
    then have "filter (expired_event (clock 0)) (st_rows st1) = []" using rows(1,4) by (simp add: min_def split: if_splits)
    then have "st_rows st1 = filter (\<lambda>r. \<not> expired_event (clock 0) r) (st_rows st)"
      using rows(5) by (metis (mono_tags, lifting) filter_True filter_empty_conv)
    then show ?thesis using 1(6) True p counts by (subst (asm) purge_events_loop.simps) auto
  next
    case False
    obtain m st2 where l: "purge_events_loop (\<lambda>i. clock (Suc i)) n st1 = (m, st2)" by fastforce
    have res: "deleted = length rs + m" "st' = st2"
      using 1(6) False p l by (auto simp: purge_events_loop.simps [of clock n st])
    have "mono (\<lambda>i. clock (Suc i))" using 1(4) by (simp add: mono_def)
    from 1(1) [OF p [symmetric] refl False inv1 _ this 1(5) l] conf1 1(3)
    obtain i rs' where ih: "st_rows st2 = filter (\<lambda>r. \<not> expired_event (clock (Suc i)) r) (st_rows st1)"
      "m + length (st_rows st2) = length (st_rows st1)" "st_receipts st2 = st_receipts st1 @ rs'" "length rs' = m" by auto
    moreover have "clock 0 \<le> clock (Suc i)" using 1(4) by (simp add: mono_def)
    ultimately have "st_rows st2 = filter (\<lambda>r. \<not> expired_event (clock (Suc i)) r) (st_rows st)"
      using purge_filter [OF 1(2) p] by simp
    then show ?thesis using ih counts res by (intro exI [of _ "Suc i"] exI [of _ "rs @ rs'"]) simp
  qed
qed

text \<open>
  C8: a retention run ends and is exact. For every batch size from 1 to 5000 the batch loop
  terminates and leaves exactly the events that are not expired, or are under legal hold, at the
  instant of its last batch; it writes one receipt for each event it removes and counts it; and a
  dry run at an instant announces precisely the number of events that a run at that instant
  removes, removing none.
\<close>

theorem retention_run_exact:
  assumes "store_reachable H (w_store w)" "st_configured (w_store w)" "mono clock" "rc_batch cfg < 5000"
    and "\<not> rc_dry_run cfg" "w' = purge cfg clock now refuses w"
  shows "(\<exists>i receipts. st_rows (w_store w') = filter (\<lambda>r. \<not> expired_event (clock i) r) (st_rows (w_store w)) \<and>
        st_receipts (w_store w') = st_receipts (w_store w) @ receipts \<and>
        length receipts + length (st_rows (w_store w')) = length (st_rows (w_store w)) \<and>
        w_deleted_events w' = w_deleted_events w + length receipts) \<and>
     (\<forall>t. clock = (\<lambda>_. t) \<longrightarrow>
        w_eligible (purge (cfg\<lparr>rc_dry_run := True\<rparr>) clock now refuses w) = Some (w_deleted_events w' - w_deleted_events w)) \<and>
     w_store (purge (cfg\<lparr>rc_dry_run := True\<rparr>) clock now refuses w) = w_store w"
proof -
  obtain deleted st' where l: "purge_events_loop clock (rc_batch cfg) (w_store w) = (deleted, st')" by fastforce
  have w': "w_store w' = st'" "w_deleted_events w' = w_deleted_events w + deleted"
    using assms(5,6) l by (simp_all add: purge_def Let_def case_prod_beta)
  obtain i rs where r: "st_rows st' = filter (\<lambda>r. \<not> expired_event (clock i) r) (st_rows (w_store w))"
    "deleted + length (st_rows st') = length (st_rows (w_store w))" "st_receipts st' = st_receipts (w_store w) @ rs" "length rs = deleted"
    using purge_events_loop_exact [OF store.inv_reachable [OF assms(1)] assms(2,3) _ l] assms(4) by auto
  have "length (filter (expired_event (clock i)) (st_rows (w_store w))) = deleted"
    using r(1,2) sum_length_filter_compl [of "expired_event (clock i)" "st_rows (w_store w)"] by simp
  then have "w_eligible (purge (cfg\<lparr>rc_dry_run := True\<rparr>) clock now refuses w) = Some deleted" if "clock = (\<lambda>_. t)" for t
    using that assms(2) by (simp add: purge_def dry_run_def count_expired_events_def)
  then show ?thesis using r w' by (auto simp: purge_def dry_run_def)
qed

definition sample_world :: World where
  "sample_world = \<lparr>w_store = sample_store, w_queue = empty_queue, w_files = [], w_blobs = no_blobs,
     w_eligible = None, w_deleted_events = 0, w_deleted_blobs = 0\<rparr>"

definition sample_config :: RetentionConfig where
  "sample_config = \<lparr>rc_batch = 0, rc_dry_run = False, rc_blob_gc = False, rc_job_file_ttl = 0\<rparr>"

theorem retention_run_exact_witness:
  "st_rows (w_store (purge sample_config (\<lambda>_. 10) 10 (\<lambda>_. False) sample_world)) = []"
  using retention_run_exact [of id sample_world "\<lambda>_. 10" sample_config _ 10 "\<lambda>_. False", OF _ _ _ _ _ refl]
    sample_store_reachable
  by (simp add: sample_world_def sample_config_def sample_store_rows mono_def expired_event_def blank_event_def)

subsection \<open>Blob collection\<close>

lemma collect_inv: "blob_inv st \<Longrightarrow> collect_unreferenced_blobs refuses limit st = (k, st') \<Longrightarrow> blob_inv st'"
  using blob_inv_step [of st "Collect refuses limit"] by simp

lemma collect_all_length:
  assumes "blob_inv st" "\<And>b. b \<in> set (bs_blobs st) \<Longrightarrow> \<not> refuses (bl_storage_path b)"
    and "collect_unreferenced_blobs refuses (int (Suc n)) st = (k, st')"
  shows "k = min (Suc n) (length (unreferenced_blobs st))" "bs_refs st' = bs_refs st"
    "bs_blobs st' = filter (\<lambda>b. bl_content_hash b \<notin> bl_content_hash ` set (take (Suc n) (unreferenced_blobs st))) (bs_blobs st)"
proof -
  let ?bs = "take (Suc n) (unreferenced_blobs st)"
  have all: "\<forall>b \<in> set ?bs. \<not> uncollectable refuses st b"
    using take_unreferenced [of _ "Suc n" st] assms(2) by (auto simp: uncollectable_def)
  have eq: "k = length (filter (\<lambda>b. \<not> uncollectable refuses st b) ?bs)" "st' = kept_after refuses ?bs st"
    using assms(3) collect_eq [OF assms(1), of refuses "int (Suc n)"] by (simp_all only: Let_def nat_int prod.inject)
  have "filter (\<lambda>b. \<not> uncollectable refuses st b) ?bs = ?bs" using all by (simp add: filter_id_conv)
  then show "k = min (Suc n) (length (unreferenced_blobs st))" using eq(1) by simp
  show "bs_refs st' = bs_refs st" using eq(2) by (simp add: kept_after_def)
  show "bs_blobs st' = filter (\<lambda>b. bl_content_hash b \<notin> bl_content_hash ` set ?bs) (bs_blobs st)"
    using all by (auto simp: eq(2) kept_after_def intro!: filter_cong) (metis imageI)
qed

lemma collect_blobs_loop_all:
  assumes "blob_inv st" "\<And>b. b \<in> set (bs_blobs st) \<Longrightarrow> \<not> refuses (bl_storage_path b)"
    and "collect_blobs_loop refuses n st = (k, st')"
  shows "bs_refs st' = bs_refs st \<and>
     bs_blobs st' = filter (\<lambda>b. referenced st (bl_content_hash b)) (bs_blobs st)"
  using assms
proof (induction refuses n st arbitrary: k st' rule: collect_blobs_loop.induct)
  case (1 refuses n st)
  obtain p st1 where c: "collect_unreferenced_blobs refuses (int (Suc n)) st = (p, st1)" by fastforce
  note eqs = collect_all_length [OF 1(2) 1(3) c]
  have d: "distinct (map bl_content_hash (bs_blobs st))" using 1(2) by (simp add: blob_inv_def)
  have ref: "referenced st1 = referenced st" using eqs(2) by (simp add: referenced_def fun_eq_iff)
  have keep: "filter (\<lambda>b. referenced st (bl_content_hash b)) (bs_blobs st1) = filter (\<lambda>b. referenced st (bl_content_hash b)) (bs_blobs st)"
    using take_unreferenced [of _ "Suc n" st] by (auto simp: eqs(3) filter_filter intro!: filter_cong)
  show ?case
  proof (cases "p < Suc n")
    case True
    then have "take (Suc n) (unreferenced_blobs st) = unreferenced_blobs st" using eqs(1) by simp
    then have "bs_blobs st1 = filter (\<lambda>b. referenced st (bl_content_hash b)) (bs_blobs st)"
      using d by (auto simp: eqs(3) unreferenced_set distinct_map inj_on_def intro!: filter_cong)
    then show ?thesis using 1(4) True c eqs(2) by (subst (asm) collect_blobs_loop.simps) auto
  next
    case False
    obtain m st2 where l: "collect_blobs_loop refuses n st1 = (m, st2)" by fastforce
    have res: "st' = st2" using 1(4) False c l by (auto simp: collect_blobs_loop.simps [of refuses n st])
    have "\<not> refuses (bl_storage_path b)" if "b \<in> set (bs_blobs st1)" for b using that 1(3) by (auto simp: eqs(3))
    from 1(1) [OF c [symmetric] refl False collect_inv [OF 1(2) c] this l]
    show ?thesis using res ref keep eqs(2) by simp
  qed
qed

text \<open>
  C27: blob collection is complete when files can be removed. If no file removal is refused, the
  collection loop of a run leaves exactly the referenced blobs and touches no reference.
\<close>

theorem blob_collection_complete:
  assumes "blobs_reachable (w_blobs w)" "\<And>b. b \<in> set (bs_blobs (w_blobs w)) \<Longrightarrow> \<not> refuses (bl_storage_path b)"
    and "\<not> rc_dry_run cfg" "rc_blob_gc cfg"
  shows "bs_refs (w_blobs (purge cfg clock now refuses w)) = bs_refs (w_blobs w) \<and>
     bs_blobs (w_blobs (purge cfg clock now refuses w)) =
       filter (\<lambda>b. referenced (w_blobs w) (bl_content_hash b)) (bs_blobs (w_blobs w))"
proof -
  obtain k st' where l: "collect_blobs_loop refuses (rc_batch cfg) (w_blobs w) = (k, st')" by fastforce
  then have "w_blobs (purge cfg clock now refuses w) = st'"
    using assms(3,4) by (simp add: purge_def Let_def case_prod_beta)
  then show ?thesis using collect_blobs_loop_all [OF blobs.inv_reachable [OF assms(1)] assms(2) l] by simp
qed

theorem blob_collection_complete_witness:
  "map bl_content_hash (bs_blobs (w_blobs (purge (sample_config\<lparr>rc_blob_gc := True\<rparr>) (\<lambda>_. 0) 0 (\<lambda>_. False)
     (sample_world\<lparr>w_blobs := sample_blobs\<rparr>)))) = [''h1'']"
proof -
  have "blob_inv sample_blobs" using blobs.inv_reachable [OF sample_blobs_eq(1)] .
  have "bs_refs sample_blobs = [((''t'', ''h1''), 2)]"
    by (simp add: sample_blobs_def no_blobs_def record_blob_def record_tenant_ref_def has_blob_def)
  then have "referenced sample_blobs ''h1''" "\<not> referenced sample_blobs ''h2''" by (simp_all add: referenced_def)
  then show ?thesis
    using blob_collection_complete [of "sample_world\<lparr>w_blobs := sample_blobs\<rparr>" "\<lambda>_. False" "sample_config\<lparr>rc_blob_gc := True\<rparr>" "\<lambda>_. 0" 0]
      sample_blobs_eq(1,5) by (simp add: sample_config_def)
qed

text \<open>Refused removals at the head of the queue starve the rest: the run ends with nothing collected.\<close>

lemma blob_collection_starved:
  assumes "blob_inv st" "\<forall>b \<in> set (take (Suc n) (unreferenced_blobs st)). uncollectable refuses st b"
  shows "collect_blobs_loop refuses n st = (0, st)"
proof -
  let ?bs = "take (Suc n) (unreferenced_blobs st)"
  have "kept_after refuses ?bs st = st"
    using assms(2) by (intro BlobStore.equality) (auto simp: kept_after_def uncollectable_def filter_id_conv)
  moreover have "filter (\<lambda>b. \<not> uncollectable refuses st b) ?bs = []" using assms(2) by (simp add: filter_empty_conv)
  ultimately have "collect_unreferenced_blobs refuses (int (Suc n)) st = (0, st)"
    using collect_eq [OF assms(1), of refuses "int (Suc n)"] by (simp only: Let_def nat_int list.size)
  then show ?thesis by (subst collect_blobs_loop.simps) simp
qed

end
