(* ===== verification/Issuer_Directory.thy ===== *)
theory Issuer_Directory
  imports Json
begin

text \<open>
  Issuer key transparency, \<^verbatim>\<open>src/backend/issuer_key_transparency.py\<close>: the append-only log of key events
  with its hash chain, the directory of keys and manifests rebuilt from it, checkpoints with
  split-view and rollback detection, cache freshness, and the dictionary forms of the four record
  types. The digest function is the parameter \<open>H\<close>; \<open>str\<close> of floats and containers is \<open>other\<close>.
\<close>

section \<open>Constants and errors\<close>

definition PROTOCOL :: string where
  "PROTOCOL = ''harpocrates-issuer-key-transparency''"

definition VERSION :: int where
  "VERSION = 1"

definition SUPPORTED_VERSIONS :: "int list" where
  "SUPPORTED_VERSIONS = [1]"

definition MAX_ACTIVE_KEYS :: nat where
  "MAX_ACTIVE_KEYS = 8"

definition MAX_EVENTS :: nat where
  "MAX_EVENTS = 10000"

definition MAX_MANIFEST_BYTES :: nat where
  "MAX_MANIFEST_BYTES = 8192"

definition MAX_CHECKPOINT_BYTES :: nat where
  "MAX_CHECKPOINT_BYTES = 16384"

definition DEFAULT_FRESHNESS_SECONDS :: int where
  "DEFAULT_FRESHNESS_SECONDS = 86400"

definition HIGH_ASSURANCE_FRESHNESS_SECONDS :: int where
  "HIGH_ASSURANCE_FRESHNESS_SECONDS = 3600"

datatype KeyStatus = ACTIVE | ROTATED | COMPROMISED | RETIRED

definition status_value :: "KeyStatus \<Rightarrow> string" where
  "status_value s = (case s of ACTIVE \<Rightarrow> ''active'' | ROTATED \<Rightarrow> ''rotated'' | COMPROMISED \<Rightarrow> ''compromised''
     | RETIRED \<Rightarrow> ''retired'')"

datatype EventType = ACTIVATION | ROTATION | COMPROMISE | RETIREMENT | CHECKPOINT

definition event_value :: "EventType \<Rightarrow> string" where
  "event_value t = (case t of ACTIVATION \<Rightarrow> ''activation'' | ROTATION \<Rightarrow> ''rotation'' | COMPROMISE \<Rightarrow> ''compromise''
     | RETIREMENT \<Rightarrow> ''retirement'' | CHECKPOINT \<Rightarrow> ''checkpoint'')"

datatype DirError =
    TransparencyError string
  | FreshnessError string
  | KeyError string
  | DirValueError
  | DirTypeError
  | DirAttributeError

definition conv :: "ConversionError + 'a \<Rightarrow> DirError + 'a" where
  "conv r = (case r of Inl ConvTypeError \<Rightarrow> Inl DirTypeError | Inl ConvValueError \<Rightarrow> Inl DirValueError | Inr x \<Rightarrow> Inr x)"

section \<open>Canonical encoding\<close>

definition canonical_json :: "(string \<times> pyval) list \<Rightarrow> bytes" where
  "canonical_json obj = encode_ascii (dumps (False, \<lambda>_. []) (PDict obj))"

definition sha256_hex :: "(bytes \<Rightarrow> bytes) \<Rightarrow> bytes \<Rightarrow> string" where
  "sha256_hex H b = tohex (H b)"

definition is_hex_len :: "string \<Rightarrow> nat \<Rightarrow> bool" where
  "is_hex_len value n \<longleftrightarrow> length value = n \<and> py_int 16 value \<noteq> None"

definition require_hex :: "string \<Rightarrow> string \<Rightarrow> DirError + string" where
  "require_hex name value =
     (if is_hex_len value 64 then Inr (py_lower value)
      else Inl (TransparencyError (name @ '' must be a 64-char hex digest'')))"

text \<open>Reading a dictionary: \<open>obj[k]\<close>, and the required, optional and integer fields built on it.\<close>

definition item :: "(string \<times> pyval) list \<Rightarrow> string \<Rightarrow> DirError + pyval" where
  "item obj k = (case map_of obj k of None \<Rightarrow> Inl (KeyError k) | Some v \<Rightarrow> Inr v)"

definition str_item :: "(pyval \<Rightarrow> string) \<Rightarrow> (string \<times> pyval) list \<Rightarrow> string \<Rightarrow> DirError + string" where
  "str_item other obj k = andthen (item obj k) (\<lambda>v. Inr (py_str other v))"

definition hex_item :: "(pyval \<Rightarrow> string) \<Rightarrow> (string \<times> pyval) list \<Rightarrow> string \<Rightarrow> DirError + string" where
  "hex_item other obj k = andthen (str_item other obj k) (require_hex k)"

definition int_item :: "(string \<times> pyval) list \<Rightarrow> string \<Rightarrow> DirError + int" where
  "int_item obj k = andthen (item obj k) (\<lambda>v. conv (py_int_of v))"

definition opt_int_item :: "(string \<times> pyval) list \<Rightarrow> string \<Rightarrow> DirError + int option" where
  "opt_int_item obj k =
     (if dict_get obj k = PNone then Inr None else andthen (int_item obj k) (\<lambda>i. Inr (Some i)))"

definition opt_hex_item :: "(pyval \<Rightarrow> string) \<Rightarrow> (string \<times> pyval) list \<Rightarrow> string \<Rightarrow> DirError + string option" where
  "opt_hex_item other obj k =
     (if truthy (dict_get obj k) then andthen (hex_item other obj k) (\<lambda>s. Inr (Some s)) else Inr None)"

text \<open>Writing optional fields: integers when not None, text when not empty.\<close>

definition opt_int_entry :: "string \<Rightarrow> int option \<Rightarrow> (string \<times> pyval) list" where
  "opt_int_entry k v = (case v of None \<Rightarrow> [] | Some i \<Rightarrow> [(k, PInt i)])"

definition opt_str_entry :: "string \<Rightarrow> string option \<Rightarrow> (string \<times> pyval) list" where
  "opt_str_entry k v = (case v of None \<Rightarrow> [] | Some s \<Rightarrow> if s = [] then [] else [(k, PStr s)])"

section \<open>Keys and manifests\<close>

record IssuerKey =
  ik_key_id :: string
  ik_public_key_hash :: string
  ik_algorithm :: string
  ik_valid_from :: int
  ik_valid_until :: "int option"
  ik_status :: KeyStatus

definition key_to_dict :: "IssuerKey \<Rightarrow> (string \<times> pyval) list" where
  "key_to_dict k =
     [(''algorithm'', PStr (ik_algorithm k)), (''keyId'', PStr (ik_key_id k)),
      (''publicKeyHash'', PStr (ik_public_key_hash k)), (''status'', PStr (status_value (ik_status k))),
      (''validFrom'', PInt (ik_valid_from k))]
     @ opt_int_entry ''validUntil'' (ik_valid_until k)"

definition status_of :: "string \<Rightarrow> DirError + KeyStatus" where
  "status_of s =
     (case find (\<lambda>st. status_value st = s) [ACTIVE, ROTATED, COMPROMISED, RETIRED] of
        None \<Rightarrow> Inl DirValueError | Some st \<Rightarrow> Inr st)"

definition key_from_dict :: "(pyval \<Rightarrow> string) \<Rightarrow> pyval \<Rightarrow> DirError + IssuerKey" where
  "key_from_dict other v =
     (case v of
        PDict obj \<Rightarrow>
          andthen (status_of (case map_of obj ''status'' of None \<Rightarrow> ''active'' | Some s \<Rightarrow> py_str other s)) (\<lambda>status.
          andthen (str_item other obj ''keyId'') (\<lambda>key_id.
          andthen (hex_item other obj ''publicKeyHash'') (\<lambda>pkh.
          andthen (str_item other obj ''algorithm'') (\<lambda>algorithm.
          andthen (int_item obj ''validFrom'') (\<lambda>valid_from.
          andthen (opt_int_item obj ''validUntil'') (\<lambda>valid_until.
            Inr \<lparr>ik_key_id = key_id, ik_public_key_hash = pkh, ik_algorithm = algorithm,
                 ik_valid_from = valid_from, ik_valid_until = valid_until, ik_status = status\<rparr>))))))
      | _ \<Rightarrow> Inl DirAttributeError)"

record IssuerManifest =
  im_organization_identity_hash :: string
  im_issuer_address :: string
  im_active_keys :: "IssuerKey list"
  im_policy_hash :: string
  im_valid_from :: int
  im_valid_until :: "int option"
  im_predecessor_manifest_hash :: "string option"
  im_successor_manifest_hash :: "string option"
  im_signature_hash :: "string option"
  im_version :: int
  im_protocol :: string

definition manifest_body :: "IssuerManifest \<Rightarrow> (string \<times> pyval) list" where
  "manifest_body m =
     [(''activeKeys'', PList (map (\<lambda>k. PDict (key_to_dict k)) (im_active_keys m))),
      (''issuerAddress'', PStr (im_issuer_address m)),
      (''organizationIdentityHash'', PStr (im_organization_identity_hash m)),
      (''policyHash'', PStr (im_policy_hash m)), (''protocol'', PStr (im_protocol m)),
      (''validFrom'', PInt (im_valid_from m)), (''version'', PInt (im_version m))]
     @ opt_int_entry ''validUntil'' (im_valid_until m)
     @ opt_str_entry ''predecessorManifestHash'' (im_predecessor_manifest_hash m)
     @ opt_str_entry ''successorManifestHash'' (im_successor_manifest_hash m)"

definition manifest_to_dict :: "IssuerManifest \<Rightarrow> (string \<times> pyval) list" where
  "manifest_to_dict m = manifest_body m @ opt_str_entry ''signatureHash'' (im_signature_hash m)"

definition iterate :: "pyval \<Rightarrow> DirError + pyval list" where
  "iterate v =
     (case v of
        PList xs \<Rightarrow> Inr xs
      | PStr s \<Rightarrow> Inr (map (\<lambda>c. PStr [c]) s)
      | PDict d \<Rightarrow> Inr (map (\<lambda>(k, _). PStr k) d)
      | _ \<Rightarrow> Inl DirTypeError)"

fun keys_from :: "(pyval \<Rightarrow> string) \<Rightarrow> pyval list \<Rightarrow> DirError + IssuerKey list" where
  "keys_from other [] = Inr []"
| "keys_from other (v # vs) = andthen (key_from_dict other v) (\<lambda>k. andthen (keys_from other vs) (\<lambda>ks. Inr (k # ks)))"

definition manifest_from_dict :: "(pyval \<Rightarrow> string) \<Rightarrow> (string \<times> pyval) list \<Rightarrow> DirError + IssuerManifest" where
  "manifest_from_dict other obj =
     andthen (guard (dict_get obj ''protocol'' = PStr PROTOCOL) (TransparencyError ''unsupported issuer transparency protocol'')) (\<lambda>_.
     andthen (conv (py_int_of (case map_of obj ''version'' of None \<Rightarrow> PInt 0 | Some v \<Rightarrow> v))) (\<lambda>v.
     andthen (guard (v \<in> set SUPPORTED_VERSIONS) (TransparencyError ''unsupported issuer transparency version'')) (\<lambda>_.
     andthen (iterate (case map_of obj ''activeKeys'' of None \<Rightarrow> PList [] | Some v \<Rightarrow> v)) (\<lambda>raw_keys.
     andthen (keys_from other raw_keys) (\<lambda>ks.
     andthen (hex_item other obj ''organizationIdentityHash'') (\<lambda>org.
     andthen (str_item other obj ''issuerAddress'') (\<lambda>address.
     andthen (hex_item other obj ''policyHash'') (\<lambda>policy.
     andthen (int_item obj ''validFrom'') (\<lambda>valid_from.
     andthen (opt_int_item obj ''validUntil'') (\<lambda>valid_until.
     andthen (opt_hex_item other obj ''predecessorManifestHash'') (\<lambda>pred.
     andthen (opt_hex_item other obj ''successorManifestHash'') (\<lambda>succ.
     andthen (opt_hex_item other obj ''signatureHash'') (\<lambda>sig.
     andthen (int_item obj ''version'') (\<lambda>version.
     andthen (str_item other obj ''protocol'') (\<lambda>protocol.
       Inr \<lparr>im_organization_identity_hash = org, im_issuer_address = address, im_active_keys = ks,
            im_policy_hash = policy, im_valid_from = valid_from, im_valid_until = valid_until,
            im_predecessor_manifest_hash = pred, im_successor_manifest_hash = succ,
            im_signature_hash = sig, im_version = version, im_protocol = protocol\<rparr>)))))))))))))))"

text \<open>The signature is removed from the dictionary before it is encoded.\<close>

definition canonicalize_manifest :: "IssuerManifest \<Rightarrow> DirError + bytes" where
  "canonicalize_manifest m =
     (let encoded = canonical_json (filter (\<lambda>(k, _). k \<noteq> ''signatureHash'') (manifest_to_dict m)) in
      if MAX_MANIFEST_BYTES < length encoded then Inl (TransparencyError ''issuer manifest exceeds size bound'')
      else if MAX_ACTIVE_KEYS < length (im_active_keys m) then Inl (TransparencyError ''active key count exceeds bound'')
      else if im_issuer_address m = [] then Inl (TransparencyError ''issuerAddress is required'')
      else Inr encoded)"

definition manifest_hash :: "(bytes \<Rightarrow> bytes) \<Rightarrow> IssuerManifest \<Rightarrow> DirError + string" where
  "manifest_hash H m = andthen (canonicalize_manifest m) (\<lambda>c. Inr (sha256_hex H c))"

section \<open>Events\<close>

record DirectoryEvent =
  de_event_type :: EventType
  de_sequence :: int
  de_timestamp :: int
  de_organization_identity_hash :: string
  de_key_id :: string
  de_public_key_hash :: string
  de_previous_event_hash :: "string option"
  de_related_key_id :: "string option"
  de_manifest_hash :: "string option"
  de_reason_hash :: "string option"

definition event_to_dict :: "DirectoryEvent \<Rightarrow> (string \<times> pyval) list" where
  "event_to_dict e =
     [(''eventType'', PStr (event_value (de_event_type e))), (''keyId'', PStr (de_key_id e)),
      (''organizationIdentityHash'', PStr (de_organization_identity_hash e)),
      (''publicKeyHash'', PStr (de_public_key_hash e)), (''sequence'', PInt (de_sequence e)),
      (''timestamp'', PInt (de_timestamp e))]
     @ opt_str_entry ''previousEventHash'' (de_previous_event_hash e)
     @ opt_str_entry ''relatedKeyId'' (de_related_key_id e)
     @ opt_str_entry ''manifestHash'' (de_manifest_hash e)
     @ opt_str_entry ''reasonHash'' (de_reason_hash e)"

definition event_of :: "string \<Rightarrow> DirError + EventType" where
  "event_of s =
     (case find (\<lambda>t. event_value t = s) [ACTIVATION, ROTATION, COMPROMISE, RETIREMENT, CHECKPOINT] of
        None \<Rightarrow> Inl DirValueError | Some t \<Rightarrow> Inr t)"

definition opt_str_item :: "(pyval \<Rightarrow> string) \<Rightarrow> (string \<times> pyval) list \<Rightarrow> string \<Rightarrow> DirError + string option" where
  "opt_str_item other obj k =
     (if truthy (dict_get obj k) then andthen (str_item other obj k) (\<lambda>s. Inr (Some s)) else Inr None)"

definition event_from_dict :: "(pyval \<Rightarrow> string) \<Rightarrow> (string \<times> pyval) list \<Rightarrow> DirError + DirectoryEvent" where
  "event_from_dict other obj =
     andthen (andthen (str_item other obj ''eventType'') event_of) (\<lambda>ty.
     andthen (int_item obj ''sequence'') (\<lambda>seq.
     andthen (int_item obj ''timestamp'') (\<lambda>ts.
     andthen (hex_item other obj ''organizationIdentityHash'') (\<lambda>org.
     andthen (str_item other obj ''keyId'') (\<lambda>key_id.
     andthen (hex_item other obj ''publicKeyHash'') (\<lambda>pkh.
     andthen (opt_hex_item other obj ''previousEventHash'') (\<lambda>prev.
     andthen (opt_str_item other obj ''relatedKeyId'') (\<lambda>related.
     andthen (opt_hex_item other obj ''manifestHash'') (\<lambda>mh.
     andthen (opt_hex_item other obj ''reasonHash'') (\<lambda>reason.
       Inr \<lparr>de_event_type = ty, de_sequence = seq, de_timestamp = ts, de_organization_identity_hash = org,
            de_key_id = key_id, de_public_key_hash = pkh, de_previous_event_hash = prev,
            de_related_key_id = related, de_manifest_hash = mh, de_reason_hash = reason\<rparr>))))))))))"

definition event_hash :: "(bytes \<Rightarrow> bytes) \<Rightarrow> DirectoryEvent \<Rightarrow> string" where
  "event_hash H e = sha256_hex H (canonical_json (event_to_dict e))"

section \<open>Checkpoints\<close>

record DirectoryCheckpoint =
  cp_tree_head_hash :: string
  cp_event_count :: int
  cp_timestamp :: int
  cp_organization_identity_hash :: string
  cp_manifest_hash :: string
  cp_signature_hash :: "string option"
  cp_version :: int
  cp_protocol :: string

definition checkpoint_to_dict :: "DirectoryCheckpoint \<Rightarrow> (string \<times> pyval) list" where
  "checkpoint_to_dict c =
     [(''eventCount'', PInt (cp_event_count c)), (''manifestHash'', PStr (cp_manifest_hash c)),
      (''organizationIdentityHash'', PStr (cp_organization_identity_hash c)),
      (''protocol'', PStr (cp_protocol c)), (''timestamp'', PInt (cp_timestamp c)),
      (''treeHeadHash'', PStr (cp_tree_head_hash c)), (''version'', PInt (cp_version c))]
     @ opt_str_entry ''signatureHash'' (cp_signature_hash c)"

definition checkpoint_from_dict :: "(pyval \<Rightarrow> string) \<Rightarrow> (string \<times> pyval) list \<Rightarrow> DirError + DirectoryCheckpoint" where
  "checkpoint_from_dict other obj =
     andthen (guard (dict_get obj ''protocol'' = PStr PROTOCOL) (TransparencyError ''unsupported checkpoint protocol'')) (\<lambda>_.
     andthen (hex_item other obj ''treeHeadHash'') (\<lambda>head.
     andthen (int_item obj ''eventCount'') (\<lambda>count.
     andthen (int_item obj ''timestamp'') (\<lambda>ts.
     andthen (hex_item other obj ''organizationIdentityHash'') (\<lambda>org.
     andthen (hex_item other obj ''manifestHash'') (\<lambda>mh.
     andthen (opt_hex_item other obj ''signatureHash'') (\<lambda>sig.
     andthen (conv (py_int_of (case map_of obj ''version'' of None \<Rightarrow> PInt VERSION | Some v \<Rightarrow> v))) (\<lambda>version.
       Inr \<lparr>cp_tree_head_hash = head, cp_event_count = count, cp_timestamp = ts,
            cp_organization_identity_hash = org, cp_manifest_hash = mh, cp_signature_hash = sig,
            cp_version = version, cp_protocol = py_str other (dict_get obj ''protocol'')\<rparr>))))))))"

definition canonicalize_checkpoint :: "DirectoryCheckpoint \<Rightarrow> DirError + bytes" where
  "canonicalize_checkpoint c =
     (let encoded = canonical_json (filter (\<lambda>(k, _). k \<noteq> ''signatureHash'') (checkpoint_to_dict c)) in
      if MAX_CHECKPOINT_BYTES < length encoded then Inl (TransparencyError ''checkpoint exceeds size bound'')
      else Inr encoded)"

definition checkpoint_hash :: "(bytes \<Rightarrow> bytes) \<Rightarrow> DirectoryCheckpoint \<Rightarrow> DirError + string" where
  "checkpoint_hash H c = andthen (canonicalize_checkpoint c) (\<lambda>b. Inr (sha256_hex H b))"

definition compute_tree_head :: "(bytes \<Rightarrow> bytes) \<Rightarrow> DirectoryEvent list \<Rightarrow> string" where
  "compute_tree_head H events =
     fold (\<lambda>ev head. sha256_hex H (encode_ascii (head @ event_hash H ev))) events (replicate 64 (CHR ''0''))"

section \<open>The directory\<close>

record Directory =
  dir_organization_identity_hash :: string
  dir_events :: "DirectoryEvent list"
  dir_keys :: "(string \<times> IssuerKey) list"
  dir_current_manifest :: "IssuerManifest option"
  dir_manifests_by_hash :: "(string \<times> IssuerManifest) list"

definition new_directory :: "string \<Rightarrow> Directory" where
  "new_directory org = \<lparr>dir_organization_identity_hash = org, dir_events = [], dir_keys = [],
     dir_current_manifest = None, dir_manifests_by_hash = []\<rparr>"

text \<open>The log checks of \<open>append_event\<close>, then its effect on the keys.\<close>

definition check_link :: "(bytes \<Rightarrow> bytes) \<Rightarrow> Directory \<Rightarrow> DirectoryEvent \<Rightarrow> DirError + unit" where
  "check_link H d e =
     (if MAX_EVENTS \<le> length (dir_events d) then Inl (TransparencyError ''event log exceeds bound'')
      else if de_organization_identity_hash e \<noteq> dir_organization_identity_hash d
      then Inl (TransparencyError ''event organizationIdentityHash mismatch'')
      else if de_sequence e \<noteq> int (length (dir_events d))
      then Inl (TransparencyError (''non-monotonic sequence: expected '' @ str_nat (length (dir_events d)) @ '', got '' @ str_int (de_sequence e)))
      else if dir_events d = []
      then (if de_previous_event_hash e \<noteq> None then Inl (TransparencyError ''genesis event must not set previousEventHash'')
            else Inr ())
      else if de_previous_event_hash e \<noteq> Some (event_hash H (last (dir_events d)))
      then Inl (TransparencyError ''broken event chain (previousEventHash mismatch)'')
      else Inr ())"

definition active_key :: "string \<Rightarrow> string \<Rightarrow> string \<Rightarrow> int \<Rightarrow> IssuerKey" where
  "active_key key_id pkh algorithm ts =
     \<lparr>ik_key_id = key_id, ik_public_key_hash = pkh, ik_algorithm = algorithm, ik_valid_from = ts,
      ik_valid_until = None, ik_status = ACTIVE\<rparr>"

definition end_key :: "KeyStatus \<Rightarrow> int \<Rightarrow> IssuerKey \<Rightarrow> IssuerKey" where
  "end_key st ts k = k\<lparr>ik_valid_until := Some ts, ik_status := st\<rparr>"

definition apply_event :: "DirectoryEvent \<Rightarrow> (string \<times> IssuerKey) list \<Rightarrow> DirError + (string \<times> IssuerKey) list" where
  "apply_event e ks =
     (case de_event_type e of
        ACTIVATION \<Rightarrow>
          (if map_option ik_status (map_of ks (de_key_id e)) = Some ACTIVE
           then Inl (TransparencyError ''conflicting activation for active key'')
           else Inr (AList.update (de_key_id e)
                       (active_key (de_key_id e) (de_public_key_hash e) ''ed25519'' (de_timestamp e)) ks))
      | ROTATION \<Rightarrow>
          (case de_related_key_id e of
             None \<Rightarrow> Inl (TransparencyError ''rotation requires relatedKeyId (predecessor)'')
           | Some [] \<Rightarrow> Inl (TransparencyError ''rotation requires relatedKeyId (predecessor)'')
           | Some related \<Rightarrow>
               (case map_of ks related of
                  None \<Rightarrow> Inl (TransparencyError ''broken rotation link: unknown predecessor key'')
                | Some pred \<Rightarrow>
                    if ik_status pred = COMPROMISED
                    then Inl (TransparencyError ''cannot rotate from compromised key without retirement'')
                    else Inr (AList.update (de_key_id e)
                                (active_key (de_key_id e) (de_public_key_hash e) (ik_algorithm pred) (de_timestamp e))
                                (AList.update related (end_key ROTATED (de_timestamp e) pred) ks))))
      | COMPROMISE \<Rightarrow>
          (case map_of ks (de_key_id e) of
             None \<Rightarrow> Inl (TransparencyError ''compromise of unknown key'')
           | Some k \<Rightarrow> Inr (AList.update (de_key_id e) (end_key COMPROMISED (de_timestamp e) k) ks))
      | RETIREMENT \<Rightarrow>
          (case map_of ks (de_key_id e) of
             None \<Rightarrow> Inl (TransparencyError ''retirement of unknown key'')
           | Some k \<Rightarrow> Inr (AList.update (de_key_id e) (end_key RETIRED (de_timestamp e) k) ks))
      | CHECKPOINT \<Rightarrow> Inr ks)"

definition append_event :: "(bytes \<Rightarrow> bytes) \<Rightarrow> DirectoryEvent \<Rightarrow> Directory \<Rightarrow> DirError + Directory" where
  "append_event H e d =
     andthen (check_link H d e) (\<lambda>_.
     andthen (apply_event e (dir_keys d)) (\<lambda>ks.
       Inr (d\<lparr>dir_keys := ks, dir_events := dir_events d @ [e]\<rparr>)))"

definition publish_manifest :: "(bytes \<Rightarrow> bytes) \<Rightarrow> IssuerManifest \<Rightarrow> Directory \<Rightarrow> DirError + string \<times> Directory" where
  "publish_manifest H m d =
     andthen (guard (im_organization_identity_hash m = dir_organization_identity_hash d)
                (TransparencyError ''manifest organizationIdentityHash mismatch'')) (\<lambda>_.
     andthen (manifest_hash H m) (\<lambda>h.
     andthen (case dir_current_manifest d of
                None \<Rightarrow> Inr (dir_manifests_by_hash d)
              | Some current \<Rightarrow>
                  andthen (manifest_hash H current) (\<lambda>prev_h.
                    if im_predecessor_manifest_hash m \<noteq> Some prev_h
                    then Inl (TransparencyError ''broken rotation link: predecessorManifestHash mismatch'')
                    else Inr (AList.update prev_h (current\<lparr>im_successor_manifest_hash := Some h\<rparr>) (dir_manifests_by_hash d)))) (\<lambda>ms.
       Inr (h, d\<lparr>dir_manifests_by_hash := AList.update h m ms, dir_current_manifest := Some m\<rparr>))))"

definition tree_head :: "(bytes \<Rightarrow> bytes) \<Rightarrow> Directory \<Rightarrow> string" where
  "tree_head H d = compute_tree_head H (dir_events d)"

definition make_checkpoint :: "(bytes \<Rightarrow> bytes) \<Rightarrow> int \<Rightarrow> string option \<Rightarrow> Directory \<Rightarrow> DirError + DirectoryCheckpoint" where
  "make_checkpoint H ts sig d =
     (case dir_current_manifest d of
        None \<Rightarrow> Inl (TransparencyError ''cannot checkpoint without a published manifest'')
      | Some m \<Rightarrow>
          andthen (manifest_hash H m) (\<lambda>mh.
            Inr \<lparr>cp_tree_head_hash = tree_head H d, cp_event_count = int (length (dir_events d)),
                 cp_timestamp = ts, cp_organization_identity_hash = dir_organization_identity_hash d,
                 cp_manifest_hash = mh, cp_signature_hash = sig, cp_version = VERSION, cp_protocol = PROTOCOL\<rparr>))"

definition rebuild_directory ::
  "(bytes \<Rightarrow> bytes) \<Rightarrow> string \<Rightarrow> DirectoryEvent list \<Rightarrow> IssuerManifest list \<Rightarrow> DirError + Directory" where
  "rebuild_directory H org events manifests =
     andthen (foreach (append_event H) events (new_directory org)) (\<lambda>d.
       foreach (\<lambda>m d. andthen (publish_manifest H m d) (\<lambda>(_, d'). Inr d')) manifests d)"

section \<open>Checkpoint verification\<close>

text \<open>\<open>xs[:n]\<close>: a negative bound counts from the end.\<close>

definition prefix_slice :: "int \<Rightarrow> 'a list \<Rightarrow> 'a list" where
  "prefix_slice n xs = (if 0 \<le> n then take (nat n) xs else take (nat (int (length xs) + n)) xs)"

definition verify_checkpoint_consistency ::
  "(bytes \<Rightarrow> bytes) \<Rightarrow> Directory \<Rightarrow> DirectoryCheckpoint \<Rightarrow> DirError + string list" where
  "verify_checkpoint_consistency H d c =
     (let n = int (length (dir_events d));
          errors =
            (if cp_organization_identity_hash c \<noteq> dir_organization_identity_hash d then [''organizationIdentityHash mismatch''] else [])
            @ (if n < cp_event_count c then [''checkpoint eventCount exceeds local log (possible split view)''] else [])
            @ (if cp_event_count c < n
               then (if cp_tree_head_hash c \<noteq> compute_tree_head H (prefix_slice (cp_event_count c) (dir_events d))
                     then [''checkpoint tree head diverges from local prefix (split view)''] else [])
               else (if cp_tree_head_hash c \<noteq> tree_head H d
                     then [''checkpoint tree head mismatch (split view or tampering)''] else []))
      in case dir_current_manifest d of
           None \<Rightarrow> Inr errors
         | Some m \<Rightarrow>
             andthen (manifest_hash H m) (\<lambda>local_mh.
               Inr (errors @ (if cp_event_count c = n \<and> cp_manifest_hash c \<noteq> local_mh
                              then [''conflicting manifests at same tree head''] else []))))"

definition detect_rollback :: "DirectoryCheckpoint \<Rightarrow> DirectoryCheckpoint \<Rightarrow> string list" where
  "detect_rollback previously_seen candidate =
     (if cp_organization_identity_hash candidate \<noteq> cp_organization_identity_hash previously_seen
      then [''organizationIdentityHash changed across checkpoints''] else [])
     @ (if cp_event_count candidate < cp_event_count previously_seen
        then [''checkpoint rollback: eventCount decreased''] else [])
     @ (if cp_event_count candidate = cp_event_count previously_seen
           \<and> cp_tree_head_hash candidate \<noteq> cp_tree_head_hash previously_seen
        then [''equivocating checkpoints at same eventCount (split view)''] else [])
     @ (if cp_event_count candidate = cp_event_count previously_seen
           \<and> cp_manifest_hash candidate \<noteq> cp_manifest_hash previously_seen
        then [''conflicting manifests at same eventCount''] else [])"

record DirectoryCache =
  dc_checkpoint :: DirectoryCheckpoint
  dc_fetched_at :: int
  dc_max_age_seconds :: int

definition age_seconds :: "DirectoryCache \<Rightarrow> int \<Rightarrow> int" where
  "age_seconds c now = max 0 (now - dc_fetched_at c)"

definition is_fresh :: "DirectoryCache \<Rightarrow> int \<Rightarrow> int option \<Rightarrow> bool" where
  "is_fresh c now max_age \<longleftrightarrow> age_seconds c now \<le> (case max_age of None \<Rightarrow> dc_max_age_seconds c | Some m \<Rightarrow> m)"

definition require_fresh_checkpoint :: "DirectoryCache \<Rightarrow> bool \<Rightarrow> int \<Rightarrow> DirError + DirectoryCheckpoint" where
  "require_fresh_checkpoint c high_assurance now =
     (let max_age = (if high_assurance then HIGH_ASSURANCE_FRESHNESS_SECONDS else dc_max_age_seconds c) in
      if \<not> is_fresh c now (Some max_age)
      then Inl (FreshnessError (''stale directory checkpoint'' @ (if high_assurance then '' (high-assurance fail-closed)'' else [])))
      else Inr (dc_checkpoint c))"

definition key_valid_for_historical_signature :: "Directory \<Rightarrow> string \<Rightarrow> int \<Rightarrow> bool" where
  "key_valid_for_historical_signature d key_id ts =
     (case map_of (dir_keys d) key_id of
        None \<Rightarrow> False
      | Some k \<Rightarrow>
          if ts < ik_valid_from k then False
          else (case ik_valid_until k of None \<Rightarrow> True | Some u \<Rightarrow> ts < u))"

definition key_was_compromised_at :: "Directory \<Rightarrow> string \<Rightarrow> int \<Rightarrow> bool" where
  "key_was_compromised_at d key_id t =
     (case map_of (dir_keys d) key_id of
        None \<Rightarrow> False
      | Some k \<Rightarrow>
          if ik_status k \<noteq> COMPROMISED then False
          else (case ik_valid_until k of None \<Rightarrow> False | Some u \<Rightarrow> u \<le> t))"

definition create_activation_event ::
  "string \<Rightarrow> string \<Rightarrow> string \<Rightarrow> int \<Rightarrow> int \<Rightarrow> string option \<Rightarrow> string option \<Rightarrow> DirError + DirectoryEvent" where
  "create_activation_event org key_id pkh seq ts prev mh =
     andthen (require_hex ''organizationIdentityHash'' org) (\<lambda>org.
     andthen (require_hex ''publicKeyHash'' pkh) (\<lambda>pkh.
       Inr \<lparr>de_event_type = ACTIVATION, de_sequence = seq, de_timestamp = ts, de_organization_identity_hash = org,
            de_key_id = key_id, de_public_key_hash = pkh, de_previous_event_hash = prev,
            de_related_key_id = None, de_manifest_hash = mh, de_reason_hash = None\<rparr>))"

definition create_rotation_event ::
  "string \<Rightarrow> string \<Rightarrow> string \<Rightarrow> string \<Rightarrow> int \<Rightarrow> int \<Rightarrow> string \<Rightarrow> string option \<Rightarrow> DirError + DirectoryEvent" where
  "create_rotation_event org new_key_id new_pkh predecessor seq ts prev mh =
     andthen (require_hex ''organizationIdentityHash'' org) (\<lambda>org.
     andthen (require_hex ''publicKeyHash'' new_pkh) (\<lambda>pkh.
       Inr \<lparr>de_event_type = ROTATION, de_sequence = seq, de_timestamp = ts, de_organization_identity_hash = org,
            de_key_id = new_key_id, de_public_key_hash = pkh, de_previous_event_hash = Some prev,
            de_related_key_id = Some predecessor, de_manifest_hash = mh, de_reason_hash = None\<rparr>))"

section \<open>Dictionary forms\<close>

definition is_digest :: "string \<Rightarrow> bool" where
  "is_digest s \<longleftrightarrow> length s = 64 \<and> list_all is_hex s \<and> py_lower s = s"

definition opt_digest :: "string option \<Rightarrow> bool" where
  "opt_digest v = (case v of None \<Rightarrow> True | Some s \<Rightarrow> is_digest s)"

definition wf_key :: "IssuerKey \<Rightarrow> bool" where
  "wf_key k \<longleftrightarrow> is_digest (ik_public_key_hash k)"

definition wf_manifest :: "IssuerManifest \<Rightarrow> bool" where
  "wf_manifest m \<longleftrightarrow> is_digest (im_organization_identity_hash m) \<and> is_digest (im_policy_hash m) \<and>
     (\<forall>k \<in> set (im_active_keys m). wf_key k) \<and> opt_digest (im_predecessor_manifest_hash m) \<and>
     opt_digest (im_successor_manifest_hash m) \<and> opt_digest (im_signature_hash m) \<and>
     im_version m = 1 \<and> im_protocol m = PROTOCOL"

definition wf_event :: "DirectoryEvent \<Rightarrow> bool" where
  "wf_event e \<longleftrightarrow> is_digest (de_organization_identity_hash e) \<and> is_digest (de_public_key_hash e) \<and>
     opt_digest (de_previous_event_hash e) \<and> de_related_key_id e \<noteq> Some [] \<and>
     opt_digest (de_manifest_hash e) \<and> opt_digest (de_reason_hash e)"

definition wf_checkpoint :: "DirectoryCheckpoint \<Rightarrow> bool" where
  "wf_checkpoint c \<longleftrightarrow> is_digest (cp_tree_head_hash c) \<and> is_digest (cp_organization_identity_hash c) \<and>
     is_digest (cp_manifest_hash c) \<and> opt_digest (cp_signature_hash c) \<and> cp_protocol c = PROTOCOL"

named_theorems reading \<open>reading a field of a dictionary written by the same module\<close>

lemma is_digest_Nil [simp]: "\<not> is_digest []"
  by (simp add: is_digest_def)

lemma require_hex_digest [reading]: "is_digest s \<Longrightarrow> require_hex name s = Inr s"
  using hex_text_py_int [of s] by (cases s) (simp_all add: require_hex_def is_hex_len_def is_digest_def)

lemma str_item_str [reading]: "map_of obj k = Some (PStr s) \<Longrightarrow> str_item other obj k = Inr s"
  by (simp add: str_item_def item_def py_str_def)

lemma hex_item_str [reading]: "map_of obj k = Some (PStr s) \<Longrightarrow> is_digest s \<Longrightarrow> hex_item other obj k = Inr s"
  by (simp add: hex_item_def reading)

lemma int_item_int [reading]: "map_of obj k = Some (PInt i) \<Longrightarrow> int_item obj k = Inr i"
  by (simp add: int_item_def item_def py_int_of_def conv_def)

lemma map_of_opt_int [simp]:
  "map_of (opt_int_entry k v) k' = (if k = k' then map_option PInt v else None)"
  by (simp add: opt_int_entry_def split: option.splits)

lemma map_of_opt_str [simp]:
  "map_of (opt_str_entry k v) k' = (if k = k' \<and> v \<noteq> Some [] then map_option PStr v else None)"
  by (auto simp: opt_str_entry_def split: option.splits)

lemma opt_int_item_int [reading]: "map_of obj k = map_option PInt v \<Longrightarrow> opt_int_item obj k = Inr v"
  by (cases v) (simp_all add: opt_int_item_def dict_get_def reading)

lemma opt_hex_item_str [reading]:
  "map_of obj k = map_option PStr v \<Longrightarrow> opt_digest v \<Longrightarrow> opt_hex_item other obj k = Inr v"
  by (cases v) (auto simp: opt_hex_item_def dict_get_def opt_digest_def reading)

lemma opt_str_item_str [reading]:
  "map_of obj k = map_option PStr v \<Longrightarrow> v \<noteq> Some [] \<Longrightarrow> opt_str_item other obj k = Inr v"
  by (cases v) (auto simp: opt_str_item_def dict_get_def reading)

lemma opt_digest_nonempty [simp]: "opt_digest v \<Longrightarrow> v \<noteq> Some []"
  by (auto simp: opt_digest_def)

lemma status_of_value [simp]: "status_of (status_value s) = Inr s"
  by (cases s) (simp_all add: status_of_def status_value_def)

lemma event_of_value [simp]: "event_of (event_value t) = Inr t"
  by (cases t) (simp_all add: event_of_def event_value_def)

lemma map_add_apply: "(m ++ n) k = (case n k of Some y \<Rightarrow> Some y | None \<Rightarrow> m k)"
  by (simp add: map_add_def)

lemma map_of_append_apply: "map_of (xs @ ys) k = (case map_of xs k of None \<Rightarrow> map_of ys k | Some v \<Rightarrow> Some v)"
  by (simp add: map_add_def)

lemma key_roundtrip: "wf_key k \<Longrightarrow> key_from_dict other (PDict (key_to_dict k)) = Inr k"
  by (simp add: key_from_dict_def key_to_dict_def wf_key_def reading py_str_def)

lemma keys_roundtrip: "\<forall>k \<in> set ks. wf_key k \<Longrightarrow> keys_from other (map (\<lambda>k. PDict (key_to_dict k)) ks) = Inr ks"
  by (induction ks) (simp_all add: key_roundtrip)

lemma event_lookup:
  "map_of (event_to_dict e) ''eventType'' = Some (PStr (event_value (de_event_type e)))"
  "map_of (event_to_dict e) ''keyId'' = Some (PStr (de_key_id e))"
  "map_of (event_to_dict e) ''organizationIdentityHash'' = Some (PStr (de_organization_identity_hash e))"
  "map_of (event_to_dict e) ''publicKeyHash'' = Some (PStr (de_public_key_hash e))"
  "map_of (event_to_dict e) ''sequence'' = Some (PInt (de_sequence e))"
  "map_of (event_to_dict e) ''timestamp'' = Some (PInt (de_timestamp e))"
  "map_of (event_to_dict e) ''previousEventHash'' = map_of (opt_str_entry ''previousEventHash'' (de_previous_event_hash e)) ''previousEventHash''"
  "map_of (event_to_dict e) ''relatedKeyId'' = map_of (opt_str_entry ''relatedKeyId'' (de_related_key_id e)) ''relatedKeyId''"
  "map_of (event_to_dict e) ''manifestHash'' = map_of (opt_str_entry ''manifestHash'' (de_manifest_hash e)) ''manifestHash''"
  "map_of (event_to_dict e) ''reasonHash'' = map_of (opt_str_entry ''reasonHash'' (de_reason_hash e)) ''reasonHash''"
  by (simp_all add: event_to_dict_def map_add_apply split: option.splits)

lemma event_roundtrip: "wf_event e \<Longrightarrow> event_from_dict other (event_to_dict e) = Inr e"
  by (simp add: event_from_dict_def wf_event_def event_lookup reading)

lemma checkpoint_roundtrip: "wf_checkpoint c \<Longrightarrow> checkpoint_from_dict other (checkpoint_to_dict c) = Inr c"
  by (simp add: checkpoint_from_dict_def checkpoint_to_dict_def wf_checkpoint_def reading dict_get_def py_str_def
      py_int_of_def conv_def)

lemma manifest_lookup:
  "map_of (manifest_to_dict m) ''activeKeys'' = Some (PList (map (\<lambda>k. PDict (key_to_dict k)) (im_active_keys m)))"
  "map_of (manifest_to_dict m) ''issuerAddress'' = Some (PStr (im_issuer_address m))"
  "map_of (manifest_to_dict m) ''organizationIdentityHash'' = Some (PStr (im_organization_identity_hash m))"
  "map_of (manifest_to_dict m) ''policyHash'' = Some (PStr (im_policy_hash m))"
  "map_of (manifest_to_dict m) ''protocol'' = Some (PStr (im_protocol m))"
  "map_of (manifest_to_dict m) ''validFrom'' = Some (PInt (im_valid_from m))"
  "map_of (manifest_to_dict m) ''version'' = Some (PInt (im_version m))"
  "map_of (manifest_to_dict m) ''validUntil'' = map_option PInt (im_valid_until m)"
  "map_of (manifest_to_dict m) ''predecessorManifestHash'' =
     map_of (opt_str_entry ''predecessorManifestHash'' (im_predecessor_manifest_hash m)) ''predecessorManifestHash''"
  "map_of (manifest_to_dict m) ''successorManifestHash'' =
     map_of (opt_str_entry ''successorManifestHash'' (im_successor_manifest_hash m)) ''successorManifestHash''"
  "map_of (manifest_to_dict m) ''signatureHash'' = map_of (opt_str_entry ''signatureHash'' (im_signature_hash m)) ''signatureHash''"
  by (simp_all add: manifest_to_dict_def manifest_body_def map_add_apply split: option.splits)

lemma manifest_roundtrip: "wf_manifest m \<Longrightarrow> manifest_from_dict other (manifest_to_dict m) = Inr m"
  by (simp add: manifest_from_dict_def wf_manifest_def manifest_lookup reading dict_get_def iterate_def keys_roundtrip
      py_int_of_def conv_def SUPPORTED_VERSIONS_def)

section \<open>Rebuilding\<close>

text \<open>A history of calls: a call that raises leaves the directory as it was.\<close>

datatype DirOp = Append DirectoryEvent | Publish IssuerManifest

fun dir_run :: "(bytes \<Rightarrow> bytes) \<Rightarrow> DirOp list \<Rightarrow> Directory \<times> IssuerManifest list \<Rightarrow> Directory \<times> IssuerManifest list" where
  "dir_run H [] s = s"
| "dir_run H (Append e # ops) (d, ms) =
     dir_run H ops (case append_event H e d of Inl _ \<Rightarrow> d | Inr d' \<Rightarrow> d', ms)"
| "dir_run H (Publish m # ops) (d, ms) =
     dir_run H ops (case publish_manifest H m d of Inl _ \<Rightarrow> (d, ms) | Inr (_, d') \<Rightarrow> (d', ms @ [m]))"

abbreviation publish_step :: "(bytes \<Rightarrow> bytes) \<Rightarrow> IssuerManifest \<Rightarrow> Directory \<Rightarrow> DirError + Directory" where
  "publish_step H m d \<equiv> andthen (publish_manifest H m d) (\<lambda>(_, d'). Inr d')"

definition with_log :: "(string \<times> IssuerKey) list \<Rightarrow> DirectoryEvent list \<Rightarrow> Directory \<Rightarrow> Directory" where
  "with_log ks es d = d\<lparr>dir_keys := ks, dir_events := es\<rparr>"

lemma publish_with_log:
  "publish_manifest H m (with_log ks es d) =
     (case publish_manifest H m d of Inl e \<Rightarrow> Inl e | Inr (h, d') \<Rightarrow> Inr (h, with_log ks es d'))"
  by (auto simp: publish_manifest_def with_log_def andthen_def guard_def split: option.splits sum.splits)

lemma publish_keeps_log:
  "publish_manifest H m d = Inr (h, d') \<Longrightarrow> dir_keys d' = dir_keys d \<and> dir_events d' = dir_events d \<and>
     dir_organization_identity_hash d' = dir_organization_identity_hash d"
  by (auto simp: publish_manifest_def andthen_eq_Inr)

lemma publish_all_with_log:
  "foreach (publish_step H) ms (with_log ks es d) =
     (case foreach (publish_step H) ms d of Inl e \<Rightarrow> Inl e | Inr d' \<Rightarrow> Inr (with_log ks es d'))"
  by (induction ms arbitrary: d) (auto simp: publish_with_log split: sum.splits)

lemma publish_all_keeps_log:
  "foreach (publish_step H) ms d = Inr d' \<Longrightarrow> dir_keys d' = dir_keys d \<and> dir_events d' = dir_events d \<and>
     dir_organization_identity_hash d' = dir_organization_identity_hash d"
  by (induction ms arbitrary: d) (auto simp: andthen_eq_Inr split: sum.splits dest!: publish_keeps_log)

lemma append_event_eq_Inr:
  "append_event H e d = Inr d' \<longleftrightarrow> check_link H d e = Inr () \<and>
     (\<exists>ks. apply_event e (dir_keys d) = Inr ks \<and> d' = with_log ks (dir_events d @ [e]) d)"
  by (auto simp: append_event_def andthen_eq_Inr with_log_def)

lemma check_link_cong:
  "dir_events d = dir_events d' \<Longrightarrow> dir_organization_identity_hash d = dir_organization_identity_hash d' \<Longrightarrow>
     check_link H d e = check_link H d' e"
  by (simp add: check_link_def)

definition rebuilt :: "(bytes \<Rightarrow> bytes) \<Rightarrow> string \<Rightarrow> Directory \<times> IssuerManifest list \<Rightarrow> bool" where
  "rebuilt H org s \<longleftrightarrow> rebuild_directory H org (dir_events (fst s)) (snd s) = Inr (fst s)"

lemma rebuilt_append:
  assumes "rebuilt H org (d, ms)" "append_event H e d = Inr d'"
  shows "rebuilt H org (d', ms)"
proof -
  obtain d1 where d1: "foreach (append_event H) (dir_events d) (new_directory org) = Inr d1"
    and p: "foreach (publish_step H) ms d1 = Inr d"
    using assms(1) by (auto simp: rebuilt_def rebuild_directory_def andthen_eq_Inr)
  note same = publish_all_keeps_log [OF p]
  obtain ks where ks: "check_link H d e = Inr ()" "apply_event e (dir_keys d) = Inr ks"
    and d': "d' = with_log ks (dir_events d @ [e]) d" using assms(2) by (auto simp: append_event_eq_Inr)
  have "append_event H e d1 = Inr (with_log ks (dir_events d @ [e]) d1)"
    using ks same check_link_cong [of d d1 H e] by (simp add: append_event_eq_Inr)
  then have "foreach (append_event H) (dir_events d') (new_directory org) = Inr (with_log ks (dir_events d @ [e]) d1)"
    using d1 by (simp add: d' with_log_def foreach_append)
  then show ?thesis using p by (simp add: rebuilt_def rebuild_directory_def publish_all_with_log d')
qed

lemma rebuilt_publish:
  "rebuilt H org (d, ms) \<Longrightarrow> publish_manifest H m d = Inr (h, d') \<Longrightarrow> rebuilt H org (d', ms @ [m])"
  using publish_keeps_log [of H m d h d']
  by (auto simp: rebuilt_def rebuild_directory_def andthen_eq_Inr foreach_append)

lemma rebuilt_run: "rebuilt H org s \<Longrightarrow> rebuilt H org (dir_run H ops s)"
proof (induction ops arbitrary: s)
  case (Cons op ops)
  obtain d ms where s: "s = (d, ms)" by (cases s)
  show ?case
  proof (cases op)
    case (Append e)
    then show ?thesis using Cons rebuilt_append [of H org d ms e] by (auto simp: s split: sum.splits)
  next
    case (Publish m)
    then show ?thesis using Cons rebuilt_publish [of H org d ms m] by (auto simp: s split: sum.splits)
  qed
qed simp

section \<open>The tree head binds the log\<close>

text \<open>Every byte string that is hashed for the head of a log.\<close>

definition hashed :: "(bytes \<Rightarrow> bytes) \<Rightarrow> DirectoryEvent list \<Rightarrow> bytes set" where
  "hashed H es = (\<lambda>e. canonical_json (event_to_dict e)) ` set es \<union>
     (\<lambda>i. encode_ascii (compute_tree_head H (take i es) @ event_hash H (es ! i))) ` {..<length es}"

lemma hashed_take: "hashed H (take n es) \<subseteq> hashed H es"
proof -
  have "encode_ascii (compute_tree_head H (take i (take n es)) @ event_hash H (take n es ! i)) \<in> hashed H es"
    if "i < length (take n es)" for i
    using that by (auto simp: hashed_def min_def intro!: image_eqI [of _ _ i] split: if_splits)
  then show ?thesis using set_take_subset [of n es] unfolding hashed_def [of H "take n es"] by (auto simp: hashed_def)
qed

lemma hashed_snoc:
  "hashed H (es @ [e]) = insert (canonical_json (event_to_dict e))
     (insert (encode_ascii (compute_tree_head H es @ event_hash H e)) (hashed H es))"
proof -
  have "(\<lambda>i. encode_ascii (compute_tree_head H (take i (es @ [e])) @ event_hash H ((es @ [e]) ! i))) ` {..<length es}
      = (\<lambda>i. encode_ascii (compute_tree_head H (take i es) @ event_hash H (es ! i))) ` {..<length es}"
    by (intro image_cong) (auto simp: nth_append)
  then show ?thesis by (auto simp: hashed_def lessThan_Suc)
qed

lemma compute_tree_head_snoc [simp]:
  "compute_tree_head H (es @ [e]) = sha256_hex H (encode_ascii (compute_tree_head H es @ event_hash H e))"
  by (simp add: compute_tree_head_def)

lemma length_tree_head: "(\<And>b. length (H b) = 32) \<Longrightarrow> length (compute_tree_head H es) = 64"
  by (cases es rule: rev_cases) (simp_all add: sha256_hex_def compute_tree_head_def)

lemma event_to_dict_eqI:
  assumes "\<And>k. map_of (event_to_dict e) k = map_of (event_to_dict f) k"
  shows "event_to_dict e = event_to_dict f"
proof -
  have opt: "opt_str_entry k v = opt_str_entry k w" if "map_of (opt_str_entry k v) k = map_of (opt_str_entry k w) k" for k v w
    using that by (auto simp: opt_str_entry_def split: option.splits if_splits)
  show ?thesis
    using assms [of "''eventType''", unfolded event_lookup] assms [of "''keyId''", unfolded event_lookup]
      assms [of "''organizationIdentityHash''", unfolded event_lookup] assms [of "''publicKeyHash''", unfolded event_lookup]
      assms [of "''sequence''", unfolded event_lookup] assms [of "''timestamp''", unfolded event_lookup]
      opt [OF assms [of "''previousEventHash''", unfolded event_lookup]] opt [OF assms [of "''relatedKeyId''", unfolded event_lookup]]
      opt [OF assms [of "''manifestHash''", unfolded event_lookup]] opt [OF assms [of "''reasonHash''", unfolded event_lookup]]
    by (simp add: event_to_dict_def)
qed

lemma opt_entry_keys [simp]:
  "distinct (map fst (opt_str_entry k v))" "fst ` set (opt_str_entry k v) \<subseteq> {k}"
  "list_all (\<lambda>(k, v). no_float v) (opt_str_entry k v)" "\<forall>x \<in> set (opt_str_entry k v). canon (snd x) = snd x"
  by (auto simp: opt_str_entry_def split: option.splits)

lemma opt_entry_not_key: "k' \<noteq> k \<Longrightarrow> k' \<notin> fst ` set (opt_str_entry k v)"
  using opt_entry_keys(2) by blast

lemma opt_entry_disjoint: "k' \<noteq> k \<Longrightarrow> fst ` set (opt_str_entry k v) \<inter> fst ` set (opt_str_entry k' w) = {}"
  using opt_entry_keys(2) by blast

lemma distinct_event_keys: "distinct (map fst (event_to_dict e))"
  by (simp add: event_to_dict_def opt_entry_not_key opt_entry_disjoint Int_Un_distrib image_Un)

lemma event_no_float: "no_float (PDict (event_to_dict e))"
  by (simp add: event_to_dict_def)

lemma event_value_flat: "map_of (event_to_dict e) k = Some v \<Longrightarrow> canon v = v"
proof -
  have "\<forall>x \<in> set (event_to_dict e). canon (snd x) = snd x"
    by (simp add: event_to_dict_def ball_Un)
  then show "map_of (event_to_dict e) k = Some v \<Longrightarrow> canon v = v" by (auto dest!: map_of_SomeD)
qed

lemma canonical_event_inj:
  assumes "canonical_json (event_to_dict e) = canonical_json (event_to_dict f)"
  shows "event_to_dict e = event_to_dict f"
proof (rule event_to_dict_eqI)
  fix k
  have c: "canon (PDict (event_to_dict e)) = canon (PDict (event_to_dict f))"
    using assms dumps_inj [OF event_no_float event_no_float, of "(False, \<lambda>_. [])" e f] by (simp add: canonical_json_def)
  have flat: "map_option canon (map_of (event_to_dict x) k) = map_of (event_to_dict x) k" for x
    by (cases "map_of (event_to_dict x) k") (simp_all add: event_value_flat)
  show "map_of (event_to_dict e) k = map_of (event_to_dict f) k"
    using canon_dict_lookup [OF c distinct_event_keys distinct_event_keys, of k] by (simp add: flat)
qed

lemma tree_head_binds:
  assumes "\<And>b. length (H b) = 32" "inj_on H (hashed H es \<union> hashed H fs)"
    and "length es = length fs" "compute_tree_head H es = compute_tree_head H fs"
  shows "map event_to_dict es = map event_to_dict fs"
  using assms(2-)
proof (induction es arbitrary: fs rule: rev_induct)
  case (snoc e es)
  then obtain f gs where fs: "fs = gs @ [f]" "length es = length gs" by (cases fs rule: rev_cases) auto
  have inj: "inj_on H (hashed H (es @ [e]) \<union> hashed H (gs @ [f]))" using snoc.prems(1) fs by simp
  have "H (encode_ascii (compute_tree_head H es @ event_hash H e)) = H (encode_ascii (compute_tree_head H gs @ event_hash H f))"
    using snoc.prems(3) by (simp add: fs sha256_hex_def)
  then have "encode_ascii (compute_tree_head H es @ event_hash H e) = encode_ascii (compute_tree_head H gs @ event_hash H f)"
    by (rule inj_onD [OF inj]) (simp_all add: hashed_snoc)
  then have split: "compute_tree_head H es = compute_tree_head H gs" "event_hash H e = event_hash H f"
    using length_tree_head [OF assms(1)] by simp_all
  have "H (canonical_json (event_to_dict e)) = H (canonical_json (event_to_dict f))"
    using split(2) by (simp add: event_hash_def sha256_hex_def)
  then have "canonical_json (event_to_dict e) = canonical_json (event_to_dict f)"
    by (rule inj_onD [OF inj]) (simp_all add: hashed_snoc)
  then have "event_to_dict e = event_to_dict f" by (rule canonical_event_inj)
  moreover have "inj_on H (hashed H es \<union> hashed H gs)" by (rule inj_on_subset [OF inj]) (auto simp: hashed_snoc)
  ultimately show ?case using snoc.IH [OF _ fs(2) split(1)] by (simp add: fs)
qed simp

section \<open>Properties\<close>

text \<open>
  C30: the four record types survive their dictionary form. Reading back what \<open>to_dict\<close> wrote gives
  the same key, manifest, event and checkpoint, for all records with lower-case digests and the
  supported protocol and version.
\<close>

theorem directory_dict_roundtrip:
  "(wf_event e \<longrightarrow> event_from_dict other (event_to_dict e) = Inr e) \<and>
   (wf_manifest m \<longrightarrow> manifest_from_dict other (manifest_to_dict m) = Inr m) \<and>
   (wf_checkpoint c \<longrightarrow> checkpoint_from_dict other (checkpoint_to_dict c) = Inr c) \<and>
   (wf_key k \<longrightarrow> key_from_dict other (PDict (key_to_dict k)) = Inr k)"
  by (simp add: event_roundtrip manifest_roundtrip checkpoint_roundtrip key_roundtrip)

definition sample_digest :: string where
  "sample_digest = replicate 64 (CHR ''a'')"

definition sample_event :: DirectoryEvent where
  "sample_event = \<lparr>de_event_type = ACTIVATION, de_sequence = 0, de_timestamp = 10,
     de_organization_identity_hash = sample_digest, de_key_id = ''k1'', de_public_key_hash = sample_digest,
     de_previous_event_hash = None, de_related_key_id = None, de_manifest_hash = None, de_reason_hash = None\<rparr>"

lemma is_digest_sample [simp]: "is_digest sample_digest"
  by (simp add: is_digest_def sample_digest_def list_all_iff is_hex_def digit_in_def digit_val_def char_code_def
      py_lower_def lower_char_def)

theorem directory_dict_roundtrip_witness:
  "event_from_dict (\<lambda>_. []) (event_to_dict sample_event) = Inr sample_event"
proof -
  have "wf_event sample_event" by (simp add: wf_event_def sample_event_def opt_digest_def)
  then show ?thesis using directory_dict_roundtrip [of sample_event "\<lambda>_. []"] by blast
qed

text \<open>
  C28: the directory is a function of its log. Whatever sequence of appends and publications,
  accepted or refused, has been made, rebuilding from the recorded events and the accepted manifests
  succeeds and gives the very same directory.
\<close>

theorem directory_rebuild_equivalent:
  assumes "dir_run H ops (new_directory org, []) = (d, manifests)"
  shows "rebuild_directory H org (dir_events d) manifests = Inr d"
  using rebuilt_run [of H org "(new_directory org, [])" ops] assms
  by (simp add: rebuilt_def rebuild_directory_def new_directory_def)

theorem directory_rebuild_equivalent_witness:
  "\<exists>d. dir_run id [Append sample_event, Append sample_event] (new_directory sample_digest, []) = (d, []) \<and>
     dir_events d = [sample_event] \<and> rebuild_directory id sample_digest [sample_event] [] = Inr d"
proof -
  have ks: "apply_event sample_event [] = Inr [(''k1'', active_key ''k1'' sample_digest ''ed25519'' 10)]"
    by (simp add: apply_event_def sample_event_def)
  have 1: "append_event id sample_event (new_directory sample_digest) =
      Inr (with_log [(''k1'', active_key ''k1'' sample_digest ''ed25519'' 10)] [sample_event] (new_directory sample_digest))"
    using ks by (simp add: append_event_eq_Inr check_link_def new_directory_def MAX_EVENTS_def with_log_def)
      (simp add: sample_event_def)
  have 2: "check_link id (with_log ks [sample_event] (new_directory sample_digest)) sample_event \<noteq> Inr ()" for ks
    by (simp add: check_link_def with_log_def new_directory_def) (simp add: sample_event_def)
  obtain d where d: "dir_run id [Append sample_event, Append sample_event] (new_directory sample_digest, []) = (d, [])"
      "dir_events d = [sample_event]"
    using 1 2 by (auto simp: append_event_eq_Inr with_log_def [of _ "[sample_event]"] split: sum.splits)
  then show ?thesis using directory_rebuild_equivalent [OF d(1)] by auto
qed

text \<open>
  C4: an accepted checkpoint is a prefix. If a directory finds no inconsistency with a checkpoint
  that another party made of its own directory, both serve the same organization and the other
  party's log is, event by event, a prefix of the local one, unless the hash function collides on
  two of the byte strings hashed for the two logs. A split view cannot go unnoticed.
\<close>

theorem accepted_checkpoint_is_prefix:
  assumes "make_checkpoint H ts sig d' = Inr c" "verify_checkpoint_consistency H d c = Inr []"
    and "\<And>b. length (H b) = 32" "inj_on H (hashed H (dir_events d) \<union> hashed H (dir_events d'))"
  shows "dir_organization_identity_hash d = dir_organization_identity_hash d' \<and>
     length (dir_events d') \<le> length (dir_events d) \<and>
     map event_to_dict (take (length (dir_events d')) (dir_events d)) = map event_to_dict (dir_events d')"
proof -
  let ?n = "length (dir_events d')"
  have c: "cp_event_count c = int ?n" "cp_tree_head_hash c = compute_tree_head H (dir_events d')"
      "cp_organization_identity_hash c = dir_organization_identity_hash d'"
    using assms(1) by (auto simp: make_checkpoint_def andthen_eq_Inr tree_head_def split: option.splits)
  have v: "cp_organization_identity_hash c = dir_organization_identity_hash d" "?n \<le> length (dir_events d)"
      "compute_tree_head H (take ?n (dir_events d)) = compute_tree_head H (dir_events d')"
    using assms(2) c
    by (auto simp: verify_checkpoint_consistency_def Let_def andthen_eq_Inr prefix_slice_def tree_head_def
        split: option.splits if_splits)
  have "inj_on H (hashed H (take ?n (dir_events d)) \<union> hashed H (dir_events d'))"
    by (rule inj_on_subset [OF assms(4)]) (use hashed_take in blast)
  from tree_head_binds [OF assms(3) this _ v(3)] v(1,2) c(3) show ?thesis by simp
qed

definition sample_issuer_manifest :: IssuerManifest where
  "sample_issuer_manifest = \<lparr>im_organization_identity_hash = sample_digest, im_issuer_address = ''G'',
     im_active_keys = [], im_policy_hash = sample_digest, im_valid_from = 0, im_valid_until = None,
     im_predecessor_manifest_hash = None, im_successor_manifest_hash = None, im_signature_hash = None,
     im_version = 1, im_protocol = PROTOCOL\<rparr>"

definition length_hash :: "bytes \<Rightarrow> bytes" where
  "length_hash b = nat_be 32 (length b)"

lemma sample_sizes:
  "length (canonical_json (event_to_dict sample_event)) < 2000" "128 < length (canonical_json (event_to_dict sample_event))"
  "length (canonical_json (manifest_to_dict sample_issuer_manifest)) \<le> 8192"
  by code_simp+

definition sample_directory :: Directory where
  "sample_directory = (new_directory sample_digest)\<lparr>dir_events := [sample_event], dir_current_manifest := Some sample_issuer_manifest\<rparr>"

lemma length_hash_32 [simp]: "length (length_hash b) = 32"
  by (simp add: length_hash_def)

lemma length_hash_eq: "length_hash b = length_hash b' \<Longrightarrow> length b < 2000 \<Longrightarrow> length b' < 2000 \<Longrightarrow> length b = length b'"
proof -
  assume eq: "length_hash b = length_hash b'" and l: "length b < 2000" "length b' < 2000"
  have "(2000 :: nat) < 256 ^ 32" by simp
  then show "length b = length b'"
    using arg_cong [OF eq, of be_nat] l be_nat_nat_be [of "length b" 32] be_nat_nat_be [of "length b'" 32]
    by (simp add: length_hash_def)
qed

lemma sample_hash_inj: "inj_on length_hash (hashed length_hash [sample_event])"
proof -
  define p where "p = canonical_json (event_to_dict sample_event)"
  define s where "s = encode_ascii (compute_tree_head length_hash [] @ event_hash length_hash sample_event)"
  have "length s = 128" by (simp add: s_def length_tree_head event_hash_def sha256_hex_def)
  then have "length_hash p \<noteq> length_hash s"
    using length_hash_eq [of p s] sample_sizes(1,2) by (auto simp flip: p_def)
  moreover have "hashed length_hash [sample_event] = {p, s}"
    using hashed_snoc [of length_hash "[]" sample_event] by (simp add: p_def s_def hashed_def)
  ultimately show ?thesis by (simp add: inj_on_def)
qed

lemma sample_manifest_hash: "\<exists>mh. manifest_hash length_hash sample_issuer_manifest = Inr mh"
proof -
  have "filter (\<lambda>(k, _). k \<noteq> ''signatureHash'') (manifest_to_dict sample_issuer_manifest) = manifest_to_dict sample_issuer_manifest"
    by (simp add: manifest_to_dict_def manifest_body_def sample_issuer_manifest_def opt_int_entry_def opt_str_entry_def)
  then show ?thesis
    using sample_sizes(3) by (simp add: manifest_hash_def canonicalize_manifest_def Let_def MAX_MANIFEST_BYTES_def MAX_ACTIVE_KEYS_def)
      (simp add: sample_issuer_manifest_def)
qed

theorem accepted_checkpoint_is_prefix_witness:
  "\<exists>c. make_checkpoint length_hash 20 None sample_directory = Inr c \<and>
     verify_checkpoint_consistency length_hash sample_directory c = Inr [] \<and>
     map event_to_dict (take 1 (dir_events sample_directory)) = map event_to_dict [sample_event]"
proof -
  obtain mh where mh: "manifest_hash length_hash sample_issuer_manifest = Inr mh" using sample_manifest_hash by blast
  then obtain c where c: "make_checkpoint length_hash 20 None sample_directory = Inr c"
      "verify_checkpoint_consistency length_hash sample_directory c = Inr []"
    by (simp add: make_checkpoint_def verify_checkpoint_consistency_def sample_directory_def new_directory_def Let_def)
  have e: "dir_events sample_directory = [sample_event]" by (simp add: sample_directory_def)
  show ?thesis
    using accepted_checkpoint_is_prefix [OF c length_hash_32] sample_hash_inj c by (simp add: e)
qed

definition introduces :: "DirectoryEvent \<Rightarrow> string \<Rightarrow> bool" where
  "introduces e k \<longleftrightarrow> de_event_type e \<in> {ACTIVATION, ROTATION} \<and> de_key_id e = k"

lemma apply_event_key:
  assumes "apply_event e ks = Inr ks'" "\<not> introduces e k" "map_of ks k = Some key"
  shows "map_of ks' k = Some key \<or> (\<exists>st. map_of ks' k = Some (end_key st (de_timestamp e) key))"
  using assms
  by (auto simp: apply_event_def introduces_def update_conv' split: EventType.splits option.splits list.splits if_splits)

lemma historical_step:
  assumes "append_event H e d = Inr d'" "\<not> introduces e k" "ts < de_timestamp e"
    and "key_valid_for_historical_signature d k ts"
  shows "key_valid_for_historical_signature d' k ts"
proof -
  obtain key where key: "map_of (dir_keys d) k = Some key"
    using assms(4) by (auto simp: key_valid_for_historical_signature_def split: option.splits)
  obtain ks where "apply_event e (dir_keys d) = Inr ks" "dir_keys d' = ks"
    using assms(1) by (auto simp: append_event_eq_Inr with_log_def)
  with apply_event_key [OF _ assms(2) key] show ?thesis
    using assms(3,4) key by (fastforce simp: key_valid_for_historical_signature_def end_key_def)
qed

text \<open>
  C29: later events do not reach back. A signature that a key could have made at an instant stays
  valid under every sequence of later events (rotation, compromise and retirement of the key
  included), as long as none of them introduces a key under the same id again.
\<close>

theorem historical_signatures_stay_valid:
  assumes "foreach (append_event H) events d = Inr d'" "key_valid_for_historical_signature d k ts"
    and "\<forall>e \<in> set events. ts < de_timestamp e \<and> \<not> introduces e k"
  shows "key_valid_for_historical_signature d' k ts"
  using assms(1,2)
proof (rule foreach_invariant [where P = "\<lambda>d. key_valid_for_historical_signature d k ts"])
  show "key_valid_for_historical_signature v k ts"
    if "e \<in> set events" "key_valid_for_historical_signature u k ts" "append_event H e u = Inr v" for e u v
    using historical_step [OF that(3) _ _ that(2)] assms(3) that(1) by blast
qed

text \<open>The event of a given type that extends the log of a directory.\<close>

definition next_event :: "(bytes \<Rightarrow> bytes) \<Rightarrow> EventType \<Rightarrow> string \<Rightarrow> int \<Rightarrow> Directory \<Rightarrow> DirectoryEvent" where
  "next_event H ty k ts d = \<lparr>de_event_type = ty, de_sequence = int (length (dir_events d)), de_timestamp = ts,
     de_organization_identity_hash = dir_organization_identity_hash d, de_key_id = k, de_public_key_hash = sample_digest,
     de_previous_event_hash = (if dir_events d = [] then None else Some (event_hash H (last (dir_events d)))),
     de_related_key_id = None, de_manifest_hash = None, de_reason_hash = None\<rparr>"

lemma check_next_event: "length (dir_events d) < MAX_EVENTS \<Longrightarrow> check_link H d (next_event H ty k ts d) = Inr ()"
  by (simp add: check_link_def next_event_def)

definition one_key_directory :: Directory where
  "one_key_directory = with_log [(''k1'', active_key ''k1'' sample_digest ''ed25519'' 10)] [sample_event] (new_directory sample_digest)"

theorem historical_signatures_stay_valid_witness:
  "\<exists>d'. foreach (append_event id) [next_event id RETIREMENT ''k1'' 50 one_key_directory] one_key_directory = Inr d' \<and>
     key_valid_for_historical_signature d' ''k1'' 20"
proof -
  let ?e = "next_event id RETIREMENT ''k1'' 50 one_key_directory"
  have "check_link id one_key_directory ?e = Inr ()"
    by (rule check_next_event) (simp add: one_key_directory_def with_log_def MAX_EVENTS_def)
  then obtain d' where d': "append_event id ?e one_key_directory = Inr d'"
    by (auto simp: append_event_eq_Inr) (simp add: apply_event_def next_event_def one_key_directory_def with_log_def)
  then have "foreach (append_event id) [?e] one_key_directory = Inr d'" by simp
  moreover have "key_valid_for_historical_signature one_key_directory ''k1'' 20"
    by (simp add: key_valid_for_historical_signature_def one_key_directory_def with_log_def active_key_def)
  ultimately have "key_valid_for_historical_signature d' ''k1'' 20"
    by (rule historical_signatures_stay_valid) (simp add: next_event_def introduces_def)
  then show ?thesis using d' by simp
qed

text \<open>
  retirement erases a compromise. Appending a retirement event for a compromised key succeeds;
  afterwards the directory no longer reports the key as compromised at any instant, and signatures
  dated between the compromise and the retirement, refused before, are accepted.
\<close>

theorem retirement_erases_compromise:
  assumes "length (dir_events d) < MAX_EVENTS" "map_of (dir_keys d) k = Some key"
    and "ik_status key = COMPROMISED" "ik_valid_until key = Some u" "u \<le> s" "s < ts" "ik_valid_from key \<le> s"
  shows "\<exists>d'. append_event H (next_event H RETIREMENT k ts d) d = Inr d' \<and>
     key_was_compromised_at d k s \<and> \<not> key_valid_for_historical_signature d k s \<and>
     (\<forall>t. \<not> key_was_compromised_at d' k t) \<and> key_valid_for_historical_signature d' k s"
proof -
  let ?e = "next_event H RETIREMENT k ts d"
  have ap: "apply_event ?e (dir_keys d) = Inr (AList.update k (end_key RETIRED ts key) (dir_keys d))"
    using assms(2) by (simp add: apply_event_def next_event_def)
  then obtain d' where d': "append_event H ?e d = Inr d'" "dir_keys d' = AList.update k (end_key RETIRED ts key) (dir_keys d)"
    using check_next_event [OF assms(1)] by (simp add: append_event_def)
  show ?thesis
    using assms d' by (auto simp: key_was_compromised_at_def key_valid_for_historical_signature_def update_conv' end_key_def)
qed

theorem retirement_erases_compromise_witness:
  "\<exists>d'. append_event id (next_event id RETIREMENT ''k1'' 90 (with_log [(''k1'', end_key COMPROMISED 30 (active_key ''k1'' sample_digest ''ed25519'' 10))] [] (new_directory sample_digest)))
       (with_log [(''k1'', end_key COMPROMISED 30 (active_key ''k1'' sample_digest ''ed25519'' 10))] [] (new_directory sample_digest)) = Inr d' \<and>
     key_valid_for_historical_signature d' ''k1'' 40"
  using retirement_erases_compromise
    [of "with_log [(''k1'', end_key COMPROMISED 30 (active_key ''k1'' sample_digest ''ed25519'' 10))] [] (new_directory sample_digest)"
      "''k1''" "end_key COMPROMISED 30 (active_key ''k1'' sample_digest ''ed25519'' 10)" 30 40 90 id]
  by (auto simp: with_log_def new_directory_def MAX_EVENTS_def end_key_def active_key_def)

end
