(* ===== verification/Quarantine.thy ===== *)
theory Quarantine
  imports Prelude
begin

text \<open>
  Upload quarantine, \<^verbatim>\<open>src/backend/quarantine.py\<close>: detection of the video family from the first bytes
  of a file, and the cross-checks of file extension and declared content type that are made once on
  the stream (\<open>sniff_media_type_stream\<close>) and once on the saved file (\<open>verify_consistency\<close>). A file is
  its bytes, or \<open>None\<close> when it is missing or cannot be read.
\<close>

section \<open>Formats\<close>

record VideoFormat =
  vf_name :: string
  vf_extensions :: "string list"
  vf_mime_types :: "string list"

definition HEADER_BYTES :: nat where
  "HEADER_BYTES = 32"

definition KNOWN_FORMATS :: "VideoFormat list" where
  "KNOWN_FORMATS =
     [\<lparr>vf_name = ''MP4'', vf_extensions = [''.mp4'', ''.m4v'', ''.m4a'', ''.m4b'', ''.mp4v''],
       vf_mime_types = [''video/mp4'', ''video/x-m4v'']\<rparr>,
      \<lparr>vf_name = ''MOV'', vf_extensions = [''.mov'', ''.qt''], vf_mime_types = [''video/quicktime'']\<rparr>,
      \<lparr>vf_name = ''3GP'', vf_extensions = [''.3gp'', ''.3g2''],
       vf_mime_types = [''video/3gpp'', ''video/3gp'', ''video/3gpp2'']\<rparr>,
      \<lparr>vf_name = ''Matroska'', vf_extensions = [''.webm'', ''.mkv'', ''.mka'', ''.mks''],
       vf_mime_types = [''video/webm'', ''video/x-matroska'', ''video/mkv'', ''audio/webm'']\<rparr>,
      \<lparr>vf_name = ''AVI'', vf_extensions = [''.avi''], vf_mime_types = [''video/x-msvideo'', ''video/avi'']\<rparr>]"

definition read_header :: "bytes option \<Rightarrow> bytes option" where
  "read_header file = map_option (take HEADER_BYTES) file"

text \<open>\<open>header[i:j]\<close> for \<open>i \<le> j\<close>.\<close>

definition slice :: "nat \<Rightarrow> nat \<Rightarrow> bytes \<Rightarrow> bytes" where
  "slice i j b = take (j - i) (drop i b)"

definition detect_format_family :: "bytes \<Rightarrow> string option" where
  "detect_format_family header =
     (if length header < 12 then None
      else if take 4 header = [0x1A, 0x45, 0xDF, 0xA3] then Some ''Matroska''
      else if slice 4 8 header = encode_ascii ''ftyp'' then
        (let brand = slice 8 12 header in
         if take 3 brand \<in> {encode_ascii ''3gp'', encode_ascii ''3g2''} then Some ''3GP''
         else if take 2 brand = encode_ascii ''qt'' then Some ''MOV''
         else Some ''MP4'')
      else if slice 0 4 header = encode_ascii ''RIFF'' \<and> slice 8 12 header = encode_ascii ''AVI '' then Some ''AVI''
      else None)"

definition normalise_extension :: "string \<Rightarrow> string option" where
  "normalise_extension filename =
     (let after = rev (takeWhile (\<lambda>c. c \<noteq> CHR ''.'') (rev filename)) in
      if CHR ''.'' \<notin> set filename \<or> after = [] then None else Some (py_lower (CHR ''.'' # after)))"

definition normalise_mime :: "string option \<Rightarrow> string option" where
  "normalise_mime content_type =
     (case content_type of
        None \<Rightarrow> None
      | Some ct \<Rightarrow> if ct = [] then None
                  else Some (py_lower (py_strip (takeWhile (\<lambda>c. c \<noteq> CHR '';'') ct))))"

definition fmt_by_extension :: "string \<Rightarrow> VideoFormat option" where
  "fmt_by_extension ext = find (\<lambda>fmt. ext \<in> set (vf_extensions fmt)) KNOWN_FORMATS"

definition fmt_by_mime :: "string \<Rightarrow> VideoFormat option" where
  "fmt_by_mime mime = find (\<lambda>fmt. mime \<in> set (vf_mime_types fmt)) KNOWN_FORMATS"

definition fmt_by_name :: "string \<Rightarrow> VideoFormat option" where
  "fmt_by_name name = find (\<lambda>fmt. vf_name fmt = name) KNOWN_FORMATS"

section \<open>The scanner on a saved file\<close>

definition is_valid_video :: "bytes option \<Rightarrow> bool" where
  "is_valid_video file = (case read_header file of None \<Rightarrow> False | Some h \<Rightarrow> detect_format_family h \<noteq> None)"

definition detect_format :: "bytes option \<Rightarrow> string option" where
  "detect_format file =
     (case read_header file of
        None \<Rightarrow> None
      | Some h \<Rightarrow> if length h < 12 then None else detect_format_family h)"

definition quote :: "string \<Rightarrow> string" where
  "quote s = CHR 0x27 # s @ [CHR 0x27]"

definition consistent_extension :: "string \<Rightarrow> string option \<Rightarrow> string + unit" where
  "consistent_extension detected filename =
     (case filename of
        None \<Rightarrow> Inr ()
      | Some name \<Rightarrow>
          if name = [] then Inr ()
          else (case normalise_extension name of
              None \<Rightarrow> Inr ()
            | Some ext \<Rightarrow>
                (case fmt_by_extension ext of
                   None \<Rightarrow> Inl (''uploaded file has unsupported extension '' @ quote ext)
                 | Some fmt \<Rightarrow>
                     if vf_name fmt \<noteq> detected
                     then Inl (''uploaded file claims to be '' @ quote ext @ '' but its signature matches '' @ detected
                               @ ''; possible content-type spoofing'')
                     else Inr ())))"

definition consistent_mime :: "string \<Rightarrow> string option \<Rightarrow> string + unit" where
  "consistent_mime detected content_type =
     (case normalise_mime content_type of
        None \<Rightarrow> Inr ()
      | Some mime \<Rightarrow>
          if mime = [] \<or> mime = ''application/octet-stream'' then Inr ()
          else (case fmt_by_mime mime of
              None \<Rightarrow> Inl (''uploaded file has unsupported content type '' @ quote mime)
            | Some fmt \<Rightarrow>
                if vf_name fmt \<noteq> detected
                then Inl (''uploaded file claims '' @ quote mime @ '' but its signature matches '' @ detected
                          @ ''; possible content-type spoofing'')
                else Inr ()))"

definition verify_consistency :: "bytes option \<Rightarrow> string option \<Rightarrow> string option \<Rightarrow> string + unit" where
  "verify_consistency file filename content_type =
     (case read_header file of
        None \<Rightarrow> Inl ''uploaded file is empty, too small, or unreadable''
      | Some header \<Rightarrow>
          if length header < 12 then Inl ''uploaded file is too small to contain a valid video header''
          else (case detect_format_family header of
              None \<Rightarrow> Inl ''uploaded file failed signature scan; invalid or unsupported video format''
            | Some detected \<Rightarrow>
                andthen (consistent_extension detected filename) (\<lambda>_. consistent_mime detected content_type)))"

section \<open>The sniffer on a stream\<close>

definition sniff_extension :: "string \<Rightarrow> string option \<Rightarrow> string + unit" where
  "sniff_extension detected filename =
     (case filename of
        None \<Rightarrow> Inr ()
      | Some name \<Rightarrow>
          if name = [] then Inr ()
          else (case normalise_extension name of
              None \<Rightarrow> Inr ()
            | Some ext \<Rightarrow>
                (case fmt_by_extension ext of
                   None \<Rightarrow> Inl (''uploaded file has unsupported extension '' @ quote ext
                              @ ''; accepted extensions: mp4, mov, avi, webm, mkv, 3gp'')
                 | Some fmt \<Rightarrow>
                     if vf_name fmt \<noteq> detected
                     then Inl (''uploaded file claims to be '' @ quote ext @ '' but its header signature matches '' @ detected
                               @ ''; possible content-type spoofing'')
                     else Inr ())))"

definition sniff_mime :: "string \<Rightarrow> string option \<Rightarrow> string + unit" where
  "sniff_mime detected content_type =
     (case normalise_mime content_type of
        None \<Rightarrow> Inr ()
      | Some mime \<Rightarrow>
          if mime = [] \<or> mime = ''application/octet-stream'' then Inr ()
          else (case fmt_by_mime mime of
              None \<Rightarrow> Inl (''uploaded file declares unsupported content type '' @ quote mime)
            | Some fmt \<Rightarrow>
                if vf_name fmt \<noteq> detected
                then Inl (''uploaded file declares '' @ quote mime @ '' but its header signature matches '' @ detected
                          @ ''; possible content-type spoofing'')
                else Inr ()))"

definition sniff_media_type_stream :: "bytes \<Rightarrow> string option \<Rightarrow> string option \<Rightarrow> string + string" where
  "sniff_media_type_stream stream filename content_type =
     (let header = take HEADER_BYTES stream in
      if length header < 12
      then Inl ''uploaded file is too small to contain a valid video header; minimum 12 bytes required''
      else (case detect_format_family header of
          None \<Rightarrow> Inl ''uploaded file failed media-type sniff: no recognised video signature found in file header''
        | Some detected \<Rightarrow>
            andthen (sniff_extension detected filename) (\<lambda>_.
            andthen (sniff_mime detected content_type) (\<lambda>_. Inr detected))))"

definition sniff_media_type_path :: "bytes option \<Rightarrow> string option \<Rightarrow> string option \<Rightarrow> string + string" where
  "sniff_media_type_path file filename content_type =
     (case read_header file of
        None \<Rightarrow> Inl ''assembled video file is empty, too small, or unreadable''
      | Some header \<Rightarrow> sniff_media_type_stream header filename content_type)"

text \<open>
  The upload carries a name and a content type of its own; the arguments take precedence. The result
  is the quarantined content.
\<close>

definition isolate_upload ::
  "bytes \<Rightarrow> string option \<Rightarrow> string option \<Rightarrow> string option \<Rightarrow> string option \<Rightarrow> string + bytes" where
  "isolate_upload content own_name own_type filename content_type =
     andthen (verify_consistency (Some content)
                (case filename of None \<Rightarrow> own_name | Some n \<Rightarrow> Some n)
                (case content_type of None \<Rightarrow> own_type | Some t \<Rightarrow> Some t))
       (\<lambda>_. Inr content)"

section \<open>Properties\<close>

definition extension_fits :: "string \<Rightarrow> string option \<Rightarrow> bool" where
  "extension_fits family filename \<longleftrightarrow>
     (\<forall>ext. filename \<noteq> Some [] \<and> Option.bind filename normalise_extension = Some ext \<longrightarrow>
        map_option vf_name (fmt_by_extension ext) = Some family)"

definition mime_fits :: "string \<Rightarrow> string option \<Rightarrow> bool" where
  "mime_fits family content_type \<longleftrightarrow>
     (\<forall>mime. normalise_mime content_type = Some mime \<and> mime \<noteq> [] \<and> mime \<noteq> ''application/octet-stream'' \<longrightarrow>
        map_option vf_name (fmt_by_mime mime) = Some family)"

lemma extension_checks:
  "consistent_extension f name = Inr () \<longleftrightarrow> extension_fits f name"
  "sniff_extension f name = Inr () \<longleftrightarrow> extension_fits f name"
  by (auto simp: consistent_extension_def sniff_extension_def extension_fits_def split: option.splits)

lemma mime_checks:
  "consistent_mime f ct = Inr () \<longleftrightarrow> mime_fits f ct"
  "sniff_mime f ct = Inr () \<longleftrightarrow> mime_fits f ct"
  by (auto simp: consistent_mime_def sniff_mime_def mime_fits_def split: option.splits)

lemma detected_long: "detect_format_family h = Some f \<Longrightarrow> 12 \<le> length h"
  by (simp add: detect_format_family_def split: if_splits)

lemma sniff_iff:
  "sniff_media_type_stream b name ct = Inr f \<longleftrightarrow>
     detect_format_family (take HEADER_BYTES b) = Some f \<and> extension_fits f name \<and> mime_fits f ct"
  using detected_long [of "take HEADER_BYTES b"]
  by (force simp: sniff_media_type_stream_def Let_def andthen_eq_Inr extension_checks mime_checks split: option.splits)

lemma verify_iff:
  "verify_consistency (Some b) name ct = Inr () \<longleftrightarrow>
     (\<exists>f. detect_format_family (take HEADER_BYTES b) = Some f \<and> extension_fits f name \<and> mime_fits f ct)"
  using detected_long [of "take HEADER_BYTES b"]
  by (force simp: verify_consistency_def read_header_def andthen_eq_Inr extension_checks mime_checks split: option.splits)

lemma known_names: "vf_name ` set KNOWN_FORMATS = {''MP4'', ''MOV'', ''3GP'', ''Matroska'', ''AVI''}"
  by (simp add: KNOWN_FORMATS_def)

lemma family_known:
  assumes "detect_format_family h = Some f"
  shows "\<exists>fmt \<in> set KNOWN_FORMATS. vf_name fmt = f"
proof -
  have "f \<in> vf_name ` set KNOWN_FORMATS"
    unfolding known_names using assms by (simp add: detect_format_family_def Let_def split: if_splits)
  then show ?thesis by blast
qed

text \<open>
  the two scanners agree and accept exactly the consistent uploads. For every content, file name
  and declared content type, the stream sniffer, the path sniffer and the check of the saved file
  accept together; they accept exactly when the first 32 bytes carry the signature of one of the
  known families and every usable extension and every declared type other than the wildcard belongs
  to that family; and the sniffers return that family.
\<close>

theorem media_type_checks_agree:
  "((\<exists>f. sniff_media_type_stream b name ct = Inr f) \<longleftrightarrow> verify_consistency (Some b) name ct = Inr ()) \<and>
   sniff_media_type_path (Some b) name ct = sniff_media_type_stream b name ct \<and>
   (sniff_media_type_stream b name ct = Inr f \<longleftrightarrow>
      detect_format (Some b) = Some f \<and> (\<exists>fmt \<in> set KNOWN_FORMATS. vf_name fmt = f) \<and> extension_fits f name \<and> mime_fits f ct)"
proof -
  have "detect_format (Some b) = detect_format_family (take HEADER_BYTES b)"
    using detected_long [of "take HEADER_BYTES b"]
    by (cases "detect_format_family (take HEADER_BYTES b)") (auto simp: detect_format_def read_header_def)
  then have "sniff_media_type_stream b name ct = Inr f \<longleftrightarrow>
      detect_format (Some b) = Some f \<and> (\<exists>fmt \<in> set KNOWN_FORMATS. vf_name fmt = f) \<and> extension_fits f name \<and> mime_fits f ct"
    unfolding sniff_iff using family_known [of "take HEADER_BYTES b" f] by auto
  moreover have "(\<exists>f. sniff_media_type_stream b name ct = Inr f) \<longleftrightarrow> verify_consistency (Some b) name ct = Inr ()"
    unfolding sniff_iff verify_iff ..
  moreover have "sniff_media_type_path (Some b) name ct = sniff_media_type_stream b name ct"
    by (simp add: sniff_media_type_path_def read_header_def sniff_media_type_stream_def)
  ultimately show ?thesis by blast
qed

text \<open>A webm file named as such passes; the same bytes under the name of an MP4 file do not.\<close>

lemma webm_renamed:
  "sniff_media_type_stream ([0x1A, 0x45, 0xDF, 0xA3] @ replicate 28 0) (Some ''clip.WebM'') (Some ''video/webm; codecs=vp9'') = Inr ''Matroska''"
  "sniff_media_type_stream ([0x1A, 0x45, 0xDF, 0xA3] @ replicate 28 0) (Some ''clip.mp4'') None \<noteq> Inr ''Matroska''"
  by code_simp+

end
