(* ===== verification/Chain_Indexer.thy ===== *)
theory Chain_Indexer
  imports Json Strkey Proof_Store
begin

text \<open>
  The contract-event indexer, \<^verbatim>\<open>src/backend/chain_indexer.py\<close>: decoding of contract values and
  lifecycle events, ingestion of a page of events into the proof-event store, and the polling step
  with its cursor. The exchange with the RPC service is a parameter, from the request to the parsed
  JSON reply or \<open>None\<close> for a failed call; so are the text decoding of contract strings (\<open>utf8\<close>) and
  the text of floats and containers (\<open>other\<close>). Metrics, logging and the request headers are left
  out. Values written to the database are assumed to fit their columns, and the fields that go
  into typed columns to have the types the RPC documents: contract ids and cursors are text, ledgers
  integers; a reply with another type there is refused as \<open>UndocumentedType\<close>.

  The main results: a page of events is absorbed exactly once, in order, and absorbing it again
  changes nothing; and the cursor moves only past events that are in the store.
\<close>

section \<open>Contract values\<close>

definition u32 :: "bytes \<Rightarrow> nat option" where
  "u32 p = (if 4 \<le> length p then Some (be_nat (take 4 p)) else None)"

definition u64 :: "bytes \<Rightarrow> nat option" where
  "u64 p = (if 8 \<le> length p then Some (be_nat (take 8 p)) else None)"

definition signed :: "nat \<Rightarrow> nat \<Rightarrow> int" where
  "signed w n = (if n < 2 ^ (w - 1) then int n else int n - 2 ^ w)"

text \<open>The discriminant and its payload; \<open>None\<close> when the source returns the raw text.\<close>

definition scval :: "(bytes \<Rightarrow> string) \<Rightarrow> bytes \<Rightarrow> pyval option" where
  "scval utf8 data =
     (let disc = be_nat (take 4 data); payload = drop 4 data in
      if disc = 0 then map_option (\<lambda>n. PBool (n \<noteq> 0)) (u32 payload)
      else if disc = 1 then Some PNone
      else if disc = 3 then map_option (\<lambda>n. PInt (int n)) (u32 payload)
      else if disc = 4 then map_option (\<lambda>n. PInt (signed 32 n)) (u32 payload)
      else if disc \<in> {5, 7, 8} then map_option (\<lambda>n. PInt (int n)) (u64 payload)
      else if disc = 6 then map_option (\<lambda>n. PInt (signed 64 n)) (u64 payload)
      else if disc = 13 then map_option (\<lambda>n. PStr (tohex (take n (drop 4 payload)))) (u32 payload)
      else if disc \<in> {14, 15} then map_option (\<lambda>n. PStr (utf8 (take n (drop 4 payload)))) (u32 payload)
      else if disc = 18 then
        (case u32 payload of
           None \<Rightarrow> None
         | Some addr_type \<Rightarrow>
             if addr_type = 0
             then (case make_strkey (of_nat VERSION_BYTE_ED25519_PUBLIC) (take 32 (drop 8 payload)) of Inl _ \<Rightarrow> None | Inr s \<Rightarrow> Some (PStr s))
             else if addr_type = 1
             then (case make_strkey (of_nat VERSION_BYTE_CONTRACT) (take 32 (drop 4 payload)) of Inl _ \<Rightarrow> None | Inr s \<Rightarrow> Some (PStr s))
             else None)
      else None)"

definition decode_scval :: "(bytes \<Rightarrow> string) \<Rightarrow> pyval \<Rightarrow> pyval" where
  "decode_scval utf8 raw_val =
     (case raw_val of
        PStr s \<Rightarrow>
          (case b64_strict s of
             None \<Rightarrow> raw_val
           | Some data \<Rightarrow>
               if length data < 4 then raw_val
               else (case scval utf8 data of None \<Rightarrow> raw_val | Some v \<Rightarrow> v))
      | _ \<Rightarrow> raw_val)"

definition normalize_hex :: "(pyval \<Rightarrow> string) \<Rightarrow> pyval \<Rightarrow> string option" where
  "normalize_hex other val =
     (if val = PNone then None
      else let text = py_lower (py_strip (py_str other val))
           in Some (if startswith text ''0x'' then drop 2 text else text))"

section \<open>Lifecycle events\<close>

record DecodedLifecycleEvent =
  le_event_type :: string
  le_proof_id :: "string option"
  le_tx_hash :: string
  le_event_index :: int
  le_contract_id :: pyval
  le_tx_status :: string
  le_metadata :: "(string \<times> pyval) list"
  le_ledger :: pyval

definition py_or :: "pyval \<Rightarrow> pyval \<Rightarrow> pyval" where
  "py_or a b = (if truthy a then a else b)"

definition resolve_tx_hash :: "(pyval \<Rightarrow> string) \<Rightarrow> (string \<times> pyval) list \<Rightarrow> string option" where
  "resolve_tx_hash other event =
     (case py_or (dict_get event ''txHash'') (py_or (dict_get event ''transactionHash'') (dict_get event ''tx_hash'')) of
        PStr s \<Rightarrow>
          if s = [] then None
          else (case normalize_hex other (PStr s) of None \<Rightarrow> Some s | Some [] \<Rightarrow> Some s | Some t \<Rightarrow> Some t)
      | _ \<Rightarrow> None)"

definition int_or_zero :: "pyval \<Rightarrow> int" where
  "int_or_zero v = (case py_int_of v of Inl _ \<Rightarrow> 0 | Inr i \<Rightarrow> i)"

definition resolve_event_index :: "(pyval \<Rightarrow> string) \<Rightarrow> (string \<times> pyval) list \<Rightarrow> int" where
  "resolve_event_index other event =
     (let direct = (if dict_get event ''eventIndex'' = PNone then dict_get event ''event_index'' else dict_get event ''eventIndex'')
      in if direct = PNone
         then let token = py_str other (py_or (dict_get event ''id'') (py_or (dict_get event ''pagingToken'') (PStr [])))
              in if CHR ''-'' \<in> set token then int_or_zero (PStr (last (split_on CHR ''-'' token))) else 0
         else int_or_zero direct)"

definition opt_text :: "string option \<Rightarrow> pyval" where
  "opt_text v = (case v of None \<Rightarrow> PNone | Some s \<Rightarrow> PStr s)"

definition list_nth :: "pyval list \<Rightarrow> nat \<Rightarrow> pyval" where
  "list_nth xs i = (if i < length xs then xs ! i else PNone)"

text \<open>Action, actor and reason code of a history entry.\<close>

definition history_entry :: "pyval \<Rightarrow> pyval \<times> pyval \<times> pyval" where
  "history_entry val =
     (case val of
        PDict d \<Rightarrow> (dict_get d ''action'', dict_get d ''actor'', dict_get d ''reason_code'')
      | PList xs \<Rightarrow>
          (if xs = [] then (PNone, PNone, PNone)
           else (xs ! 0, if 3 \<le> length xs then xs ! 2 else PNone, if 4 \<le> length xs then xs ! 3 else PNone))
      | PInt i \<Rightarrow> (PInt i, PNone, PNone)
      | PBool b \<Rightarrow> (PBool b, PNone, PNone)
      | _ \<Rightarrow> (PNone, PNone, PNone))"

definition action_code :: "pyval \<Rightarrow> int" where
  "action_code action = (if action = PNone then 0 else int_or_zero action)"

definition history_kind :: "int \<Rightarrow> (string \<times> string \<times> string) option" where
  "history_kind code =
     (if code = 3 then Some (''revoke'', ''revoked'', ''revoked'')
      else if code = 4 then Some (''expire'', ''confirmed'', ''expired'')
      else if code = 5 then Some (''correct'', ''confirmed'', ''corrected'')
      else None)"

definition dispute_kind :: "string \<Rightarrow> (string \<times> string) option" where
  "dispute_kind action =
     (if action = ''open'' then Some (''dispute_open'', ''open'')
      else if action = ''resolve'' then Some (''dispute_resolve'', ''resolved'')
      else if action = ''supersede'' then Some (''dispute_supersede'', ''superseded'')
      else if action = ''dismiss'' then Some (''dispute_dismiss'', ''dismissed'')
      else None)"

definition superseded_entry :: "(pyval \<Rightarrow> string) \<Rightarrow> string \<Rightarrow> pyval \<Rightarrow> (string \<times> pyval) list" where
  "superseded_entry other action val =
     (if action = ''supersede''
      then [(''superseded_by'',
             case val of PDict d \<Rightarrow> opt_text (normalize_hex other (dict_get d ''superseded_by'')) | _ \<Rightarrow> PNone)]
      else [])"

text \<open>The three topic families, given the decoded topics and value and the common fields.\<close>

definition classify_topics ::
  "(pyval \<Rightarrow> string) \<Rightarrow> pyval list \<Rightarrow> pyval \<Rightarrow> (string \<times> string option \<times> string \<times> (string \<times> pyval) list) option" where
  "classify_topics other topics val =
     (let first = py_lower (py_str other (list_nth topics 0));
          second = (if 1 < length topics then py_lower (py_str other (topics ! 1)) else []);
          n = length topics;
          third = (if 3 \<le> n then normalize_hex other (topics ! 2) else None)
      in if first = ''proof'' \<and> second = ''revoke'' \<and> 3 \<le> n
         then Some (''revoke'', third, ''revoked'', [(''status'', PStr ''revoked''), (''raw_value'', val)])
         else if first = ''proof'' \<and> second = ''history'' \<and> 3 \<le> n
         then (let (action, actor, reason) = history_entry val in
               map_option (\<lambda>(ty, status, label). (ty, third, status,
                   [(''action'', PStr label), (''actor'', actor), (''reason_code'', reason)]))
                 (history_kind (action_code action)))
         else if first = ''dispute'' \<and> 2 \<le> n
         then (let dispute_id = third;
                   fourth = (if 4 \<le> n then normalize_hex other (topics ! 3) else None);
                   proof_id = (if fourth = None \<and> n = 3 then dispute_id else fourth)
               in map_option (\<lambda>(ty, stage). (ty, proof_id, ''confirmed'',
                   [(''dispute_id'', opt_text dispute_id), (''stage'', PStr stage)]
                   @ superseded_entry other second val @ [(''details'', val)]))
                 (dispute_kind second))
         else None)"

definition classify_and_decode_event ::
  "(bytes \<Rightarrow> string) \<Rightarrow> (pyval \<Rightarrow> string) \<Rightarrow> pyval \<Rightarrow> pyval \<Rightarrow> DecodedLifecycleEvent option" where
  "classify_and_decode_event utf8 other event default_contract_id =
     (case event of
        PDict e \<Rightarrow>
          (case resolve_tx_hash other e of
             None \<Rightarrow> None
           | Some tx_hash \<Rightarrow>
               (case py_or (dict_get e ''topic'') (py_or (dict_get e ''topics'') (PList [])) of
                  PList raw_topics \<Rightarrow>
                    if raw_topics = [] then None
                    else map_option (\<lambda>(ty, proof_id, status, metadata).
                        \<lparr>le_event_type = ty, le_proof_id = proof_id, le_tx_hash = tx_hash,
                         le_event_index = resolve_event_index other e,
                         le_contract_id = py_or (dict_get e ''contractId'') (py_or (dict_get e ''contract_id'') default_contract_id),
                         le_tx_status = status, le_metadata = metadata, le_ledger = dict_get e ''ledger''\<rparr>)
                      (classify_topics other (map (decode_scval utf8) raw_topics) (decode_scval utf8 (dict_get e ''value'')))
                | _ \<Rightarrow> None))
      | _ \<Rightarrow> None)"

section \<open>Ingestion\<close>

datatype IndexerError = StoreFailure StoreError | UndocumentedType | BadResponse | RpcError pyval | RpcFailure

record Batch =
  b_store :: Store
  b_scanned :: nat
  b_indexed :: nat
  b_skipped :: nat
  b_duplicates :: nat
  b_queued :: "int list"

definition start_batch :: "Store \<Rightarrow> Batch" where
  "start_batch st = \<lparr>b_store = st, b_scanned = 0, b_indexed = 0, b_skipped = 0, b_duplicates = 0, b_queued = []\<rparr>"

text \<open>The row handed to the insert.\<close>

definition event_row :: "DecodedLifecycleEvent \<Rightarrow> IndexerError + ProofEvent" where
  "event_row d =
     andthen (case le_contract_id d of PNone \<Rightarrow> Inr None | PStr s \<Rightarrow> Inr (Some s) | _ \<Rightarrow> Inl UndocumentedType) (\<lambda>contract_id.
       Inr \<lparr>pe_id = 0, pe_event_type = le_event_type d, pe_file_name = None, pe_video_hash = None, pe_metadata_hash = None,
            pe_proof_id = le_proof_id d, pe_tier = None, pe_embedded_hash = None, pe_tx_hash = Some (le_tx_hash d),
            pe_tx_status = Some (le_tx_status d), pe_source_address = None, pe_contract_id = contract_id,
            pe_retention_class = None, pe_expires_at = None, pe_legal_hold = False,
            pe_metadata = Some (PDict (le_metadata d)), pe_time_attestation = None, pe_claimed_capture_time = None,
            pe_idempotency_key = None, pe_event_index = Some (le_event_index d), pe_created_at = 0\<rparr>)"

text \<open>
  One event: the store, the counters, and the ids handed to the webhook queue. Every insert is its
  own transaction, so an error keeps what earlier events wrote.
\<close>

definition process_event ::
  "(bytes \<Rightarrow> string) \<Rightarrow> (pyval \<Rightarrow> string) \<Rightarrow> rat \<Rightarrow> pyval \<Rightarrow> pyval \<Rightarrow> Batch \<Rightarrow> IndexerError option \<times> Batch" where
  "process_event utf8 other now contract_id raw_ev b0 =
     (let b = b0\<lparr>b_scanned := b_scanned b0 + 1\<rparr> in
      case classify_and_decode_event utf8 other raw_ev contract_id of
        None \<Rightarrow> (None, b\<lparr>b_skipped := b_skipped b + 1\<rparr>)
      | Some d \<Rightarrow>
          (case event_row d of
             Inl e \<Rightarrow> (Some e, b)
           | Inr ev \<Rightarrow>
               (case insert_indexed_proof_event now (le_tx_hash d) (le_event_index d) None ev (b_store b) of
                  (Inl e, st) \<Rightarrow> (Some (StoreFailure e), b\<lparr>b_store := st\<rparr>)
                | (Inr (row, created), st) \<Rightarrow>
                    if created
                    then (None, b\<lparr>b_store := st, b_indexed := b_indexed b + 1,
                                  b_queued := (if pe_id row \<noteq> 0 then b_queued b @ [pe_id row] else b_queued b)\<rparr>)
                    else (None, b\<lparr>b_store := st, b_duplicates := b_duplicates b + 1\<rparr>))))"

fun process_events ::
  "(bytes \<Rightarrow> string) \<Rightarrow> (pyval \<Rightarrow> string) \<Rightarrow> rat \<Rightarrow> pyval \<Rightarrow> pyval list \<Rightarrow> Batch \<Rightarrow> IndexerError option \<times> Batch" where
  "process_events utf8 other now contract_id [] b = (None, b)"
| "process_events utf8 other now contract_id (raw_ev # events) b =
     (case process_event utf8 other now contract_id raw_ev b of
        (Some e, b') \<Rightarrow> (Some e, b')
      | (None, b') \<Rightarrow> process_events utf8 other now contract_id events b')"

definition process_events_batch ::
  "(bytes \<Rightarrow> string) \<Rightarrow> (pyval \<Rightarrow> string) \<Rightarrow> rat \<Rightarrow> pyval list \<Rightarrow> pyval \<Rightarrow> Store \<Rightarrow> IndexerError option \<times> Batch" where
  "process_events_batch utf8 other now events contract_id st =
     process_events utf8 other now contract_id events (start_batch st)"

section \<open>The RPC client\<close>

type_synonym rpc = "pyval \<Rightarrow> pyval option"

definition rpc_payload :: "string \<Rightarrow> pyval \<Rightarrow> pyval" where
  "rpc_payload meth params =
     PDict [(''jsonrpc'', PStr ''2.0''), (''id'', PInt 1), (''method'', PStr meth), (''params'', params)]"

definition fetch_latest_ledger :: "rpc \<Rightarrow> int option" where
  "fetch_latest_ledger call =
     (case call (rpc_payload ''getLatestLedger'' (PList [])) of
        Some (PDict data) \<Rightarrow>
          (case py_or (dict_get data ''result'') (PDict []) of
             PDict result \<Rightarrow>
               (case py_int_of (py_or (dict_get result ''sequence'') (dict_get result ''latestLedger'')) of
                  Inl _ \<Rightarrow> None
                | Inr i \<Rightarrow> Some i)
           | _ \<Rightarrow> None)
      | _ \<Rightarrow> None)"

definition INDEXER_MAX_PAGE_SIZE :: int where
  "INDEXER_MAX_PAGE_SIZE = 100"

definition page_limit :: "int \<Rightarrow> int" where
  "page_limit limit = max 1 (min limit INDEXER_MAX_PAGE_SIZE)"

definition events_params :: "string \<Rightarrow> int option \<Rightarrow> string option \<Rightarrow> int \<Rightarrow> pyval" where
  "events_params contract_id start_ledger cursor limit =
     (let filters = (''filters'', PList [PDict [(''type'', PStr ''contract''), (''contractIds'', PList [PStr contract_id])]]);
          first = (''limit'', PInt (page_limit limit))
      in case cursor of
           Some (c # cs) \<Rightarrow>
             PDict [filters, (''pagination'', PDict [first, (''cursor'', PStr (c # cs))]), (''cursor'', PStr (c # cs))]
         | _ \<Rightarrow>
             PDict ([filters, (''pagination'', PDict [first])]
               @ (case start_ledger of None \<Rightarrow> [] | Some l \<Rightarrow> [(''startLedger'', PInt l)])))"

text \<open>A result that is no object fails in the caller's first \<open>get\<close>, before anything is written.\<close>

definition fetch_contract_events ::
  "rpc \<Rightarrow> string \<Rightarrow> int option \<Rightarrow> string option \<Rightarrow> int \<Rightarrow> IndexerError + (string \<times> pyval) list" where
  "fetch_contract_events call contract_id start_ledger cursor limit =
     (case call (rpc_payload ''getEvents'' (events_params contract_id start_ledger cursor limit)) of
        None \<Rightarrow> Inl RpcFailure
      | Some (PDict data) \<Rightarrow>
          if ''error'' \<in> fst ` set data then Inl (RpcError (dict_get data ''error''))
          else (case py_or (dict_get data ''result'') (PDict []) of PDict result \<Rightarrow> Inr result | _ \<Rightarrow> Inl BadResponse)
      | Some _ \<Rightarrow> Inl BadResponse)"

section \<open>Polling\<close>

definition INDEXER_ID :: string where
  "INDEXER_ID = ''soroban_events''"

text \<open>What the loop over \<open>rpc_result.get("events") or []\<close> runs through.\<close>

definition page_events :: "(string \<times> pyval) list \<Rightarrow> IndexerError + pyval list" where
  "page_events result =
     (case py_or (dict_get result ''events'') (PList []) of
        PList xs \<Rightarrow> Inr xs
      | PStr s \<Rightarrow> Inr (map (\<lambda>c. PStr [c]) s)
      | PDict d \<Rightarrow> Inr (map (\<lambda>(k, _). PStr k) d)
      | _ \<Rightarrow> Inl BadResponse)"

definition event_position :: "pyval \<Rightarrow> IndexerError + pyval" where
  "event_position v =
     (case v of PDict e \<Rightarrow> Inr (py_or (dict_get e ''id'') (dict_get e ''pagingToken'')) | _ \<Rightarrow> Inl BadResponse)"

text \<open>The cursor to be saved, if any.\<close>

definition next_cursor :: "(pyval \<Rightarrow> string) \<Rightarrow> string option \<Rightarrow> pyval \<Rightarrow> pyval list \<Rightarrow> IndexerError + string option" where
  "next_cursor other cursor new_cursor events =
     (if truthy new_cursor \<and> new_cursor \<noteq> opt_text cursor
      then (case new_cursor of PStr c \<Rightarrow> Inr (Some c) | _ \<Rightarrow> Inl UndocumentedType)
      else if events \<noteq> [] \<and> \<not> truthy new_cursor
      then andthen (event_position (last events)) (\<lambda>p. Inr (if truthy p then Some (py_str other p) else None))
      else Inr None)"

definition ledger_value :: "pyval \<Rightarrow> IndexerError + int option" where
  "ledger_value v = (case v of PNone \<Rightarrow> Inr None | PInt i \<Rightarrow> Inr (Some i) | _ \<Rightarrow> Inl UndocumentedType)"

definition advance_cursor ::
  "(pyval \<Rightarrow> string) \<Rightarrow> string option \<Rightarrow> (string \<times> pyval) list \<Rightarrow> pyval list \<Rightarrow> Store \<Rightarrow> IndexerError + Store" where
  "advance_cursor other cursor result events st =
     andthen (next_cursor other cursor (dict_get result ''cursor'') events) (\<lambda>c.
       case c of
         None \<Rightarrow> Inr st
       | Some c \<Rightarrow> andthen (ledger_value (dict_get result ''latestLedger'')) (\<lambda>l.
           Inr (save_indexer_cursor INDEXER_ID c l st)))"

text \<open>One cycle for a configured contract: what it returns or raises, and the store it leaves.\<close>

definition poll_indexer_once ::
  "(bytes \<Rightarrow> string) \<Rightarrow> (pyval \<Rightarrow> string) \<Rightarrow> rpc \<Rightarrow> rat \<Rightarrow> string \<Rightarrow> int \<Rightarrow> Store \<Rightarrow> (IndexerError + Batch) \<times> Store" where
  "poll_indexer_once utf8 other call now contract_id limit st =
     (let stored = get_indexer_cursor INDEXER_ID st;
          cursor = (if stored = Some [] then None else stored);
          start_ledger = (if cursor = None then fetch_latest_ledger call else None)
      in case andthen (fetch_contract_events call contract_id start_ledger cursor limit) (\<lambda>result.
              andthen (page_events result) (\<lambda>events. Inr (result, events))) of
           Inl e \<Rightarrow> (Inl e, st)
         | Inr (result, events) \<Rightarrow>
             (case process_events_batch utf8 other now events (PStr contract_id) st of
                (Some e, b) \<Rightarrow> (Inl e, b_store b)
              | (None, b) \<Rightarrow>
                  (case advance_cursor other cursor result events (b_store b) of
                     Inl e \<Rightarrow> (Inl e, b_store b)
                   | Inr st' \<Rightarrow> (Inr b, st'))))"

text \<open>The loop's waiting time and next backoff after a poll that succeeded or raised.\<close>

definition backoff_step :: "rat \<Rightarrow> rat \<Rightarrow> rat \<Rightarrow> bool \<Rightarrow> rat \<Rightarrow> rat \<times> rat" where
  "backoff_step poll_interval initial_backoff max_backoff ok backoff =
     (if ok then (poll_interval, initial_backoff) else (backoff, min max_backoff (backoff * 2)))"

section \<open>Absorbing events exactly once\<close>

text \<open>The keys in the store, in the order they came; both stores append.\<close>

definition row_key :: "ProofEvent \<Rightarrow> (string \<times> int) option" where
  "row_key r = (case (pe_tx_hash r, pe_event_index r) of (Some tx, Some i) \<Rightarrow> Some (tx, i) | _ \<Rightarrow> None)"

definition indexed :: "Store \<Rightarrow> (string \<times> int) list" where
  "indexed st =
     (if st_configured st then List.map_filter row_key (st_rows st) else map fst (st_indexed_events st))"

definition add_key :: "'k \<Rightarrow> 'k list \<Rightarrow> 'k list" where
  "add_key k ks = (if k \<in> set ks then ks else ks @ [k])"

lemma set_fold_add_key [simp]: "set (fold add_key ks xs) = set xs \<union> set ks"
  by (induction ks arbitrary: xs) (auto simp: add_key_def)

lemma fold_add_key_known: "set ks \<subseteq> set xs \<Longrightarrow> fold add_key ks xs = xs"
  by (induction ks) (simp_all add: add_key_def)

lemma distinct_fold_add_key: "distinct xs \<Longrightarrow> distinct (fold add_key ks xs)"
  by (induction ks arbitrary: xs) (simp_all add: add_key_def)

lemma row_key_Some: "row_key r = Some (tx, i) \<longleftrightarrow> pe_tx_hash r = Some tx \<and> pe_event_index r = Some i"
  by (simp add: row_key_def split: option.splits)

lemma set_map_filter_key: "k \<in> set (List.map_filter row_key rows) \<longleftrightarrow> (\<exists>r \<in> set rows. row_key r = Some k)"
  by (force simp: List.map_filter_def)

lemma indexed_distinct_rows: "store_inv st \<Longrightarrow> distinct (List.map_filter row_key (st_rows st))"
proof -
  have "distinct (List.map_filter row_key rows)" if "sorted_wrt row_order rows" for rows
    using that
  proof (induction rows)
    case (Cons r rows)
    have "k \<notin> set (List.map_filter row_key rows)" if "row_key r = Some k" for k
      using that Cons.prems by (cases k) (auto simp: set_map_filter_key row_key_Some row_order_def)
    with Cons show ?case by (auto simp: List.map_filter_simps split: option.splits)
  qed (simp add: List.map_filter_simps)
  then show "store_inv st \<Longrightarrow> distinct (List.map_filter row_key (st_rows st))" by (simp add: store_inv_def)
qed

definition carries :: "rat \<Rightarrow> DecodedLifecycleEvent \<Rightarrow> ProofEvent \<Rightarrow> bool" where
  "carries now d r \<longleftrightarrow> pe_event_type r = le_event_type d \<and> pe_proof_id r = le_proof_id d \<and>
     pe_tx_hash r = Some (le_tx_hash d) \<and> pe_event_index r = Some (le_event_index d) \<and>
     pe_tx_status r = Some (le_tx_status d) \<and> opt_text (pe_contract_id r) = le_contract_id d \<and>
     pe_metadata r = Some (PDict (le_metadata d)) \<and> pe_created_at r = now"

text \<open>The contract of the insert, for the database and the in-memory table alike.\<close>

lemma insert_indexed_database:
  assumes inv: "store_inv st" and conf: "st_configured st" and ev: "event_row d = Inr ev"
  shows "\<exists>row st'. insert_indexed_proof_event now (le_tx_hash d) (le_event_index d) None ev st =
      (Inr (row, (le_tx_hash d, le_event_index d) \<notin> set (indexed st)), st') \<and>
    (if (le_tx_hash d, le_event_index d) \<in> set (indexed st) then st_rows st' = st_rows st
     else st_rows st' = st_rows st @ [row] \<and> carries now d row \<and> 0 < pe_id row) \<and>
    st_configured st' \<and> st_indexer_state st' = st_indexer_state st"
proof (cases "find (\<lambda>r. pe_tx_hash r = Some (le_tx_hash d) \<and> pe_event_index r = Some (le_event_index d)) (st_rows st)")
  case None
  then have new: "(le_tx_hash d, le_event_index d) \<notin> set (indexed st)"
    using conf by (auto simp: find_None_iff indexed_def set_map_filter_key row_key_Some)
  have "pe_idempotency_key r \<noteq> Some (indexer_key (le_tx_hash d) (le_event_index d))" if r: "r \<in> set (st_rows st)" for r
  proof -
    have "key_matches r" using inv r by (simp add: store_inv_def)
    moreover have "\<not> (pe_tx_hash r = Some (le_tx_hash d) \<and> pe_event_index r = Some (le_event_index d))"
      using None r by (simp add: find_None_iff)
    ultimately show ?thesis unfolding key_matches_def by blast
  qed
  then have "Some (indexer_key (le_tx_hash d) (le_event_index d)) \<notin> pe_idempotency_key ` set (st_rows st)"
    by (metis imageE)
  moreover have "0 < st_next_id st" using inv by (simp add: store_inv_def)
  ultimately show ?thesis
    using None new conf ev
    by (auto simp: insert_indexed_proof_event_def append_row_def Let_def carries_def event_row_def opt_text_def andthen_eq_Inr
      split: pyval.splits)
next
  case (Some r)
  then have "(le_tx_hash d, le_event_index d) \<in> set (indexed st)"
    using conf by (auto simp: find_Some_iff indexed_def set_map_filter_key row_key_Some)
  then show ?thesis using Some conf by (simp add: insert_indexed_proof_event_def burn_id_def)
qed

lemma insert_indexed_memory:
  assumes conf: "\<not> st_configured st"
  shows "\<exists>row st'. insert_indexed_proof_event now tx i None ev st = (Inr (row, (tx, i) \<notin> set (indexed st)), st') \<and>
    indexed st' = add_key (tx, i) (indexed st) \<and> \<not> st_configured st' \<and> st_memory_state st' = st_memory_state st"
proof -
  have "map fst (AList.update k v al) = map fst al @ [k]" if "k \<notin> fst ` set al" for k v and al :: "((string \<times> int) \<times> ProofEvent) list"
    using that by (induction al) auto
  moreover have mem: "\<not> st_configured s \<Longrightarrow> indexed s = map fst (st_indexed_events s)" for s
    by (simp add: indexed_def)
  moreover have "((tx, i) \<in> fst ` set (st_indexed_events st)) = (map_of (st_indexed_events st) (tx, i) \<noteq> None)"
    by (simp add: map_of_eq_None_iff)
  ultimately show ?thesis using conf
    by (cases "map_of (st_indexed_events st) (tx, i)") (simp_all add: insert_indexed_proof_event_def add_key_def Let_def)
qed

lemma insert_indexed_absorbs:
  assumes inv: "store_inv st" and ev: "event_row d = Inr ev"
  shows "\<exists>row st'. insert_indexed_proof_event now (le_tx_hash d) (le_event_index d) None ev st =
      (Inr (row, (le_tx_hash d, le_event_index d) \<notin> set (indexed st)), st') \<and>
    indexed st' = add_key (le_tx_hash d, le_event_index d) (indexed st) \<and> store_inv st' \<and>
    st_configured st' = st_configured st \<and> get_indexer_cursor x st' = get_indexer_cursor x st \<and>
    (st_configured st \<longrightarrow>
      (if (le_tx_hash d, le_event_index d) \<in> set (indexed st) then st_rows st' = st_rows st
       else st_rows st' = st_rows st @ [row] \<and> carries now d row \<and> 0 < pe_id row))"
proof -
  let ?k = "(le_tx_hash d, le_event_index d)"
  obtain res st' where r: "insert_indexed_proof_event now (le_tx_hash d) (le_event_index d) None ev st = (res, st')"
    by (cases "insert_indexed_proof_event now (le_tx_hash d) (le_event_index d) None ev st")
  have inv': "store_inv st'"
    using store_inv_step [OF inv, of id "IndexEvent now (le_tx_hash d) (le_event_index d) None ev"] r by simp
  show ?thesis
  proof (cases "st_configured st")
    case True
    from insert_indexed_database [OF inv True ev, of now] r obtain row where
      row: "res = Inr (row, ?k \<notin> set (indexed st))"
        "if ?k \<in> set (indexed st) then st_rows st' = st_rows st
         else st_rows st' = st_rows st @ [row] \<and> carries now d row \<and> 0 < pe_id row"
        "st_configured st'" "st_indexer_state st' = st_indexer_state st"
      by auto
    have "indexed st' = add_key ?k (indexed st)"
    proof (cases "?k \<in> set (indexed st)")
      case True
      then show ?thesis using row \<open>st_configured st\<close> by (simp add: indexed_def add_key_def)
    next
      case False
      then have "row_key row = Some ?k" using row by (simp add: row_key_Some carries_def)
      with False row \<open>st_configured st\<close> show ?thesis
        by (simp add: indexed_def add_key_def List.map_filter_def)
    qed
    then show ?thesis using r row inv' True by (simp add: get_indexer_cursor_def)
  next
    case False
    from insert_indexed_memory [OF this, of now "le_tx_hash d" "le_event_index d" ev] r inv' False
    show ?thesis by (auto simp: get_indexer_cursor_def)
  qed
qed

definition event_key ::
  "(bytes \<Rightarrow> string) \<Rightarrow> (pyval \<Rightarrow> string) \<Rightarrow> pyval \<Rightarrow> pyval \<Rightarrow> (string \<times> int) option" where
  "event_key utf8 other cid e =
     map_option (\<lambda>d. (le_tx_hash d, le_event_index d)) (classify_and_decode_event utf8 other e cid)"

definition page_keys ::
  "(bytes \<Rightarrow> string) \<Rightarrow> (pyval \<Rightarrow> string) \<Rightarrow> pyval \<Rightarrow> pyval list \<Rightarrow> (string \<times> int) list" where
  "page_keys utf8 other cid events = List.map_filter (event_key utf8 other cid) events"

definition documented ::
  "(bytes \<Rightarrow> string) \<Rightarrow> (pyval \<Rightarrow> string) \<Rightarrow> pyval \<Rightarrow> pyval \<Rightarrow> bool" where
  "documented utf8 other cid e \<longleftrightarrow>
     (\<forall>d. classify_and_decode_event utf8 other e cid = Some d \<longrightarrow> (\<exists>ev. event_row d = Inr ev))"

lemma page_keys_Cons:
  "page_keys utf8 other cid (e # es) =
     (case event_key utf8 other cid e of None \<Rightarrow> [] | Some k \<Rightarrow> [k]) @ page_keys utf8 other cid es"
  by (simp add: page_keys_def List.map_filter_simps split: option.split)

lemma page_keys_append [simp]:
  "page_keys utf8 other cid (es @ fs) = page_keys utf8 other cid es @ page_keys utf8 other cid fs"
  by (simp add: page_keys_def List.map_filter_def)

lemma page_keys_Nil [simp]: "page_keys utf8 other cid [] = []"
  by (simp add: page_keys_def List.map_filter_simps)

text \<open>What absorbing the events \<open>es\<close> does to a batch.\<close>

definition absorbed ::
  "(bytes \<Rightarrow> string) \<Rightarrow> (pyval \<Rightarrow> string) \<Rightarrow> rat \<Rightarrow> pyval \<Rightarrow> pyval list \<Rightarrow> Batch \<Rightarrow> Batch \<Rightarrow> bool" where
  "absorbed utf8 other now cid es b b' \<longleftrightarrow>
     indexed (b_store b') = fold add_key (page_keys utf8 other cid es) (indexed (b_store b)) \<and>
     b_indexed b' + length (indexed (b_store b)) = b_indexed b + length (indexed (b_store b')) \<and>
     b_indexed b' + b_duplicates b' = b_indexed b + b_duplicates b + length (page_keys utf8 other cid es) \<and>
     store_inv (b_store b') \<and> st_configured (b_store b') = st_configured (b_store b) \<and>
     (\<forall>x. get_indexer_cursor x (b_store b') = get_indexer_cursor x (b_store b)) \<and>
     (st_configured (b_store b) \<longrightarrow> (\<exists>new. st_rows (b_store b') = st_rows (b_store b) @ new \<and>
        b_queued b' = b_queued b @ map pe_id new \<and>
        (\<forall>r \<in> set new. \<exists>e \<in> set es. \<exists>d. classify_and_decode_event utf8 other e cid = Some d \<and> carries now d r)))"

lemma absorbed_Nil: "store_inv (b_store b) \<Longrightarrow> absorbed utf8 other now cid [] b b"
  by (simp add: absorbed_def)

lemma absorbed_append:
  assumes 1: "absorbed utf8 other now cid es b b'" and 2: "absorbed utf8 other now cid fs b' b''"
  shows "absorbed utf8 other now cid (es @ fs) b b''"
proof -
  have "\<exists>new. st_rows (b_store b'') = st_rows (b_store b) @ new \<and> b_queued b'' = b_queued b @ map pe_id new \<and>
        (\<forall>r \<in> set new. \<exists>e \<in> set (es @ fs). \<exists>d. classify_and_decode_event utf8 other e cid = Some d \<and> carries now d r)"
    if conf: "st_configured (b_store b)"
  proof -
    obtain n1 where n1: "st_rows (b_store b') = st_rows (b_store b) @ n1" "b_queued b' = b_queued b @ map pe_id n1"
      "\<forall>r \<in> set n1. \<exists>e \<in> set es. \<exists>d. classify_and_decode_event utf8 other e cid = Some d \<and> carries now d r"
      using 1 conf unfolding absorbed_def by blast
    have "st_configured (b_store b')" using 1 conf unfolding absorbed_def by blast
    then obtain n2 where n2: "st_rows (b_store b'') = st_rows (b_store b') @ n2" "b_queued b'' = b_queued b' @ map pe_id n2"
      "\<forall>r \<in> set n2. \<exists>e \<in> set fs. \<exists>d. classify_and_decode_event utf8 other e cid = Some d \<and> carries now d r"
      using 2 unfolding absorbed_def by blast
    show ?thesis using n1 n2 by (intro exI [of _ "n1 @ n2"]) (simp, blast)
  qed
  moreover have "b_indexed b'' + length (indexed (b_store b)) = b_indexed b + length (indexed (b_store b''))"
    using 1 2 unfolding absorbed_def by linarith
  ultimately show ?thesis using 1 2 unfolding absorbed_def by simp
qed

lemma process_event_absorbs:
  assumes inv: "store_inv (b_store b)"
    and run: "process_event utf8 other now cid e b = (err, b')"
  shows "if err = None
         then absorbed utf8 other now cid [e] b b' \<and> b_scanned b' = b_scanned b + 1 \<and>
           b_skipped b' + length (page_keys utf8 other cid [e]) = b_skipped b + 1
         else \<not> documented utf8 other cid e \<and> absorbed utf8 other now cid [] b b'"
proof (cases "classify_and_decode_event utf8 other e cid")
  case None
  then show ?thesis using run inv
    by (auto simp: process_event_def absorbed_def page_keys_Cons event_key_def Let_def)
next
  case (Some d)
  let ?k = "(le_tx_hash d, le_event_index d)"
  have keys: "page_keys utf8 other cid [e] = [?k]" using Some by (simp add: page_keys_Cons event_key_def)
  show ?thesis
  proof (cases "event_row d")
    case (Inl x)
    then show ?thesis using run Some inv
      by (auto simp: process_event_def absorbed_def documented_def Let_def)
  next
    case (Inr ev)
    have all: "\<exists>row st'. insert_indexed_proof_event now (le_tx_hash d) (le_event_index d) None ev (b_store b) =
      (Inr (row, ?k \<notin> set (indexed (b_store b))), st') \<and> indexed st' = add_key ?k (indexed (b_store b)) \<and> store_inv st' \<and>
      st_configured st' = st_configured (b_store b) \<and> get_indexer_cursor x st' = get_indexer_cursor x (b_store b) \<and>
      (st_configured (b_store b) \<longrightarrow> (if ?k \<in> set (indexed (b_store b)) then st_rows st' = st_rows (b_store b)
       else st_rows st' = st_rows (b_store b) @ [row] \<and> carries now d row \<and> 0 < pe_id row))" for x
      by (rule insert_indexed_absorbs [OF inv Inr])
    then obtain row st' where ins: "insert_indexed_proof_event now (le_tx_hash d) (le_event_index d) None ev (b_store b) =
        (Inr (row, ?k \<notin> set (indexed (b_store b))), st')"
      and st': "indexed st' = add_key ?k (indexed (b_store b))" "store_inv st'" "st_configured st' = st_configured (b_store b)"
      and rows: "st_configured (b_store b) \<longrightarrow> (if ?k \<in> set (indexed (b_store b)) then st_rows st' = st_rows (b_store b)
        else st_rows st' = st_rows (b_store b) @ [row] \<and> carries now d row \<and> 0 < pe_id row)" by blast
    have cur: "get_indexer_cursor x st' = get_indexer_cursor x (b_store b)" for x using all [of x] ins by auto
    show ?thesis
      using run Some Inr ins st' rows cur keys inv
      by (auto simp: process_event_def absorbed_def Let_def add_key_def split: if_splits)
  qed
qed

lemma process_events_absorbs:
  assumes "store_inv (b_store b)" "process_events utf8 other now cid events b = (err, b')"
  shows "\<exists>es fs. events = es @ fs \<and> absorbed utf8 other now cid es b b' \<and>
    (if err = None
     then fs = [] \<and> b_scanned b' = b_scanned b + length events \<and>
       b_skipped b' + length (page_keys utf8 other cid events) = b_skipped b + length events
     else \<exists>e \<in> set fs. \<not> documented utf8 other cid e)"
  using assms
proof (induction events arbitrary: b)
  case Nil
  then show ?case using absorbed_Nil by auto
next
  case (Cons e events)
  obtain err1 b1 where step: "process_event utf8 other now cid e b = (err1, b1)" by fastforce
  note one = process_event_absorbs [OF Cons.prems(1) step]
  show ?case
  proof (cases err1)
    case (Some x)
    then have "err = Some x" "b' = b1" using Cons.prems(2) step by simp_all
    then show ?thesis using one Some by (intro exI [of _ "[]"] exI [of _ "e # events"]) simp
  next
    case None
    then have abs1: "absorbed utf8 other now cid [e] b b1"
      and cnt: "b_scanned b1 = b_scanned b + 1" "b_skipped b1 + length (page_keys utf8 other cid [e]) = b_skipped b + 1"
      using one by simp_all
    have "store_inv (b_store b1)" using abs1 by (simp add: absorbed_def)
    moreover have "process_events utf8 other now cid events b1 = (err, b')" using Cons.prems(2) step None by simp
    ultimately obtain es fs where es: "events = es @ fs" "absorbed utf8 other now cid es b1 b'"
      "if err = None
       then fs = [] \<and> b_scanned b' = b_scanned b1 + length events \<and>
         b_skipped b' + length (page_keys utf8 other cid events) = b_skipped b1 + length events
       else \<exists>e \<in> set fs. \<not> documented utf8 other cid e" using Cons.IH by blast
    have "absorbed utf8 other now cid (e # es) b b'" using absorbed_append [OF abs1 es(2)] by simp
    moreover have "page_keys utf8 other cid (e # events) = page_keys utf8 other cid [e] @ page_keys utf8 other cid events"
      using page_keys_append [of utf8 other cid "[e]" events] by simp
    ultimately show ?thesis using es cnt by (intro exI [of _ "e # es"] exI [of _ fs]) (auto split: if_splits)
  qed
qed

subsection \<open>Properties: ingestion\<close>

lemma process_events_batch_absorbs:
  assumes "store_inv st" "process_events_batch utf8 other now events cid st = (err, b)"
  shows "\<exists>es fs. events = es @ fs \<and> absorbed utf8 other now cid es (start_batch st) b \<and>
    (if err = None
     then fs = [] \<and> b_scanned b = length events \<and> b_skipped b + length (page_keys utf8 other cid events) = length events
     else \<exists>e \<in> set fs. \<not> documented utf8 other cid e)"
proof -
  have start: "b_store (start_batch st) = st" "b_scanned (start_batch st) = 0" "b_skipped (start_batch st) = 0"
    by (simp_all add: start_batch_def)
  show ?thesis
    using process_events_absorbs [of "start_batch st" utf8 other now cid events err b] assms
    unfolding process_events_batch_def start add_0 by blast
qed

lemma process_events_batch_ok:
  assumes inv: "store_inv st" and doc: "\<forall>e \<in> set events. documented utf8 other cid e"
  shows "\<exists>b. process_events_batch utf8 other now events cid st = (None, b) \<and>
    absorbed utf8 other now cid events (start_batch st) b \<and> b_scanned b = length events \<and>
    b_skipped b + length (page_keys utf8 other cid events) = length events"
proof -
  obtain err b where run: "process_events_batch utf8 other now events cid st = (err, b)" by fastforce
  from process_events_batch_absorbs [OF inv run] obtain es fs where es: "events = es @ fs"
    "absorbed utf8 other now cid es (start_batch st) b"
    "if err = None
     then fs = [] \<and> b_scanned b = length events \<and> b_skipped b + length (page_keys utf8 other cid events) = length events
     else \<exists>e \<in> set fs. \<not> documented utf8 other cid e" by blast
  then have "err = None" using doc by (auto split: if_splits)
  then show ?thesis using es run by simp
qed

text \<open>
  C31: Ingesting a page of documented events into a reachable store never fails. The keys of the
  store grow by the keys of the page's lifecycle events in their order, each once and only when it
  was not there; the summary's counts add up; every new row carries the fields of an event of the
  page and its id is queued for webhook delivery. Ingesting the page again, at any time, indexes and
  queues nothing and leaves the rows as they are.
\<close>

theorem indexer_absorbs_page_once:
  assumes reach: "store_reachable H st" and conf: "st_configured st"
    and doc: "\<forall>e \<in> set events. documented utf8 other cid e"
  shows "\<exists>b new. process_events_batch utf8 other now events cid st = (None, b) \<and>
    indexed (b_store b) = fold add_key (page_keys utf8 other cid events) (indexed st) \<and> distinct (indexed (b_store b)) \<and>
    b_scanned b = length events \<and> b_scanned b = b_indexed b + b_skipped b + b_duplicates b \<and>
    b_indexed b + length (indexed st) = length (indexed (b_store b)) \<and>
    st_rows (b_store b) = st_rows st @ new \<and> b_queued b = map pe_id new \<and>
    (\<forall>r \<in> set new. \<exists>e \<in> set events. \<exists>d. classify_and_decode_event utf8 other e cid = Some d \<and> carries now d r) \<and>
    (\<exists>b2. process_events_batch utf8 other now2 events cid (b_store b) = (None, b2) \<and>
      b_indexed b2 = 0 \<and> b_queued b2 = [] \<and> st_rows (b_store b2) = st_rows (b_store b))"
proof -
  have inv: "store_inv st" by (rule store.inv_reachable [OF reach])
  obtain b where b: "process_events_batch utf8 other now events cid st = (None, b)"
    "absorbed utf8 other now cid events (start_batch st) b" "b_scanned b = length events"
    "b_skipped b + length (page_keys utf8 other cid events) = length events"
    using process_events_batch_ok [OF inv doc] by blast
  then have facts: "indexed (b_store b) = fold add_key (page_keys utf8 other cid events) (indexed st)"
    "b_indexed b + length (indexed st) = length (indexed (b_store b))"
    "b_indexed b + b_duplicates b = length (page_keys utf8 other cid events)"
    "store_inv (b_store b)" "st_configured (b_store b)"
    and new: "\<exists>new. st_rows (b_store b) = st_rows st @ new \<and> b_queued b = map pe_id new \<and>
      (\<forall>r \<in> set new. \<exists>e \<in> set events. \<exists>d. classify_and_decode_event utf8 other e cid = Some d \<and> carries now d r)"
    using conf by (simp_all add: absorbed_def start_batch_def)
  obtain b2 where b2: "process_events_batch utf8 other now2 events cid (b_store b) = (None, b2)"
    "absorbed utf8 other now2 cid events (start_batch (b_store b)) b2"
    using process_events_batch_ok [OF facts(4) doc] by blast
  have known: "fold add_key (page_keys utf8 other cid events) (indexed (b_store b)) = indexed (b_store b)"
    by (rule fold_add_key_known) (simp add: facts(1))
  with b2(2) have same: "indexed (b_store b2) = indexed (b_store b)" "b_indexed b2 = 0" "st_configured (b_store b2)"
    using facts(5) by (auto simp: absorbed_def start_batch_def)
  obtain n2 where n2: "st_rows (b_store b2) = st_rows (b_store b) @ n2" "b_queued b2 = map pe_id n2"
    "\<forall>r \<in> set n2. \<exists>e \<in> set events. \<exists>d. classify_and_decode_event utf8 other e cid = Some d \<and> carries now2 d r"
    using b2(2) facts(5) by (auto simp: absorbed_def start_batch_def)
  have "List.map_filter row_key n2 = []"
    using same(1,3) n2(1) facts(5) by (simp add: indexed_def List.map_filter_def)
  moreover have "row_key r \<noteq> None" if "r \<in> set n2" for r
    using n2(3) that by (force simp: carries_def row_key_def)
  ultimately have "n2 = []" by (cases n2) (fastforce simp: List.map_filter_simps split: option.splits)+
  then show ?thesis
    using b b2(1) facts new n2 same(2) indexed_distinct_rows [OF facts(4)]
    by (auto simp: indexed_def)
qed

definition sample_event :: pyval where
  "sample_event = PDict [(''txHash'', PStr ''0xAA''), (''id'', PStr ''5-1''), (''contractId'', PStr ''C''),
     (''topic'', PList [PStr ''proof'', PStr ''revoke'', PStr ''0xBB'']), (''ledger'', PInt 5)]"

lemma sample_event_decoded:
  "classify_and_decode_event utf8 other sample_event PNone =
     Some \<lparr>le_event_type = ''revoke'', le_proof_id = Some ''bb'', le_tx_hash = ''aa'', le_event_index = 1,
           le_contract_id = PStr ''C'', le_tx_status = ''revoked'',
           le_metadata = [(''status'', PStr ''revoked''), (''raw_value'', PNone)], le_ledger = PInt 5\<rparr>"
  by code_simp

lemma sample_event_documented: "documented utf8 other PNone sample_event"
  by (simp add: documented_def sample_event_decoded event_row_def)

lemma sample_event_keys: "page_keys utf8 other PNone [sample_event, PNone, sample_event] = [(''aa'', 1), (''aa'', 1)]"
  by (simp add: page_keys_Cons event_key_def sample_event_decoded classify_and_decode_event_def [of _ _ PNone])

theorem indexer_absorbs_page_once_witness:
  "\<exists>b. process_events_batch decode_ascii (\<lambda>_. []) 9 [sample_event, PNone, sample_event] PNone sample_store = (None, b) \<and>
     b_scanned b = 3 \<and> b_indexed b = 1 \<and> indexed (b_store b) = [(''aa'', 1)]"
proof -
  have "documented decode_ascii (\<lambda>_. []) PNone PNone" by (simp add: documented_def classify_and_decode_event_def)
  then have "\<forall>e \<in> set [sample_event, PNone, sample_event]. documented decode_ascii (\<lambda>_. []) PNone e"
    using sample_event_documented by simp
  from indexer_absorbs_page_once [OF sample_store_reachable sample_store_rows(2) this, of 9 10]
  obtain b where b: "process_events_batch decode_ascii (\<lambda>_. []) 9 [sample_event, PNone, sample_event] PNone sample_store = (None, b)"
    "indexed (b_store b) = fold add_key [(''aa'', 1), (''aa'', 1)] (indexed sample_store)" "b_scanned b = 3"
    "b_indexed b + length (indexed sample_store) = length (indexed (b_store b))"
    unfolding sample_event_keys by auto
  moreover have "indexed sample_store = []"
    by (simp add: indexed_def sample_store_rows List.map_filter_def row_key_def blank_event_def)
  ultimately show ?thesis by (simp add: add_key_def)
qed

subsection \<open>Properties: polling\<close>

lemma indexed_save_cursor [simp]: "indexed (save_indexer_cursor x c l st) = indexed st"
  by (simp add: indexed_def save_indexer_cursor_def)

lemma store_inv_save_cursor [simp]: "store_inv (save_indexer_cursor x c l st) = store_inv st"
  by (simp add: store_inv_def save_indexer_cursor_def)

lemma get_save_cursor [simp]: "get_indexer_cursor x (save_indexer_cursor x c l st) = Some c"
  by (simp add: get_indexer_cursor_def save_indexer_cursor_def)

lemma advance_cursor_keeps:
  "advance_cursor other cursor result events st = Inr st' \<Longrightarrow> indexed st' = indexed st \<and> store_inv st' = store_inv st"
  by (auto simp: advance_cursor_def andthen_eq_Inr split: option.splits)

text \<open>
  C32: Whatever the RPC service answers, a poll leaves the store with the keys it had followed by
  those of a beginning of the page. When the poll raises, the cursor is where it was, so the next
  poll asks for the same page; when the cursor has moved, every lifecycle event of the page is in
  the store.
\<close>

theorem cursor_moves_past_stored_events:
  assumes reach: "store_reachable H st"
    and poll: "poll_indexer_once utf8 other call now contract_id limit st = (res, st')"
  shows "(\<exists>seen. indexed st' = fold add_key (page_keys utf8 other (PStr contract_id) seen) (indexed st)) \<and>
    (isl res \<longrightarrow> get_indexer_cursor INDEXER_ID st' = get_indexer_cursor INDEXER_ID st) \<and>
    (get_indexer_cursor INDEXER_ID st' \<noteq> get_indexer_cursor INDEXER_ID st \<longrightarrow>
      (\<exists>start result events. fetch_contract_events call contract_id start
           (if get_indexer_cursor INDEXER_ID st = Some [] then None else get_indexer_cursor INDEXER_ID st) limit = Inr result \<and>
         page_events result = Inr events \<and> set (page_keys utf8 other (PStr contract_id) events) \<subseteq> set (indexed st')))"
proof -
  have inv: "store_inv st" by (rule store.inv_reachable [OF reach])
  define cursor where "cursor = (if get_indexer_cursor INDEXER_ID st = Some [] then None else get_indexer_cursor INDEXER_ID st)"
  define start where "start = (if cursor = None then fetch_latest_ledger call else None)"
  note poll' = poll [unfolded poll_indexer_once_def Let_def, folded cursor_def, folded start_def]
  show ?thesis
  proof (cases "andthen (fetch_contract_events call contract_id start cursor limit) (\<lambda>result.
              andthen (page_events result) (\<lambda>events. Inr (result, events)))")
    case (Inl e)
    then have "st' = st" using poll' by simp
    then show ?thesis by (auto intro: exI [of _ "[]"])
  next
    case (Inr p)
    then obtain result events where page: "p = (result, events)"
      "fetch_contract_events call contract_id start cursor limit = Inr result" "page_events result = Inr events"
      by (auto simp: andthen_eq_Inr)
    obtain err b where run: "process_events_batch utf8 other now events (PStr contract_id) st = (err, b)" by fastforce
    from process_events_batch_absorbs [OF inv run] obtain es fs where
      es: "absorbed utf8 other now (PStr contract_id) es (start_batch st) b" "err = None \<longrightarrow> es = events"
      by (auto split: if_splits)
    then have b: "indexed (b_store b) = fold add_key (page_keys utf8 other (PStr contract_id) es) (indexed st)"
      "get_indexer_cursor INDEXER_ID (b_store b) = get_indexer_cursor INDEXER_ID st"
      by (auto simp: absorbed_def start_batch_def)
    consider (fails) "isl res" "st' = b_store b" | (ok) "err = None" "\<not> isl res" "indexed st' = indexed (b_store b)"
      using poll' Inr page(1) run
      by (auto split: option.splits sum.splits dest: advance_cursor_keeps)
    then show ?thesis
    proof cases
      case fails
      then show ?thesis using b by auto
    next
      case ok
      then have "indexed st' = fold add_key (page_keys utf8 other (PStr contract_id) events) (indexed st)" using b es by simp
      moreover have "set (page_keys utf8 other (PStr contract_id) events) \<subseteq> set (indexed st')"
        using calculation by simp
      ultimately show ?thesis using ok(2) page unfolding cursor_def by blast
    qed
  qed
qed

text \<open>
  The RPC service over a log of events: at the position \<open>tok n\<close> it answers the next page and the
  position behind it. A service that is down fails every call.
\<close>

definition serves :: "string \<Rightarrow> int \<Rightarrow> (nat \<Rightarrow> string) \<Rightarrow> pyval list \<Rightarrow> rpc \<Rightarrow> bool" where
  "serves contract_id limit tok elog call \<longleftrightarrow>
     (\<forall>n \<le> length elog. \<exists>ledger.
        call (rpc_payload ''getEvents'' (events_params contract_id None (Some (tok n)) limit)) =
          Some (PDict [(''result'', PDict
            [(''events'', PList (take (nat (page_limit limit)) (drop n elog))),
             (''cursor'', PStr (tok (min (length elog) (n + nat (page_limit limit))))), (''latestLedger'', PInt ledger)])]))"

definition down :: "rpc \<Rightarrow> bool" where
  "down call \<longleftrightarrow> (\<forall>payload. call payload = None)"

lemma poll_down: "down call \<Longrightarrow> poll_indexer_once utf8 other call now contract_id limit st = (Inl RpcFailure, st)"
  by (simp add: poll_indexer_once_def down_def fetch_contract_events_def Let_def)

definition cursor_store :: Store where
  "cursor_store = store_step id (SaveCursor INDEXER_ID ''c'' None) sample_store"

lemma cursor_store_facts:
  "store_reachable id cursor_store" "get_indexer_cursor INDEXER_ID cursor_store = Some ''c''" "indexed cursor_store = []"
proof -
  have "cursor_store = fold (store_step id) [InsertEvent 1 blank_event, InsertEvent 2 blank_event, SaveCursor INDEXER_ID ''c'' None]
    (empty_store True)" by (simp add: cursor_store_def sample_store_def)
  then show "store_reachable id cursor_store" by (metis store_reachableI)
  show "get_indexer_cursor INDEXER_ID cursor_store = Some ''c''" by (simp add: cursor_store_def)
  show "indexed cursor_store = []"
    by (simp add: cursor_store_def) (simp add: indexed_def sample_store_rows List.map_filter_def row_key_def blank_event_def)
qed

theorem cursor_moves_past_stored_events_witness:
  "snd (poll_indexer_once decode_ascii (\<lambda>_. []) (\<lambda>_. None) 9 ''C'' 5 cursor_store) = cursor_store \<and>
   (\<exists>seen. indexed cursor_store = fold add_key (page_keys decode_ascii (\<lambda>_. []) (PStr ''C'') seen) (indexed cursor_store))"
proof -
  have poll: "poll_indexer_once decode_ascii (\<lambda>_. []) (\<lambda>_. None) 9 ''C'' 5 cursor_store = (Inl RpcFailure, cursor_store)"
    by (rule poll_down) (simp add: down_def)
  from cursor_moves_past_stored_events [OF cursor_store_facts(1) this] poll show ?thesis by simp
qed

lemma poll_serves:
  fixes now :: rat
  assumes serves: "serves contract_id limit tok elog call" and n: "n \<le> length elog" and tok: "\<And>k. tok k \<noteq> []"
    and inv: "store_inv st" and cur: "get_indexer_cursor INDEXER_ID st = Some (tok n)"
    and doc: "\<forall>e \<in> set elog. documented utf8 other (PStr contract_id) e"
  defines "m \<equiv> nat (page_limit limit)"
  defines "st' \<equiv> snd (poll_indexer_once utf8 other call now contract_id limit st)"
  shows "store_inv st' \<and> get_indexer_cursor INDEXER_ID st' = Some (tok (min (length elog) (n + m))) \<and>
    indexed st' = fold add_key (page_keys utf8 other (PStr contract_id) (take m (drop n elog))) (indexed st)"
proof -
  let ?events = "take m (drop n elog)" and ?next = "tok (min (length elog) (n + m))"
  obtain ledger where "call (rpc_payload ''getEvents'' (events_params contract_id None (Some (tok n)) limit)) =
      Some (PDict [(''result'', PDict
        [(''events'', PList ?events), (''cursor'', PStr ?next), (''latestLedger'', PInt ledger)])])"
    using serves n unfolding serves_def m_def by blast
  then have fetch: "fetch_contract_events call contract_id None (Some (tok n)) limit =
      Inr [(''events'', PList ?events), (''cursor'', PStr ?next), (''latestLedger'', PInt ledger)]"
    by (simp add: fetch_contract_events_def py_or_def dict_get_def)
  have page: "page_events [(''events'', PList ?events), (''cursor'', PStr ?next), (''latestLedger'', PInt ledger)] = Inr ?events"
    by (simp add: page_events_def py_or_def dict_get_def)
  have "\<forall>e \<in> set ?events. documented utf8 other (PStr contract_id) e"
    using doc by (meson in_set_dropD in_set_takeD)
  from process_events_batch_ok [OF inv this] obtain b where
    b: "process_events_batch utf8 other now ?events (PStr contract_id) st = (None, b)"
      "absorbed utf8 other now (PStr contract_id) ?events (start_batch st) b" by blast
  have adv: "advance_cursor other (Some (tok n)) [(''events'', PList ?events), (''cursor'', PStr ?next), (''latestLedger'', PInt ledger)]
      ?events (b_store b) =
    Inr (if ?next = tok n then b_store b else save_indexer_cursor INDEXER_ID ?next (Some ledger) (b_store b))"
    using tok by (simp add: advance_cursor_def next_cursor_def dict_get_def opt_text_def ledger_value_def)
  have "st' = (if ?next = tok n then b_store b else save_indexer_cursor INDEXER_ID ?next (Some ledger) (b_store b))"
    unfolding st'_def poll_indexer_once_def Let_def by (simp add: cur tok fetch page b(1) adv)
  then show ?thesis
    using b(2) cur by (auto simp: absorbed_def start_batch_def)
qed

definition polls ::
  "(bytes \<Rightarrow> string) \<Rightarrow> (pyval \<Rightarrow> string) \<Rightarrow> rat \<Rightarrow> string \<Rightarrow> int \<Rightarrow> rpc list \<Rightarrow> Store \<Rightarrow> Store" where
  "polls utf8 other now contract_id limit calls st =
     fold (\<lambda>call st. snd (poll_indexer_once utf8 other call now contract_id limit st)) calls st"

text \<open>
  C33: The indexer catches up. Take a log of documented events, a store whose cursor is at its start,
  and polls of which some find the service down and enough find it answering (their number times
  the page size reaches the length of the log). Afterwards the cursor is at the end of the log and
  the keys in the store are those from before followed by the log's lifecycle events, in order and
  without repetition.
\<close>

theorem indexer_catches_up:
  assumes reach: "store_reachable H st" and tok: "\<forall>k. tok k \<noteq> []"
    and cur: "get_indexer_cursor INDEXER_ID st = Some (tok 0)"
    and doc: "\<forall>e \<in> set elog. documented utf8 other (PStr contract_id) e"
    and calls: "\<forall>call \<in> set calls. down call \<or> serves contract_id limit tok elog call"
    and enough: "length elog \<le> length (filter (serves contract_id limit tok elog) calls) * nat (page_limit limit)"
  shows "get_indexer_cursor INDEXER_ID (polls utf8 other now contract_id limit calls st) = Some (tok (length elog)) \<and>
    indexed (polls utf8 other now contract_id limit calls st) =
      fold add_key (page_keys utf8 other (PStr contract_id) elog) (indexed st)"
proof -
  let ?m = "nat (page_limit limit)" and ?keys = "\<lambda>es. page_keys utf8 other (PStr contract_id) es"
  have "get_indexer_cursor INDEXER_ID (polls utf8 other now contract_id limit calls s) = Some (tok (length elog)) \<and>
    indexed (polls utf8 other now contract_id limit calls s) = fold add_key (?keys (drop n elog)) (indexed s)"
    if "store_inv s" "n \<le> length elog" "get_indexer_cursor INDEXER_ID s = Some (tok n)"
      "length elog - n \<le> length (filter (serves contract_id limit tok elog) calls) * ?m" for s n
    using that calls
  proof (induction calls arbitrary: s n)
    case Nil
    then show ?case by (simp add: polls_def)
  next
    case (Cons call calls)
    define s' where "s' = snd (poll_indexer_once utf8 other call now contract_id limit s)"
    have rest: "polls utf8 other now contract_id limit (call # calls) s = polls utf8 other now contract_id limit calls s'"
      by (simp add: polls_def s'_def)
    show ?case
    proof (cases "serves contract_id limit tok elog call")
      case True
      define n' where "n' = min (length elog) (n + ?m)"
      have s': "store_inv s'" "get_indexer_cursor INDEXER_ID s' = Some (tok n')"
        "indexed s' = fold add_key (?keys (take ?m (drop n elog))) (indexed s)"
        using poll_serves [OF True Cons.prems(2) _ Cons.prems(1,3) doc, of now] tok by (simp_all add: s'_def n'_def)
      have "length elog - n' \<le> length (filter (serves contract_id limit tok elog) calls) * ?m"
        using Cons.prems(4) True by (simp add: n'_def)
      moreover have "n' \<le> length elog" by (simp add: n'_def)
      ultimately have IH: "get_indexer_cursor INDEXER_ID (polls utf8 other now contract_id limit calls s') = Some (tok (length elog)) \<and>
        indexed (polls utf8 other now contract_id limit calls s') = fold add_key (?keys (drop n' elog)) (indexed s')"
        using Cons.IH [of s' n'] s' Cons.prems(5) by simp
      have "drop n elog = take ?m (drop n elog) @ drop n' elog"
      proof (cases "n + ?m \<le> length elog")
        case True
        then have "drop n' elog = drop ?m (drop n elog)" by (simp add: n'_def add.commute)
        then show ?thesis by (metis append_take_drop_id)
      next
        case False
        then show ?thesis by (simp add: n'_def)
      qed
      then have "?keys (drop n elog) = ?keys (take ?m (drop n elog)) @ ?keys (drop n' elog)"
        by (metis page_keys_append)
      then show ?thesis using IH s'(3) rest by simp
    next
      case False
      then have "s' = s" using Cons.prems(5) poll_down [of call utf8 other now contract_id limit s] by (simp add: s'_def)
      then show ?thesis using Cons.IH [of s n] Cons.prems False rest by simp
    qed
  qed
  from this [of st 0] show ?thesis using store.inv_reachable [OF reach] cur enough by simp
qed

text \<open>A service with a log of one event, positions \<open>c\<close> and \<open>cc\<close>, keeping no other state.\<close>

definition sample_rpc :: rpc where
  "sample_rpc payload =
     Some (PDict [(''result'', PDict
       [(''events'', PList (if payload = rpc_payload ''getEvents'' (events_params ''C'' None (Some ''c'') 5) then [sample_event] else [])),
        (''cursor'', PStr ''cc''), (''latestLedger'', PInt 5)])])"

lemma sample_rpc_serves: "serves ''C'' 5 (\<lambda>n. replicate (Suc n) CHR ''c'') [sample_event] sample_rpc"
proof -
  have "n = 0 \<or> n = 1" if "n \<le> length [sample_event]" for n using that by auto
  then show ?thesis
    by (auto simp: serves_def sample_rpc_def page_limit_def INDEXER_MAX_PAGE_SIZE_def rpc_payload_def events_params_def)
qed

lemma sample_event_any:
  "classify_and_decode_event utf8 other sample_event (PStr ''C'') = classify_and_decode_event utf8 other sample_event PNone"
  unfolding sample_event_decoded by code_simp

theorem indexer_catches_up_witness:
  "indexed (polls decode_ascii (\<lambda>_. []) 9 ''C'' 5 [\<lambda>_. None, sample_rpc] cursor_store) = [(''aa'', 1)] \<and>
   get_indexer_cursor INDEXER_ID (polls decode_ascii (\<lambda>_. []) 9 ''C'' 5 [\<lambda>_. None, sample_rpc] cursor_store) = Some ''cc''"
proof -
  let ?tok = "\<lambda>n. replicate (Suc n) CHR ''c''"
  have doc: "\<forall>e \<in> set [sample_event]. documented decode_ascii (\<lambda>_. []) (PStr ''C'') e"
    by (simp add: documented_def sample_event_any sample_event_decoded event_row_def)
  have calls: "\<forall>call \<in> set [\<lambda>_. None, sample_rpc]. down call \<or> serves ''C'' 5 ?tok [sample_event] call"
    using sample_rpc_serves by (simp add: down_def)
  have enough: "length [sample_event] \<le> length (filter (serves ''C'' 5 ?tok [sample_event]) [\<lambda>_. None, sample_rpc]) * nat (page_limit 5)"
    using sample_rpc_serves by (simp add: page_limit_def INDEXER_MAX_PAGE_SIZE_def)
  have "page_keys decode_ascii (\<lambda>_. []) (PStr ''C'') [sample_event] = [(''aa'', 1)]"
    by (simp add: page_keys_Cons event_key_def sample_event_any sample_event_decoded)
  then show ?thesis
    using indexer_catches_up [OF cursor_store_facts(1) _ _ doc calls enough, of 9] cursor_store_facts(2,3)
    by (simp add: add_key_def)
qed

end
