(* ===== verification/Tx_Reconcile.thy ===== *)
theory Tx_Reconcile
  imports Json Proof_Store
begin

text \<open>
  Settling pending registrations against Horizon, \<^verbatim>\<open>src/backend/tx_verification.py\<close> and
  \<^verbatim>\<open>src/backend/registration_reconcile.py\<close>, with the route \<^verbatim>\<open>POST /api/proofs/reconcile\<close> of
  \<^verbatim>\<open>src/backend/app.py\<close> from the decoded body on. Horizon is a parameter: for a URL, the status code
  and the JSON body (none for an HTTP error), or \<open>None\<close> when the request or the decoding raises.
  It is fixed during a run. Environment variables are arguments. Logging and tracing are left out.

  The main result: a batch changes exactly the rows whose hash Horizon settles, and each of the
  three final statuses means what Horizon has answered.
\<close>

section \<open>Transaction verification\<close>

type_synonym horizon = "string \<Rightarrow> (int \<times> pyval) option"

record TxVerificationResult =
  tv_status :: string
  tv_reason :: string
  tv_ledger :: "int option"
  tv_latest_ledger :: "int option"
  tv_confirmations :: "int option"
  tv_successful :: "bool option"
  tv_source :: "string option"

definition tx_result :: "string \<Rightarrow> string \<Rightarrow> TxVerificationResult" where
  "tx_result status reason = \<lparr>tv_status = status, tv_reason = reason, tv_ledger = None, tv_latest_ledger = None,
     tv_confirmations = None, tv_successful = None, tv_source = None\<rparr>"

definition TX_HASH_CHARS :: string where
  "TX_HASH_CHARS = ''0123456789abcdef''"

definition normalize_tx_hash :: "pyval \<Rightarrow> string + string" where
  "normalize_tx_hash value =
     (case value of
        PStr s \<Rightarrow>
          let lowered = py_lower (py_strip s);
              normalized = (if startswith lowered ''0x'' then drop 2 lowered else lowered)
          in if length normalized \<noteq> 64 \<or> \<not> list_all (\<lambda>c. c \<in> set TX_HASH_CHARS) normalized
             then Inl ''txHash must be a 32-byte hex string'' else Inr normalized
      | _ \<Rightarrow> Inl ''txHash must be a string'')"

definition TERMINAL_STATUSES :: "string list" where
  "TERMINAL_STATUSES = [''confirmed'', ''failed'', ''missing'']"

definition DEFAULT_RPC_URLS :: "string list" where
  "DEFAULT_RPC_URLS = [''https://horizon-testnet.stellar.org'', ''https://horizon.stellar.org'']"

definition horizon_urls :: "string option \<Rightarrow> string list" where
  "horizon_urls env =
     (case env of
        Some (c # cs) \<Rightarrow> filter (\<lambda>u. u \<noteq> []) (map py_strip (split_on CHR '','' (c # cs)))
      | _ \<Rightarrow> DEFAULT_RPC_URLS)"

text \<open>The latest ledger; \<open>None\<close> for a raised error.\<close>

definition latest_ledger :: "horizon \<Rightarrow> string \<Rightarrow> int option option" where
  "latest_ledger fetch rpc_url =
     (case fetch (rpc_url @ ''/fee_stats'') of
        None \<Rightarrow> None
      | Some (status, data) \<Rightarrow>
          if status = 200 \<and> truthy data
          then (case data of
                  PDict d \<Rightarrow>
                    (case py_int_of (case map_of d ''last_ledger'' of None \<Rightarrow> PInt 0 | Some v \<Rightarrow> v) of
                       Inl _ \<Rightarrow> None
                     | Inr n \<Rightarrow> Some (if n = 0 then None else Some n))
                | _ \<Rightarrow> None)
          else Some None)"

definition ledger_of :: "(string \<times> pyval) list \<Rightarrow> int option" where
  "ledger_of d = (case py_int_of (dict_get d ''ledger'') of Inl _ \<Rightarrow> None | Inr n \<Rightarrow> Some n)"

definition depth :: "int option \<Rightarrow> int option \<Rightarrow> int option" where
  "depth ledger latest =
     (case (ledger, latest) of (Some l, Some n) \<Rightarrow> if l \<le> n then Some (n - l + 1) else None | _ \<Rightarrow> None)"

text \<open>What one server contributes: not found, a failure, or the answer that ends the loop.\<close>

datatype Lookup = NotFound | DependencyFailure | Answer TxVerificationResult

definition confirmation_result :: "int \<Rightarrow> string \<Rightarrow> int option \<Rightarrow> int option \<Rightarrow> TxVerificationResult" where
  "confirmation_result min_confirmations rpc_url ledger latest =
     (let base = \<lparr>tv_status = ''pending'', tv_reason = ''confirmations_unavailable'', tv_ledger = ledger,
                  tv_latest_ledger = latest, tv_confirmations = None, tv_successful = Some True, tv_source = Some rpc_url\<rparr>
      in case depth ledger latest of
           None \<Rightarrow> base
         | Some n \<Rightarrow>
             if n < min_confirmations
             then base\<lparr>tv_confirmations := Some n, tv_reason := ''awaiting_confirmations''\<rparr>
             else base\<lparr>tv_confirmations := Some n, tv_status := ''confirmed'', tv_reason := ''confirmed''\<rparr>)"

definition lookup_tx :: "horizon \<Rightarrow> int \<Rightarrow> string \<Rightarrow> string \<Rightarrow> Lookup" where
  "lookup_tx fetch min_confirmations normalized rpc_url =
     (case fetch (rpc_url @ ''/transactions/'' @ normalized) of
        None \<Rightarrow> DependencyFailure
      | Some (status_code, data) \<Rightarrow>
          if status_code = 404 then NotFound
          else if status_code \<noteq> 200 \<or> \<not> truthy data then DependencyFailure
          else (case data of
                  PDict d \<Rightarrow>
                    if \<not> truthy (dict_get d ''successful'')
                    then Answer ((tx_result ''failed'' ''tx_unsuccessful'')
                      \<lparr>tv_ledger := ledger_of d, tv_successful := Some False, tv_source := Some rpc_url\<rparr>)
                    else (case latest_ledger fetch rpc_url of
                            None \<Rightarrow> DependencyFailure
                          | Some latest \<Rightarrow> Answer (confirmation_result min_confirmations rpc_url (ledger_of d) latest))
                | _ \<Rightarrow> DependencyFailure))"

fun failover :: "(string \<Rightarrow> Lookup) \<Rightarrow> string list \<Rightarrow> bool \<Rightarrow> bool \<Rightarrow> TxVerificationResult" where
  "failover look [] saw_not_found saw_dependency_failure =
     (if saw_not_found \<and> \<not> saw_dependency_failure then tx_result ''missing'' ''not_found_on_horizon''
      else if saw_dependency_failure then tx_result ''error'' ''horizon_dependency_failure''
      else tx_result ''missing'' ''not_found_on_horizon'')"
| "failover look (rpc_url # urls) saw_not_found saw_dependency_failure =
     (case look rpc_url of
        NotFound \<Rightarrow> failover look urls True saw_dependency_failure
      | DependencyFailure \<Rightarrow> failover look urls saw_not_found True
      | Answer r \<Rightarrow> r)"

definition verify_transaction :: "horizon \<Rightarrow> string list \<Rightarrow> pyval \<Rightarrow> int \<Rightarrow> TxVerificationResult" where
  "verify_transaction fetch urls tx_hash min_confirmations =
     (case normalize_tx_hash tx_hash of
        Inl _ \<Rightarrow> tx_result ''failed'' ''malformed_tx_hash''
      | Inr normalized \<Rightarrow>
          if min_confirmations < 1 then tx_result ''error'' ''invalid_min_confirmations''
          else failover (lookup_tx fetch min_confirmations normalized) urls False False)"

definition verify_transaction_status :: "horizon \<Rightarrow> string list \<Rightarrow> pyval \<Rightarrow> string" where
  "verify_transaction_status fetch urls tx_hash =
     (let result = verify_transaction fetch urls tx_hash 1
      in if tv_status result = ''error'' then ''pending'' else tv_status result)"

section \<open>Reconciliation\<close>

datatype ReconcileError = BadValue string | BadType | StoreRaised StoreError | JobFailure string

definition MAX_RECONCILE_BATCH :: int where
  "MAX_RECONCILE_BATCH = 50"

definition DEFAULT_MIN_CONFIRMATIONS :: int where
  "DEFAULT_MIN_CONFIRMATIONS = 1"

definition env_int :: "string option \<Rightarrow> int \<Rightarrow> int" where
  "env_int env default_value =
     (case env of
        None \<Rightarrow> default_value
      | Some s \<Rightarrow>
          if py_strip s = [] then default_value
          else (case py_int 10 (py_strip s) of
                  None \<Rightarrow> default_value
                | Some value \<Rightarrow> if 1 \<le> value then value else default_value))"

definition default_min_confirmations :: "string option \<Rightarrow> int" where
  "default_min_confirmations env = env_int env DEFAULT_MIN_CONFIRMATIONS"

definition clamp_reconcile_limit :: "pyval \<Rightarrow> ReconcileError + int" where
  "clamp_reconcile_limit limit =
     (if limit = PNone then Inr MAX_RECONCILE_BATCH
      else (case py_int_of limit of
              Inl _ \<Rightarrow> Inl (BadValue ''limit must be a positive integer'')
            | Inr parsed \<Rightarrow>
                if parsed < 1 then Inl (BadValue ''limit must be a positive integer'')
                else Inr (min parsed MAX_RECONCILE_BATCH)))"

definition opt_str :: "string option \<Rightarrow> pyval" where
  "opt_str v = (case v of None \<Rightarrow> PNone | Some s \<Rightarrow> PStr s)"

definition opt_int :: "int option \<Rightarrow> pyval" where
  "opt_int v = (case v of None \<Rightarrow> PNone | Some i \<Rightarrow> PInt i)"

definition result_payload ::
  "string option \<Rightarrow> string option \<Rightarrow> TxVerificationResult \<Rightarrow> bool \<Rightarrow> string option \<Rightarrow> int option \<Rightarrow> (string \<times> pyval) list" where
  "result_payload tx_hash previous_status verification updated proof_id event_id =
     [(''txHash'', opt_str tx_hash), (''previousStatus'', opt_str previous_status),
      (''status'', PStr (tv_status verification)), (''updated'', PBool updated), (''reason'', PStr (tv_reason verification)),
      (''confirmations'', opt_int (tv_confirmations verification)), (''ledger'', opt_int (tv_ledger verification)),
      (''minConfirmationsApplied'', PNone)]
     @ (case proof_id of None \<Rightarrow> [] | Some p \<Rightarrow> [(''proofId'', PStr p)])
     @ (case event_id of None \<Rightarrow> [] | Some i \<Rightarrow> [(''eventId'', PInt i)])"

text \<open>\<open>env\<close> is \<^verbatim>\<open>TX_MIN_CONFIRMATIONS\<close>, used when no depth is given.\<close>

definition effective_min :: "string option \<Rightarrow> int option \<Rightarrow> ReconcileError + int" where
  "effective_min env min_confirmations =
     (let m = (case min_confirmations of None \<Rightarrow> default_min_confirmations env | Some m \<Rightarrow> m)
      in if m < 1 then Inl (BadValue ''minConfirmations must be >= 1'') else Inr m)"

definition write_status ::
  "string \<Rightarrow> TxVerificationResult \<Rightarrow> bool \<Rightarrow> Store \<Rightarrow> (ReconcileError + bool) \<times> Store" where
  "write_status normalized verification force st =
     (if tv_status verification \<in> set TERMINAL_STATUSES
      then (case update_tx_status normalized (tv_status verification) force st of
              (Inl e, st') \<Rightarrow> (Inl (StoreRaised e), st')
            | (Inr updated, st') \<Rightarrow> (Inr updated, st'))
      else (Inr False, st))"

definition already_terminal :: "string option \<Rightarrow> bool" where
  "already_terminal previous_status = (case previous_status of None \<Rightarrow> False | Some s \<Rightarrow> s \<in> set TERMINAL_STATUSES)"

definition reconcile_registration ::
  "horizon \<Rightarrow> string list \<Rightarrow> string option \<Rightarrow> pyval \<Rightarrow> string option \<Rightarrow> string option \<Rightarrow> int option \<Rightarrow> int option \<Rightarrow> bool
   \<Rightarrow> Store \<Rightarrow> (ReconcileError + (string \<times> pyval) list) \<times> Store" where
  "reconcile_registration fetch urls env tx_hash previous_status proof_id event_id min_confirmations force st =
     (case effective_min env min_confirmations of
        Inl e \<Rightarrow> (Inl e, st)
      | Inr min_conf \<Rightarrow>
          (case normalize_tx_hash tx_hash of
             Inl _ \<Rightarrow>
               (Inr (result_payload None previous_status (tx_result ''failed'' ''malformed_tx_hash'') False proof_id event_id
                     @ [(''error'', PStr ''malformed_tx_hash'')]), st)
           | Inr normalized \<Rightarrow>
               if already_terminal previous_status \<and> \<not> force
               then (Inr (result_payload (Some normalized) previous_status
                           (tx_result (the previous_status) ''already_terminal'') False proof_id event_id), st)
               else let verification = verify_transaction fetch urls (PStr normalized) min_conf
                    in (case write_status normalized verification force st of
                          (Inl e, st') \<Rightarrow> (Inl e, st')
                        | (Inr updated, st') \<Rightarrow>
                            (Inr (AList.update ''minConfirmationsApplied'' (PInt min_conf)
                               (result_payload (Some normalized) previous_status verification updated proof_id event_id)), st'))))"

record Summary =
  sm_scanned :: nat
  sm_counts :: "(string \<times> nat) list"
  sm_updated :: nat

definition new_summary :: Summary where
  "new_summary = \<lparr>sm_scanned = 0,
     sm_counts = [(''confirmed'', 0), (''failed'', 0), (''missing'', 0), (''pending'', 0), (''error'', 0)], sm_updated = 0\<rparr>"

text \<open>A status that is no key of the summary counts as an error.\<close>

definition bump :: "string \<Rightarrow> (string \<times> nat) list \<Rightarrow> (string \<times> nat) list" where
  "bump status counts =
     (let k = (if status \<in> fst ` set counts then status else ''error'')
      in map (\<lambda>(s, n). (s, if s = k then n + 1 else n)) counts)"

definition count_item :: "(string \<times> pyval) list \<Rightarrow> Summary \<Rightarrow> Summary" where
  "count_item item s =
     s\<lparr>sm_scanned := sm_scanned s + 1,
       sm_counts := bump (case dict_get item ''status'' of PStr t \<Rightarrow> if t = [] then ''error'' else t | _ \<Rightarrow> ''error'') (sm_counts s),
       sm_updated := sm_updated s + (if truthy (dict_get item ''updated'') then 1 else 0)\<rparr>"

fun reconcile_rows ::
  "horizon \<Rightarrow> string list \<Rightarrow> int \<Rightarrow> ProofEvent list \<Rightarrow> Summary \<times> (string \<times> pyval) list list \<Rightarrow> Store
   \<Rightarrow> (ReconcileError + Summary \<times> (string \<times> pyval) list list) \<times> Store" where
  "reconcile_rows fetch urls min_conf [] report st = (Inr report, st)"
| "reconcile_rows fetch urls min_conf (row # rows) report st =
     (case reconcile_registration fetch urls None (opt_str (pe_tx_hash row))
             (Some (case pe_tx_status row of Some (c # cs) \<Rightarrow> c # cs | _ \<Rightarrow> ''pending''))
             (pe_proof_id row) (Some (pe_id row)) (Some min_conf) False st of
        (Inl e, st') \<Rightarrow> (Inl e, st')
      | (Inr item, st') \<Rightarrow>
          reconcile_rows fetch urls min_conf rows (count_item item (fst report), snd report @ [item]) st')"

definition reconcile_pending_registrations ::
  "horizon \<Rightarrow> string list \<Rightarrow> string option \<Rightarrow> pyval \<Rightarrow> int option \<Rightarrow> Store
   \<Rightarrow> (ReconcileError + int \<times> Summary \<times> (string \<times> pyval) list list) \<times> Store" where
  "reconcile_pending_registrations fetch urls env limit min_confirmations st =
     (case andthen (clamp_reconcile_limit limit) (\<lambda>page_size.
             andthen (effective_min env min_confirmations) (\<lambda>min_conf. Inr (page_size, min_conf))) of
        Inl e \<Rightarrow> (Inl e, st)
      | Inr (page_size, min_conf) \<Rightarrow>
          (case reconcile_rows fetch urls min_conf (list_pending_registration_txs page_size st) (new_summary, []) st of
             (Inl e, st') \<Rightarrow> (Inl e, st')
           | (Inr report, st') \<Rightarrow> (Inr (min_conf, report), st')))"

definition py_or_get :: "(string \<times> pyval) list \<Rightarrow> string \<Rightarrow> string \<Rightarrow> pyval" where
  "py_or_get d a b = (if truthy (dict_get d a) then dict_get d a else dict_get d b)"

text \<open>The job handler; \<open>int\<close> on a value it cannot convert raises.\<close>

definition process_verify_tx_job ::
  "horizon \<Rightarrow> string list \<Rightarrow> string option \<Rightarrow> pyval \<Rightarrow> Store \<Rightarrow> (ReconcileError + (string \<times> pyval) list) \<times> Store" where
  "process_verify_tx_job fetch urls env payload st =
     (case payload of
        PDict d \<Rightarrow>
          (let tx_hash = py_or_get d ''tx_hash'' ''txHash'';
               proof_id = py_or_get d ''proof_id'' ''proofId'';
               min_confirmations = py_or_get d ''min_confirmations'' ''minConfirmations''
           in case (if min_confirmations = PNone then Inr None
                    else (case py_int_of min_confirmations of
                            Inl ConvTypeError \<Rightarrow> Inl BadType
                          | Inl ConvValueError \<Rightarrow> Inl (BadValue ''invalid literal for int'')
                          | Inr m \<Rightarrow> Inr (Some m))) of
                Inl e \<Rightarrow> (Inl e, st)
              | Inr m \<Rightarrow>
                  (case reconcile_registration fetch urls env tx_hash (Some ''pending'')
                          (case proof_id of PStr p \<Rightarrow> Some p | _ \<Rightarrow> None) None m False st of
                     (Inl e, st') \<Rightarrow> (Inl e, st')
                   | (Inr result, st') \<Rightarrow>
                       if dict_get result ''status'' = PStr ''error''
                       then (Inl (JobFailure (case dict_get result ''reason'' of PStr (c # cs) \<Rightarrow> c # cs | _ \<Rightarrow> ''horizon_dependency_failure'')), st')
                       else (Inr result, st')))
      | _ \<Rightarrow> (Inl (BadValue ''verify_tx payload must be an object''), st))"

section \<open>The route\<close>

datatype Reply =
    ValidationReply string
  | ErrorReply int string
  | DependencyReply "(string \<times> pyval) list"
  | SingleReply "(string \<times> pyval) list"
  | BatchReply int Summary "(string \<times> pyval) list list"
  | ServerError ReconcileError

text \<open>The body after the size checks; an error other than \<open>ValueError\<close> reaches the framework.\<close>

definition reconcile_route ::
  "horizon \<Rightarrow> string list \<Rightarrow> string option \<Rightarrow> (string \<times> pyval) list \<Rightarrow> Store \<Rightarrow> Reply \<times> Store" where
  "reconcile_route fetch urls env payload st =
     (let force = truthy (dict_get payload ''force'');
          min_confirmations =
            (if dict_get payload ''minConfirmations'' = PNone then Inr (default_min_confirmations env)
             else py_int_of (dict_get payload ''minConfirmations''))
      in case min_confirmations of
           Inl _ \<Rightarrow> (ValidationReply ''minConfirmations must be an integer >= 1'', st)
         | Inr m \<Rightarrow>
             if m < 1 then (ValidationReply ''minConfirmations must be an integer >= 1'', st)
             else if dict_get payload ''txHash'' \<noteq> PNone
             then (case reconcile_registration fetch urls env (dict_get payload ''txHash'')
                           (if force then None else Some ''pending'') None None (Some m) force st of
                     (Inl (BadValue msg), st') \<Rightarrow> (ErrorReply 400 msg, st')
                   | (Inl e, st') \<Rightarrow> (ServerError e, st')
                   | (Inr result, st') \<Rightarrow>
                       (if dict_get result ''error'' = PStr ''malformed_tx_hash''
                        then ValidationReply ''txHash must be a 32-byte hex string''
                        else if dict_get result ''status'' = PStr ''error'' then DependencyReply result
                        else SingleReply result, st'))
             else (case clamp_reconcile_limit (case map_of payload ''limit'' of None \<Rightarrow> PInt 50 | Some v \<Rightarrow> v) of
                     Inl (BadValue msg) \<Rightarrow> (ErrorReply 400 msg, st)
                   | Inl e \<Rightarrow> (ServerError e, st)
                   | Inr limit \<Rightarrow>
                       (case reconcile_pending_registrations fetch urls env (PInt limit) (Some m) st of
                          (Inl (BadValue msg), st') \<Rightarrow> (ErrorReply 400 msg, st')
                        | (Inl e, st') \<Rightarrow> (ServerError e, st')
                        | (Inr (mc, summary, results), st') \<Rightarrow> (BatchReply mc summary results, st'))))"

text \<open>The normalisation the register route applies before storing a hash.\<close>

definition app_normalize_tx_hash :: "pyval \<Rightarrow> string + string option" where
  "app_normalize_tx_hash value =
     (case value of
        PNone \<Rightarrow> Inr None
      | PStr s \<Rightarrow>
          if app_is_hex_32 (PStr (py_lower (py_strip s))) then Inr (Some (py_lower (py_strip s)))
          else Inl ''txHash must be a 32-byte hex string''
      | _ \<Rightarrow> Inl ''txHash must be a 32-byte hex string'')"

section \<open>What Horizon has said\<close>

lemma normalize_tx_hash_plain:
  assumes "normalize_tx_hash v = Inr t"
  shows "length t = 64" "list_all (\<lambda>c. c \<in> set TX_HASH_CHARS) t"
  using assms by (auto simp: normalize_tx_hash_def Let_def split: pyval.splits if_splits)

lemma lower_hex_char: "c \<in> set TX_HASH_CHARS \<Longrightarrow> \<not> is_space c \<and> lower_char c = c \<and> c \<noteq> CHR ''x''"
  by (auto simp: TX_HASH_CHARS_def is_space_def char_code_def lower_char_def)

lemma normalize_tx_hash_idem:
  assumes t: "normalize_tx_hash v = Inr t"
  shows "py_strip t = t" "normalize_tx_hash (PStr t) = Inr t"
proof -
  have hex: "\<not> is_space c \<and> lower_char c = c \<and> c \<noteq> CHR ''x''" if "c \<in> set t" for c
    using normalize_tx_hash_plain(2) [OF t] that by (meson list_all_iff lower_hex_char)
  have strip: "py_strip t = t" by (rule strip_plain) (use hex in \<open>simp add: list_all_iff\<close>)
  have lower: "py_lower t = t" using hex by (simp add: py_lower_def map_idI)
  obtain a b r where abr: "t = a # b # r" using normalize_tx_hash_plain(1) [OF t] by (cases t; cases "tl t") auto
  then have "\<not> startswith t ''0x''" using hex [of b] by (simp add: startswith_def)
  then show "normalize_tx_hash (PStr t) = Inr t"
    using normalize_tx_hash_plain [OF t] strip lower by (simp add: normalize_tx_hash_def Let_def)
  show "py_strip t = t" by (rule strip)
qed

text \<open>The four ways a run through the servers ends.\<close>

lemma failover_cases:
  "(\<exists>url \<in> set urls. look url = Answer (failover look urls nf df)) \<or>
   ((\<forall>url \<in> set urls. \<forall>r. look url \<noteq> Answer r) \<and>
    (if df \<or> (\<exists>url \<in> set urls. look url = DependencyFailure)
     then failover look urls nf df = tx_result ''error'' ''horizon_dependency_failure''
     else failover look urls nf df = tx_result ''missing'' ''not_found_on_horizon''))"
proof (induction urls arbitrary: nf df)
  case (Cons u urls)
  show ?case
  proof (cases "look u")
    case NotFound
    then show ?thesis using Cons.IH [of True df] by (auto split: if_splits)
  next
    case DependencyFailure
    then show ?thesis using Cons.IH [of nf True] by (auto split: if_splits)
  next
    case (Answer r)
    then show ?thesis by auto
  qed
qed simp

definition settled :: "horizon \<Rightarrow> string \<Rightarrow> string \<Rightarrow> bool \<Rightarrow> bool" where
  "settled fetch t url successful \<longleftrightarrow>
     (\<exists>d. fetch (url @ ''/transactions/'' @ t) = Some (200, PDict d) \<and> truthy (dict_get d ''successful'') = successful)"

definition deep_enough :: "horizon \<Rightarrow> int \<Rightarrow> string \<Rightarrow> string \<Rightarrow> bool" where
  "deep_enough fetch m t url \<longleftrightarrow>
     (\<exists>d l n. fetch (url @ ''/transactions/'' @ t) = Some (200, PDict d) \<and> truthy (dict_get d ''successful'') \<and>
        ledger_of d = Some l \<and> latest_ledger fetch url = Some (Some n) \<and> l \<le> n \<and> m \<le> n - l + 1)"

lemma lookup_answer:
  assumes "lookup_tx fetch m t url = Answer r"
  shows "tv_status r \<in> {''pending'', ''confirmed'', ''failed''}"
    "tv_status r = ''confirmed'' \<Longrightarrow> deep_enough fetch m t url"
    "tv_status r = ''failed'' \<Longrightarrow> settled fetch t url False"
  using assms
  by (auto simp: lookup_tx_def confirmation_result_def tx_result_def depth_def deep_enough_def settled_def Let_def
    split: option.splits prod.splits if_splits pyval.splits)

lemma lookup_not_found:
  "lookup_tx fetch m t url = NotFound \<longleftrightarrow> (\<exists>body. fetch (url @ ''/transactions/'' @ t) = Some (404, body))"
  by (auto simp: lookup_tx_def split: option.splits prod.splits if_splits pyval.splits)

lemma verify_transaction_means:
  fixes fetch :: horizon and urls :: "string list"
  assumes t: "normalize_tx_hash (PStr t) = Inr t" and m: "1 \<le> m"
  defines "s \<equiv> tv_status (verify_transaction fetch urls (PStr t) m)"
  shows "s = ''confirmed'' \<Longrightarrow> \<exists>url \<in> set urls. deep_enough fetch m t url"
    and "s = ''failed'' \<Longrightarrow> \<exists>url \<in> set urls. settled fetch t url False"
    and "s = ''missing'' \<longleftrightarrow> (\<forall>url \<in> set urls. \<exists>body. fetch (url @ ''/transactions/'' @ t) = Some (404, body))"
    and "s \<in> {''confirmed'', ''failed'', ''missing'', ''pending'', ''error''}"
proof -
  define look where "look = lookup_tx fetch m t"
  have s: "s = tv_status (failover look urls False False)"
    using t m by (simp add: s_def verify_transaction_def look_def)
  consider (answer) url where "url \<in> set urls" "look url = Answer (failover look urls False False)"
    | (error) "\<exists>url \<in> set urls. look url = DependencyFailure" "s = ''error''"
    | (missing) "\<forall>url \<in> set urls. look url = NotFound" "s = ''missing''"
  proof -
    have end_status: "tv_status (tx_result a b) = a" for a b by (simp add: tx_result_def)
    have kinds: "look url = NotFound" if "\<forall>r. look url \<noteq> Answer r" "look url \<noteq> DependencyFailure" for url
      using that by (cases "look url") auto
    show thesis
    proof (cases "\<exists>url \<in> set urls. look url = Answer (failover look urls False False)")
      case True
      then show thesis using answer by blast
    next
      case False
      then have none: "\<forall>url \<in> set urls. \<forall>r. look url \<noteq> Answer r"
        and rest: "if \<exists>url \<in> set urls. look url = DependencyFailure
          then failover look urls False False = tx_result ''error'' ''horizon_dependency_failure''
          else failover look urls False False = tx_result ''missing'' ''not_found_on_horizon''"
        using failover_cases [of urls look False False] by simp_all
      show thesis
      proof (cases "\<exists>url \<in> set urls. look url = DependencyFailure")
        case True
        then show thesis using rest s end_status error by simp
      next
        case False
        then show thesis using rest s end_status none kinds missing by simp
      qed
    qed
  qed
  then have "(s = ''confirmed'' \<longrightarrow> (\<exists>url \<in> set urls. deep_enough fetch m t url)) \<and>
    (s = ''failed'' \<longrightarrow> (\<exists>url \<in> set urls. settled fetch t url False)) \<and>
    (s = ''missing'' \<longleftrightarrow> (\<forall>url \<in> set urls. look url = NotFound)) \<and>
    s \<in> {''confirmed'', ''failed'', ''missing'', ''pending'', ''error''}"
  proof cases
    case answer
    note a = lookup_answer [OF answer(2) [unfolded look_def]]
    then have "s \<noteq> ''missing''" using s unfolding look_def by auto
    moreover have "look url \<noteq> NotFound" using answer(2) by simp
    then have "\<not> (\<forall>url \<in> set urls. look url = NotFound)" using answer(1) by blast
    ultimately have "(s = ''missing'') = (\<forall>url \<in> set urls. look url = NotFound)" by blast
    moreover have "s \<in> {''confirmed'', ''failed'', ''missing'', ''pending'', ''error''}"
      using a(1) unfolding s look_def by (elim insertE emptyE) simp_all
    moreover have "s = ''confirmed'' \<longrightarrow> (\<exists>url \<in> set urls. deep_enough fetch m t url)"
      "s = ''failed'' \<longrightarrow> (\<exists>url \<in> set urls. settled fetch t url False)"
      using a(2,3) answer(1) unfolding s look_def by blast+
    ultimately show ?thesis by (intro conjI)
  next
    case error
    then have "\<exists>url \<in> set urls. look url \<noteq> NotFound" by force
    then have "\<not> (\<forall>url \<in> set urls. look url = NotFound)" by blast
    then show ?thesis using error by simp
  next
    case missing
    then show ?thesis by simp
  qed
  note c = this [unfolded look_def lookup_not_found]
  show "s = ''confirmed'' \<Longrightarrow> \<exists>url \<in> set urls. deep_enough fetch m t url" by (rule mp [OF conjunct1 [OF c]])
  show "s = ''failed'' \<Longrightarrow> \<exists>url \<in> set urls. settled fetch t url False" by (rule mp [OF conjunct1 [OF conjunct2 [OF c]]])
  show "s = ''missing'' \<longleftrightarrow> (\<forall>url \<in> set urls. \<exists>body. fetch (url @ ''/transactions/'' @ t) = Some (404, body))"
    by (rule conjunct1 [OF conjunct2 [OF conjunct2 [OF c]]])
  show "s \<in> {''confirmed'', ''failed'', ''missing'', ''pending'', ''error''}"
    by (rule conjunct2 [OF conjunct2 [OF conjunct2 [OF c]]])
qed

section \<open>A batch\<close>

text \<open>The row after the hashes \<open>ts\<close> have been reconciled.\<close>

definition open_status :: "ProofEvent \<Rightarrow> bool" where
  "open_status r \<longleftrightarrow> pe_tx_status r = None \<or> pe_tx_status r = Some ''pending''"

definition settle :: "(string \<Rightarrow> string) \<Rightarrow> string set \<Rightarrow> ProofEvent \<Rightarrow> ProofEvent" where
  "settle verdict ts r =
     (case pe_tx_hash r of
        None \<Rightarrow> r
      | Some t \<Rightarrow>
          if t \<in> ts \<and> open_status r \<and> verdict t \<in> set TERMINAL_STATUSES then r\<lparr>pe_tx_status := Some (verdict t)\<rparr> else r)"

lemma settle_empty [simp]: "settle verdict {} = id"
  by (rule ext) (simp add: settle_def split: option.split)

lemma settle_settle: "settle verdict us (settle verdict ts r) = settle verdict (ts \<union> us) r"
proof -
  have "s \<in> set TERMINAL_STATUSES \<Longrightarrow> s \<noteq> ''pending''" for s by (auto simp: TERMINAL_STATUSES_def)
  then show ?thesis by (auto simp: settle_def open_status_def split: option.splits)
qed

abbreviation verdict_of :: "horizon \<Rightarrow> string list \<Rightarrow> int \<Rightarrow> string \<Rightarrow> string" where
  "verdict_of fetch urls m t \<equiv> tv_status (verify_transaction fetch urls (PStr t) m)"

definition row_hash :: "ProofEvent \<Rightarrow> string set" where
  "row_hash r = (case normalize_tx_hash (opt_str (pe_tx_hash r)) of Inl _ \<Rightarrow> {} | Inr t \<Rightarrow> {t})"

lemma write_status_settles:
  assumes conf: "st_configured st" and t: "normalize_tx_hash v = Inr t"
    and ver: "ver = verify_transaction fetch urls (PStr t) m"
  shows "\<exists>updated. write_status t ver False st =
    (Inr updated, st\<lparr>st_rows := map (settle (verdict_of fetch urls m) {t}) (st_rows st)\<rparr>)"
proof (cases "tv_status ver \<in> set TERMINAL_STATUSES")
  case True
  have "py_strip t \<noteq> []" using normalize_tx_hash_plain(1) [OF t] normalize_tx_hash_idem(1) [OF t] by auto
  moreover have "tv_status ver \<in> {''pending'', ''confirmed'', ''failed'', ''missing''}"
    using True by (auto simp: TERMINAL_STATUSES_def)
  moreover have "(if tx_matches t False r then r\<lparr>pe_tx_status := Some (tv_status ver)\<rparr> else r) = settle (verdict_of fetch urls m) {t} r" for r
    using True ver by (simp add: settle_def tx_matches_def open_status_def split: option.split)
  ultimately show ?thesis using conf True by (simp add: write_status_def update_tx_status_def del: insert_iff)
next
  case False
  then have "settle (verdict_of fetch urls m) {t} = id" using ver by (auto simp: settle_def split: option.split)
  then show ?thesis using False by (auto simp: write_status_def)
qed

lemma reconcile_row:
  assumes conf: "st_configured st" and m: "1 \<le> m" and s: "s \<notin> set TERMINAL_STATUSES"
  shows "\<exists>item. reconcile_registration fetch urls env (opt_str (pe_tx_hash row)) (Some s) pid eid (Some m) False st =
    (Inr item, st\<lparr>st_rows := map (settle (verdict_of fetch urls m) (row_hash row)) (st_rows st)\<rparr>)"
proof (cases "normalize_tx_hash (opt_str (pe_tx_hash row))")
  case (Inl e)
  then show ?thesis using m by (simp add: reconcile_registration_def effective_min_def row_hash_def)
next
  case (Inr t)
  then have "row_hash row = {t}" by (simp add: row_hash_def)
  with write_status_settles [OF conf Inr refl, of fetch urls m] Inr m s show ?thesis
    by (auto simp: reconcile_registration_def effective_min_def already_terminal_def Let_def)
qed

lemma bump_total:
  assumes "distinct (map fst counts)" "''error'' \<in> fst ` set counts"
  shows "sum_list (map snd (bump s counts)) = Suc (sum_list (map snd counts))" "map fst (bump s counts) = map fst counts"
proof -
  have bumped: "sum_list (map snd (map (\<lambda>(a, n). (a, if a = k then n + 1 else n)) cs)) =
      sum_list (map snd cs) + (if k \<in> fst ` set cs then 1 else 0)" if "distinct (map fst cs)" for k and cs :: "(string \<times> nat) list"
    using that by (induction cs) (auto split: if_splits simp: rev_image_eqI)
  show "sum_list (map snd (bump s counts)) = Suc (sum_list (map snd counts))"
    using bumped [OF assms(1)] assms(2) by (simp add: bump_def Let_def)
  show "map fst (bump s counts) = map fst counts" by (auto simp: bump_def Let_def)
qed

definition counted :: "Summary \<Rightarrow> bool" where
  "counted s \<longleftrightarrow> distinct (map fst (sm_counts s)) \<and> ''error'' \<in> fst ` set (sm_counts s) \<and>
     sum_list (map snd (sm_counts s)) = sm_scanned s"

lemma counted_item:
  assumes "counted s"
  shows "counted (count_item item s)" "sm_scanned (count_item item s) = Suc (sm_scanned s)"
proof -
  have "fst ` set (bump x (sm_counts s)) = fst ` set (sm_counts s)" for x
    using assms bump_total(2) [of "sm_counts s" x] by (metis counted_def list.set_map)
  then show "counted (count_item item s)"
    using assms bump_total [of "sm_counts s"] by (simp add: counted_def count_item_def)
  show "sm_scanned (count_item item s) = Suc (sm_scanned s)" by (simp add: count_item_def)
qed

lemma reconcile_rows_settle:
  assumes "st_configured st" "1 \<le> m" "\<forall>row \<in> set rows. pe_tx_status row = Some ''pending''" "counted (fst report)"
  shows "\<exists>summary results. reconcile_rows fetch urls m rows report st =
      (Inr (summary, results), st\<lparr>st_rows := map (settle (verdict_of fetch urls m) (\<Union> (row_hash ` set rows))) (st_rows st)\<rparr>) \<and>
    counted summary \<and> sm_scanned summary = sm_scanned (fst report) + length rows \<and> length results = length (snd report) + length rows"
  using assms
proof (induction rows arbitrary: report st)
  case Nil
  then show ?case by (cases report) simp
next
  case (Cons row rows)
  define v where "v = verdict_of fetch urls m"
  define st1 where "st1 = st\<lparr>st_rows := map (settle v (row_hash row)) (st_rows st)\<rparr>"
  have "''pending'' \<notin> set TERMINAL_STATUSES" by (simp add: TERMINAL_STATUSES_def)
  from reconcile_row [OF Cons.prems(1,2) this, of fetch urls None row "pe_proof_id row" "Some (pe_id row)"]
  obtain item where item: "reconcile_registration fetch urls None (opt_str (pe_tx_hash row)) (Some ''pending'')
      (pe_proof_id row) (Some (pe_id row)) (Some m) False st = (Inr item, st1)" unfolding st1_def v_def by blast
  have "st_configured st1" using Cons.prems(1) by (simp add: st1_def)
  from Cons.IH [OF this Cons.prems(2), of "(count_item item (fst report), snd report @ [item])"]
  obtain summary results where run: "reconcile_rows fetch urls m rows (count_item item (fst report), snd report @ [item]) st1 =
      (Inr (summary, results), st1\<lparr>st_rows := map (settle v (\<Union> (row_hash ` set rows))) (st_rows st1)\<rparr>)"
    and sums: "counted summary" "sm_scanned summary = sm_scanned (fst report) + length (row # rows)"
      "length results = length (snd report) + length (row # rows)"
    using Cons.prems counted_item [OF Cons.prems(4)] by (auto simp: v_def)
  have "settle v (\<Union> (row_hash ` set rows)) (settle v (row_hash row) r) = settle v (\<Union> (row_hash ` set (row # rows))) r" for r
    by (simp add: settle_settle)
  then have "st1\<lparr>st_rows := map (settle v (\<Union> (row_hash ` set rows))) (st_rows st1)\<rparr> =
    st\<lparr>st_rows := map (settle v (\<Union> (row_hash ` set (row # rows)))) (st_rows st)\<rparr>" by (simp add: st1_def)
  then show ?case using run item sums Cons.prems(3) by (simp add: v_def)
qed

definition page_hashes :: "int \<Rightarrow> Store \<Rightarrow> string set" where
  "page_hashes limit st = \<Union> (row_hash ` set (list_pending_registration_txs limit st))"

lemma page_pending: "row \<in> set (list_pending_registration_txs limit st) \<Longrightarrow> pe_tx_status row = Some ''pending''"
  by (auto simp: list_pending_registration_txs_def id_asc_def split: if_splits dest!: in_set_takeD)

lemma page_hashes_normal: "t \<in> page_hashes limit st \<Longrightarrow> normalize_tx_hash (PStr t) = Inr t"
proof -
  have "t \<in> row_hash r \<Longrightarrow> normalize_tx_hash (PStr t) = Inr t" for r
    by (cases "normalize_tx_hash (opt_str (pe_tx_hash r))") (simp_all add: row_hash_def normalize_tx_hash_idem(2))
  then show "t \<in> page_hashes limit st \<Longrightarrow> normalize_tx_hash (PStr t) = Inr t" by (auto simp: page_hashes_def)
qed

text \<open>
  C34: A batch over a configured store never fails, and it changes exactly this: every row that is
  still open (no status or \<open>pending\<close>) and whose hash is on the page of pending rows gets the verdict
  on that hash when the verdict is final; all other rows, final statuses included, stay as they are. The summary
  counts every scanned row once. A verdict \<open>confirmed\<close> means that one of the servers reports the
  transaction successful at the required depth, \<open>failed\<close> that one reports it unsuccessful, and
  \<open>missing\<close> exactly that every server answers 404.
\<close>

theorem reconcile_batch_exact:
  assumes conf: "st_configured st"
    and limit: "clamp_reconcile_limit limit = Inr page_size"
    and min: "effective_min env min_confirmations = Inr m"
  shows "(\<exists>summary results. reconcile_pending_registrations fetch urls env limit min_confirmations st =
      (Inr (m, summary, results),
       st\<lparr>st_rows := map (settle (verdict_of fetch urls m) (page_hashes page_size st)) (st_rows st)\<rparr>) \<and>
      sm_scanned summary = length (list_pending_registration_txs page_size st) \<and>
      sum_list (map snd (sm_counts summary)) = sm_scanned summary \<and> length results = sm_scanned summary) \<and>
    (\<forall>t \<in> page_hashes page_size st.
      (verdict_of fetch urls m t = ''confirmed'' \<longrightarrow> (\<exists>url \<in> set urls. deep_enough fetch m t url)) \<and>
      (verdict_of fetch urls m t = ''failed'' \<longrightarrow> (\<exists>url \<in> set urls. settled fetch t url False)) \<and>
      (verdict_of fetch urls m t = ''missing'' \<longleftrightarrow>
        (\<forall>url \<in> set urls. \<exists>body. fetch (url @ ''/transactions/'' @ t) = Some (404, body))))"
proof -
  have m: "1 \<le> m" using min by (auto simp: effective_min_def Let_def split: if_splits)
  have "\<forall>row \<in> set (list_pending_registration_txs page_size st). pe_tx_status row = Some ''pending''" using page_pending by blast
  moreover have "counted (fst (new_summary, []))" by (simp add: counted_def new_summary_def)
  ultimately obtain summary results where
    run: "reconcile_rows fetch urls m (list_pending_registration_txs page_size st) (new_summary, []) st =
      (Inr (summary, results), st\<lparr>st_rows := map (settle (verdict_of fetch urls m) (page_hashes page_size st)) (st_rows st)\<rparr>)"
    and sums: "counted summary" "sm_scanned summary = sm_scanned new_summary + length (list_pending_registration_txs page_size st)"
      "length results = length (list_pending_registration_txs page_size st)"
    using reconcile_rows_settle [OF conf m, of "list_pending_registration_txs page_size st" "(new_summary, [])" fetch urls]
    unfolding page_hashes_def by auto
  have "reconcile_pending_registrations fetch urls env limit min_confirmations st =
      (Inr (m, summary, results), st\<lparr>st_rows := map (settle (verdict_of fetch urls m) (page_hashes page_size st)) (st_rows st)\<rparr>)"
    using run by (simp add: reconcile_pending_registrations_def limit min)
  moreover have "sm_scanned summary = length results" "sum_list (map snd (sm_counts summary)) = sm_scanned summary"
    using sums by (simp_all add: new_summary_def counted_def)
  moreover have "sm_scanned summary = length (list_pending_registration_txs page_size st)"
    using sums by (simp add: new_summary_def)
  ultimately show ?thesis
    using verify_transaction_means(1-3) [OF page_hashes_normal m] by (intro conjI ballI impI exI [of _ summary] exI [of _ results]) simp_all
qed

definition sample_hash :: string where
  "sample_hash = replicate 64 CHR ''a''"

definition pending_store :: Store where
  "pending_store = snd (insert_proof_event 1 (blank_event\<lparr>pe_tx_hash := Some sample_hash, pe_tx_status := Some ''pending''\<rparr>) (empty_store True))"

definition sample_horizon :: horizon where
  "sample_horizon url =
     (if url = ''h/fee_stats'' then Some (200, PDict [(''last_ledger'', PStr ''9'')])
      else if url = ''h/transactions/'' @ sample_hash then Some (200, PDict [(''successful'', PBool True), (''ledger'', PInt 7)])
      else None)"

lemma pending_store_rows:
  "st_configured pending_store"
  "st_rows pending_store = [blank_event\<lparr>pe_tx_hash := Some sample_hash, pe_tx_status := Some ''pending'', pe_id := 1, pe_created_at := 1\<rparr>]"
  by (simp_all add: pending_store_def insert_proof_event_def append_row_def empty_store_def blank_event_def Let_def)

lemma sample_hash_normal: "normalize_tx_hash (PStr sample_hash) = Inr sample_hash"
  by code_simp

lemma sample_verdict: "verdict_of sample_horizon [''down'', ''h''] 3 sample_hash = ''confirmed''"
  by code_simp

theorem reconcile_batch_exact_witness:
  "\<exists>report st'. reconcile_pending_registrations sample_horizon [''down'', ''h''] None PNone (Some 3) pending_store = (Inr report, st') \<and>
     map pe_tx_status (st_rows st') = [Some ''confirmed''] \<and> (\<exists>url \<in> set [''down'', ''h'']. deep_enough sample_horizon 3 sample_hash url)"
proof -
  have lim: "clamp_reconcile_limit PNone = Inr 50" by (simp add: clamp_reconcile_limit_def MAX_RECONCILE_BATCH_def)
  have min: "effective_min None (Some 3) = Inr 3" by (simp add: effective_min_def)
  have "list_pending_registration_txs 50 pending_store = st_rows pending_store"
    by (simp add: list_pending_registration_txs_def pending_store_rows id_asc_def)
  then have page: "page_hashes 50 pending_store = {sample_hash}"
    by (simp add: page_hashes_def row_hash_def pending_store_rows opt_str_def sample_hash_normal)
  have rows: "map pe_tx_status (map (settle (verdict_of sample_horizon [''down'', ''h''] 3) {sample_hash}) (st_rows pending_store)) = [Some ''confirmed'']"
    by (simp add: pending_store_rows settle_def open_status_def sample_verdict TERMINAL_STATUSES_def)
  note inst = reconcile_batch_exact [OF pending_store_rows(1) lim min, of sample_horizon "[''down'', ''h'']", unfolded page]
  from conjunct1 [OF inst] obtain report where
    "reconcile_pending_registrations sample_horizon [''down'', ''h''] None PNone (Some 3) pending_store =
      (Inr report, pending_store\<lparr>st_rows := map (settle (verdict_of sample_horizon [''down'', ''h''] 3) {sample_hash}) (st_rows pending_store)\<rparr>)"
    by blast
  moreover have "\<exists>url \<in> set [''down'', ''h'']. deep_enough sample_horizon 3 sample_hash url"
    using conjunct1 [OF bspec [OF conjunct2 [OF inst]]] sample_verdict by blast
  moreover have "map pe_tx_status (st_rows (pending_store\<lparr>st_rows := map (settle (verdict_of sample_horizon [''down'', ''h''] 3) {sample_hash})
      (st_rows pending_store)\<rparr>)) = [Some ''confirmed'']"
    using rows by simp
  ultimately show ?thesis by (intro exI conjI)
qed

text \<open>
  The register route stores a hash that the reconciler cannot read back: 64 characters with a \<open>0x\<close>
  prefix pass its check, and are stored with the prefix.
\<close>

lemma prefixed_hash_never_settles:
  "app_normalize_tx_hash (PStr (''0x'' @ replicate 62 CHR ''0'')) = Inr (Some (''0x'' @ replicate 62 CHR ''0'')) \<and>
   isl (normalize_tx_hash (PStr (''0x'' @ replicate 62 CHR ''0'')))"
  by code_simp

end
