(* ===== verification/Webhook.thy ===== *)
theory Webhook
  imports Json Proof_Store
begin

text \<open>
  Webhook deliveries, \<^verbatim>\<open>src/backend/webhook.py\<close>, over the tables \<^verbatim>\<open>webhook_subscriptions\<close> and
  \<^verbatim>\<open>webhook_deliveries\<close> of \<^verbatim>\<open>src/backend/migration.py\<close>. A subscription row has the column \<open>event_types\<close>
  that the queries read. HMAC, the HTTP exchange, the printing of times and the clock are
  parameters; instants are rationals, in seconds. Rows that are due at the same instant are taken
  in table order. Log lines and timeouts are left out.

  The main results: the well-formedness of the delivery table under every interleaving of
  dispatchers, and that a delivery is settled after at most six attempts.
\<close>

section \<open>State\<close>

record Subscription =
  su_id :: int
  su_url :: string
  su_secret_key :: string
  su_is_active :: bool
  su_event_types :: "string list option"

record Delivery =
  wd_id :: int
  wd_subscription_id :: int
  wd_event_id :: int
  wd_status :: string
  wd_retry_count :: int
  wd_next_retry_at :: rat
  wd_lease_expires_at :: "rat option"
  wd_last_response_code :: "int option"
  wd_updated_at :: rat

text \<open>A leased delivery with what is needed to send it.\<close>

record Dispatch =
  di_delivery_id :: int
  di_retry_count :: int
  di_url :: string
  di_secret_key :: string
  di_payload :: "(string \<times> pyval) list"

record Hooks =
  hk_store :: Store
  hk_subscriptions :: "Subscription list"
  hk_deliveries :: "Delivery list"
  hk_next_id :: int

definition MAX_RETRIES :: int where
  "MAX_RETRIES = 5"

definition RETRY_BACKOFF_SECONDS :: "int list" where
  "RETRY_BACKOFF_SECONDS = [10, 60, 300, 3600, 86400]"

definition ALLOWED_EVENT_TYPES :: "string list" where
  "ALLOWED_EVENT_TYPES = [''registration'', ''revocation'', ''transfer'', ''verification'']"

section \<open>Operations\<close>

fun check_names :: "pyval list \<Rightarrow> string + string list" where
  "check_names [] = Inr []"
| "check_names (v # vs) =
     (case v of
        PStr name \<Rightarrow>
          if name \<in> set ALLOWED_EVENT_TYPES then andthen (check_names vs) (\<lambda>names. Inr (name # names))
          else Inl ''Unknown webhook event type''
      | _ \<Rightarrow> Inl ''Unknown webhook event type'')"

definition validate_event_types :: "pyval \<Rightarrow> string + string list option" where
  "validate_event_types event_types =
     (case event_types of
        PNone \<Rightarrow> Inr None
      | PList vs \<Rightarrow> andthen (check_names vs) (\<lambda>names. Inr (Some names))
      | _ \<Rightarrow> Inl ''event_types must be a list of strings or None'')"

definition get_active_subscriptions :: "Hooks \<Rightarrow> Subscription list" where
  "get_active_subscriptions hk = (if \<not> st_configured (hk_store hk) then [] else filter su_is_active (hk_subscriptions hk))"

definition wants :: "string \<Rightarrow> Subscription \<Rightarrow> bool" where
  "wants event_type sub = (case su_event_types sub of None \<Rightarrow> True | Some types \<Rightarrow> event_type \<in> set types)"

definition insert_delivery :: "rat \<Rightarrow> int \<Rightarrow> Subscription \<Rightarrow> Hooks \<Rightarrow> Hooks" where
  "insert_delivery now event_id sub hk =
     hk\<lparr>hk_deliveries := hk_deliveries hk @ [\<lparr>wd_id = hk_next_id hk, wd_subscription_id = su_id sub, wd_event_id = event_id,
          wd_status = ''pending'', wd_retry_count = 0, wd_next_retry_at = now, wd_lease_expires_at = None,
          wd_last_response_code = None, wd_updated_at = now\<rparr>],
        hk_next_id := hk_next_id hk + 1\<rparr>"

definition event_by_id :: "int \<Rightarrow> Hooks \<Rightarrow> ProofEvent option" where
  "event_by_id event_id hk = find (\<lambda>r. pe_id r = event_id) (st_rows (hk_store hk))"

definition queue_webhook_deliveries :: "rat \<Rightarrow> int \<Rightarrow> Hooks \<Rightarrow> Hooks" where
  "queue_webhook_deliveries now event_id hk =
     (let subs = get_active_subscriptions hk in
      if subs = [] \<or> \<not> st_configured (hk_store hk) then hk
      else (case event_by_id event_id hk of
              None \<Rightarrow> hk
            | Some r \<Rightarrow> fold (insert_delivery now event_id) (filter (wants (pe_event_type r)) subs) hk))"

definition ready :: "rat \<Rightarrow> Delivery \<Rightarrow> bool" where
  "ready now d \<longleftrightarrow> wd_status d \<in> {''pending'', ''failed''} \<and> wd_next_retry_at d \<le> now \<and>
     (case wd_lease_expires_at d of None \<Rightarrow> True | Some t \<Rightarrow> t \<le> now)"

definition text_or_null :: "string option \<Rightarrow> pyval" where
  "text_or_null v = (case v of None \<Rightarrow> PNone | Some s \<Rightarrow> PStr s)"

definition payload_of :: "(rat \<Rightarrow> string) \<Rightarrow> ProofEvent \<Rightarrow> (string \<times> pyval) list" where
  "payload_of isoformat e =
     [(''event_type'', PStr (pe_event_type e)), (''file_name'', text_or_null (pe_file_name e)),
      (''video_hash'', text_or_null (pe_video_hash e)), (''metadata_hash'', text_or_null (pe_metadata_hash e)),
      (''proof_id'', text_or_null (pe_proof_id e)), (''tier'', text_or_null (pe_tier e)),
      (''embedded_hash'', text_or_null (pe_embedded_hash e)), (''tx_hash'', text_or_null (pe_tx_hash e)),
      (''tx_status'', text_or_null (pe_tx_status e)), (''source_address'', text_or_null (pe_source_address e)),
      (''contract_id'', text_or_null (pe_contract_id e)),
      (''metadata'', case pe_metadata e of None \<Rightarrow> PNone | Some m \<Rightarrow> m), (''created_at'', PStr (isoformat (pe_created_at e)))]"

definition dispatch_of :: "(rat \<Rightarrow> string) \<Rightarrow> Hooks \<Rightarrow> Delivery \<Rightarrow> Dispatch option" where
  "dispatch_of isoformat hk d =
     (case (find (\<lambda>s. su_id s = wd_subscription_id d) (hk_subscriptions hk), event_by_id (wd_event_id d) hk) of
        (Some s, Some e) \<Rightarrow> Some \<lparr>di_delivery_id = wd_id d, di_retry_count = wd_retry_count d, di_url = su_url s,
          di_secret_key = su_secret_key s, di_payload = payload_of isoformat e\<rparr>
      | _ \<Rightarrow> None)"

definition lease_deliveries :: "(rat \<Rightarrow> string) \<Rightarrow> rat \<Rightarrow> nat \<Rightarrow> rat \<Rightarrow> Hooks \<Rightarrow> Dispatch list \<times> Hooks" where
  "lease_deliveries isoformat now limit lease_duration hk =
     (if \<not> st_configured (hk_store hk) then ([], hk)
      else let chosen = map wd_id (take limit (sort_key wd_next_retry_at (filter (ready now) (hk_deliveries hk))));
               lease = (\<lambda>d. if wd_id d \<in> set chosen
                             then d\<lparr>wd_lease_expires_at := Some (now + lease_duration), wd_updated_at := now\<rparr> else d)
           in (List.map_filter (dispatch_of isoformat hk) (filter (\<lambda>d. wd_id d \<in> set chosen) (hk_deliveries hk)),
               hk\<lparr>hk_deliveries := map lease (hk_deliveries hk)\<rparr>))"

definition retry_delay :: "int \<Rightarrow> int" where
  "retry_delay retry_count =
     (if retry_count < int (length RETRY_BACKOFF_SECONDS) then RETRY_BACKOFF_SECONDS ! nat retry_count else last RETRY_BACKOFF_SECONDS)"

text \<open>The row the status update writes.\<close>

definition finished :: "rat \<Rightarrow> bool \<Rightarrow> int option \<Rightarrow> int \<Rightarrow> Delivery \<Rightarrow> Delivery" where
  "finished now success status_code retry_count d =
     (let (status, count, next) =
        (if success then (''success'', retry_count, now)
         else if MAX_RETRIES \<le> retry_count then (''dead_letter'', retry_count, now)
         else (''failed'', retry_count + 1, now + of_int (retry_delay retry_count)))
      in d\<lparr>wd_status := status, wd_retry_count := count, wd_next_retry_at := next, wd_last_response_code := status_code,
           wd_lease_expires_at := None, wd_updated_at := now\<rparr>)"

definition update_delivery_status :: "rat \<Rightarrow> int \<Rightarrow> bool \<Rightarrow> int option \<Rightarrow> int \<Rightarrow> Hooks \<Rightarrow> Hooks" where
  "update_delivery_status now delivery_id success status_code retry_count hk =
     (if \<not> st_configured (hk_store hk) then hk
      else hk\<lparr>hk_deliveries := map (\<lambda>d. if wd_id d = delivery_id then finished now success status_code retry_count d else d) (hk_deliveries hk)\<rparr>)"

definition sign_payload :: "(bytes \<Rightarrow> bytes \<Rightarrow> bytes) \<Rightarrow> bytes \<Rightarrow> string \<Rightarrow> int \<Rightarrow> string" where
  "sign_payload hmac payload_bytes secret timestamp =
     tohex (hmac (encode_ascii secret) (encode_ascii (str_int timestamp @ ''.'') @ payload_bytes))"

definition is_header_safe :: "pyval \<Rightarrow> bool" where
  "is_header_safe v = (case v of PStr s \<Rightarrow> s \<noteq> [] \<and> list_all (\<lambda>c. 0x20 < char_code c \<and> char_code c < 0x7F) s | _ \<Rightarrow> False)"

definition webhook_headers :: "string \<Rightarrow> int \<Rightarrow> Dispatch \<Rightarrow> (string \<times> string) list" where
  "webhook_headers signature timestamp di =
     [(''Content-Type'', ''application/json''),
      (''X-Harpocrates-Signature'', ''t='' @ str_int timestamp @ '',v1='' @ signature),
      (''User-Agent'', ''Harpocrates-Webhook/1.0''),
      (''X-Harpocrates-Delivery'', str_int (di_delivery_id di)),
      (''X-Harpocrates-Attempt'', str_int (di_retry_count di + 1))]
     @ (let event_type = dict_get (di_payload di) ''event_type''
        in if is_header_safe event_type then [(''X-Harpocrates-Event'', py_str (\<lambda>_. []) event_type)] else [])"

text \<open>A reply with its code, an HTTP error with its code, or any other exception.\<close>

datatype SendResult = Replied int | HttpFailure int | SendFailure

type_synonym sender = "string \<Rightarrow> (string \<times> string) list \<Rightarrow> bytes \<Rightarrow> SendResult"

definition outcome :: "SendResult \<Rightarrow> bool \<times> int option" where
  "outcome r =
     (case r of Replied code \<Rightarrow> (200 \<le> code \<and> code < 300, Some code) | HttpFailure code \<Rightarrow> (False, Some code) | SendFailure \<Rightarrow> (False, None))"

definition send_webhook :: "(bytes \<Rightarrow> bytes \<Rightarrow> bytes) \<Rightarrow> jopts \<Rightarrow> sender \<Rightarrow> rat \<Rightarrow> Dispatch \<Rightarrow> SendResult" where
  "send_webhook hmac fr send now di =
     (let payload_bytes = encode_ascii (raw fr (PDict (di_payload di)));
          timestamp = floor now;
          signature = sign_payload hmac payload_bytes (di_secret_key di) timestamp
      in send (di_url di) (webhook_headers signature timestamp di) payload_bytes)"

definition dispatch_webhook :: "(bytes \<Rightarrow> bytes \<Rightarrow> bytes) \<Rightarrow> jopts \<Rightarrow> sender \<Rightarrow> rat \<times> rat \<Rightarrow> Dispatch \<Rightarrow> Hooks \<Rightarrow> Hooks" where
  "dispatch_webhook hmac fr send instants di hk =
     (let (success, status_code) = outcome (send_webhook hmac fr send (fst instants) di)
      in update_delivery_status (snd instants) (di_delivery_id di) success status_code (di_retry_count di) hk)"

text \<open>
  One round of the dispatcher thread: lease at \<open>now\<close> with the defaults of ten deliveries and thirty
  seconds, then send each; \<open>clock\<close> gives the instants at which a delivery is
  sent and its outcome is recorded.
\<close>

definition webhook_round ::
  "(bytes \<Rightarrow> bytes \<Rightarrow> bytes) \<Rightarrow> jopts \<Rightarrow> (rat \<Rightarrow> string) \<Rightarrow> sender \<Rightarrow> rat \<Rightarrow> (int \<Rightarrow> rat \<times> rat) \<Rightarrow> Hooks \<Rightarrow> Hooks" where
  "webhook_round hmac fr isoformat send now clock hk =
     (let (deliveries, hk') = lease_deliveries isoformat now 10 30 hk
      in fold (\<lambda>di. dispatch_webhook hmac fr send (clock (di_delivery_id di)) di) deliveries hk')"

text \<open>The foreign keys: a change of events or subscriptions deletes the deliveries that refer to missing rows.\<close>

definition referenced :: "Store \<Rightarrow> Subscription list \<Rightarrow> Delivery \<Rightarrow> bool" where
  "referenced st subs d \<longleftrightarrow> wd_event_id d \<in> pe_id ` set (st_rows st) \<and> wd_subscription_id d \<in> su_id ` set subs"

definition cascade :: "Store \<Rightarrow> Subscription list \<Rightarrow> Hooks \<Rightarrow> Hooks" where
  "cascade st subs hk =
     hk\<lparr>hk_store := st, hk_subscriptions := subs, hk_deliveries := filter (referenced st subs) (hk_deliveries hk)\<rparr>"

section \<open>The delivery table under concurrent dispatchers\<close>

definition typed :: "Delivery \<Rightarrow> bool" where
  "typed d \<longleftrightarrow> wd_status d \<in> {''pending'', ''failed'', ''success'', ''dead_letter''} \<and>
     0 \<le> wd_retry_count d \<and> wd_retry_count d \<le> MAX_RETRIES \<and>
     (wd_status d = ''pending'' \<longrightarrow> wd_retry_count d = 0) \<and> (wd_status d = ''failed'' \<longrightarrow> 1 \<le> wd_retry_count d) \<and>
     (wd_status d = ''dead_letter'' \<longrightarrow> wd_retry_count d = MAX_RETRIES)"

definition hooks_ok :: "Hooks \<Rightarrow> bool" where
  "hooks_ok hk \<longleftrightarrow> distinct (map wd_id (hk_deliveries hk)) \<and>
     (\<forall>d \<in> set (hk_deliveries hk). wd_id d < hk_next_id hk \<and> typed d \<and> referenced (hk_store hk) (hk_subscriptions hk) d)"

text \<open>The tables together with the deliveries that dispatchers have leased and not yet finished.\<close>

datatype HookOp = Queue rat int | Lease rat nat rat | Finish Dispatch sender "rat \<times> rat" | Change Store "Subscription list"

inductive hook_step ::
  "(bytes \<Rightarrow> bytes \<Rightarrow> bytes) \<Rightarrow> jopts \<Rightarrow> (rat \<Rightarrow> string) \<Rightarrow> Hooks \<times> Dispatch list \<Rightarrow> HookOp \<Rightarrow> Hooks \<times> Dispatch list \<Rightarrow> bool"
  for hmac :: "bytes \<Rightarrow> bytes \<Rightarrow> bytes" and fr :: jopts and isoformat :: "rat \<Rightarrow> string" where
  queue: "hook_step hmac fr isoformat (hk, fl) (Queue now event_id) (queue_webhook_deliveries now event_id hk, fl)"
| lease: "lease_deliveries isoformat now limit dur hk = (ds, hk') \<Longrightarrow>
     hook_step hmac fr isoformat (hk, fl) (Lease now limit dur) (hk', fl @ ds)"
| finish: "di \<in> set fl \<Longrightarrow>
     hook_step hmac fr isoformat (hk, fl) (Finish di send instants) (dispatch_webhook hmac fr send instants di hk, remove1 di fl)"
| change: "hook_step hmac fr isoformat (hk, fl) (Change st subs) (cascade st subs hk, fl)"

definition system_ok :: "Hooks \<times> Dispatch list \<Rightarrow> bool" where
  "system_ok s \<longleftrightarrow> hooks_ok (fst s) \<and> (\<forall>di \<in> set (snd s). 0 \<le> di_retry_count di \<and> di_retry_count di \<le> MAX_RETRIES)"

lemma insert_delivery_ok:
  assumes "hooks_ok hk" "sub \<in> set (hk_subscriptions hk)" "event_id \<in> pe_id ` set (st_rows (hk_store hk))"
  shows "hooks_ok (insert_delivery now event_id sub hk)"
  using assms by (fastforce simp: hooks_ok_def insert_delivery_def typed_def referenced_def MAX_RETRIES_def)

lemma insert_deliveries_ok:
  assumes "hooks_ok hk" "set subs \<subseteq> set (hk_subscriptions hk)" "event_id \<in> pe_id ` set (st_rows (hk_store hk))"
  shows "hooks_ok (fold (insert_delivery now event_id) subs hk)"
  using assms
proof (induction subs arbitrary: hk)
  case (Cons s subs)
  have "hooks_ok (insert_delivery now event_id s hk)" by (rule insert_delivery_ok) (use Cons.prems in auto)
  moreover have "hk_subscriptions (insert_delivery now event_id s hk) = hk_subscriptions hk"
    "hk_store (insert_delivery now event_id s hk) = hk_store hk" by (simp_all add: insert_delivery_def)
  ultimately show ?case using Cons by simp
qed simp

lemma queue_ok: "hooks_ok hk \<Longrightarrow> hooks_ok (queue_webhook_deliveries now event_id hk)"
proof -
  assume ok: "hooks_ok hk"
  have "hooks_ok (fold (insert_delivery now event_id) (filter P (get_active_subscriptions hk)) hk)"
    if "event_by_id event_id hk = Some r" for r P
    using that ok
    by (intro insert_deliveries_ok) (auto simp: get_active_subscriptions_def event_by_id_def find_Some_iff)
  then show ?thesis using ok by (simp add: queue_webhook_deliveries_def Let_def split: option.split)
qed

lemma finished_keeps [simp]:
  "wd_id (finished now ok code n d) = wd_id d" "wd_subscription_id (finished now ok code n d) = wd_subscription_id d"
  "wd_event_id (finished now ok code n d) = wd_event_id d"
  by (simp_all add: finished_def Let_def)

lemma finished_typed: "0 \<le> n \<Longrightarrow> n \<le> MAX_RETRIES \<Longrightarrow> typed (finished now ok code n d)"
  by (auto simp: finished_def typed_def Let_def)

lemma map_deliveries_ok:
  assumes "hooks_ok hk" "\<And>d. wd_id (f d) = wd_id d \<and> wd_subscription_id (f d) = wd_subscription_id d \<and> wd_event_id (f d) = wd_event_id d"
    and "\<And>d. typed d \<Longrightarrow> typed (f d)"
  shows "hooks_ok (hk\<lparr>hk_deliveries := map f (hk_deliveries hk)\<rparr>)"
proof -
  have "wd_id \<circ> f = wd_id" using assms(2) by auto
  then show ?thesis using assms by (auto simp: hooks_ok_def referenced_def)
qed

lemma dispatch_ok:
  assumes "hooks_ok hk" "0 \<le> di_retry_count di" "di_retry_count di \<le> MAX_RETRIES"
  shows "hooks_ok (dispatch_webhook hmac fr send instants di hk)"
  using assms finished_typed
  by (auto simp: dispatch_webhook_def update_delivery_status_def Let_def case_prod_beta intro!: map_deliveries_ok)

lemma lease_ok:
  assumes ok: "hooks_ok hk" and lease: "lease_deliveries isoformat now limit dur hk = (ds, hk')"
  shows "hooks_ok hk'" "\<And>di. di \<in> set ds \<Longrightarrow> 0 \<le> di_retry_count di \<and> di_retry_count di \<le> MAX_RETRIES"
proof -
  show "hooks_ok hk'"
    using lease ok
    by (auto simp: lease_deliveries_def Let_def typed_def split: if_splits intro!: map_deliveries_ok)
  show "0 \<le> di_retry_count di \<and> di_retry_count di \<le> MAX_RETRIES" if di: "di \<in> set ds" for di
  proof -
    obtain d where "d \<in> set (hk_deliveries hk)" "dispatch_of isoformat hk d = Some di"
      using lease di by (auto simp: lease_deliveries_def Let_def List.map_filter_def split: if_splits)
    then show ?thesis using ok by (auto simp: hooks_ok_def typed_def dispatch_of_def split: option.splits)
  qed
qed

lemma cascade_ok: "hooks_ok hk \<Longrightarrow> hooks_ok (cascade st subs hk)"
  by (auto simp: hooks_ok_def cascade_def distinct_map_filter)

lemma system_ok_step: "hook_step hmac fr isoformat s op s' \<Longrightarrow> system_ok s \<Longrightarrow> system_ok s'"
proof (induction rule: hook_step.induct)
  case (lease now limit dur hk ds hk' fl)
  then show ?case using lease_ok [of hk isoformat now limit dur ds hk'] by (auto simp: system_ok_def)
next
  case (finish di fl hk send instants)
  then show ?case using dispatch_ok set_remove1_subset [of di fl] by (auto simp: system_ok_def)
qed (simp_all add: system_ok_def queue_ok cascade_ok)

definition empty_hooks :: "Hooks \<Rightarrow> bool" where
  "empty_hooks hk \<longleftrightarrow> hk_deliveries hk = [] \<and> hk_next_id hk = 1"

interpretation hooks: invariant_system "\<lambda>s. empty_hooks (fst s) \<and> snd s = []" "hook_step hmac fr isoformat" system_ok
  for hmac fr isoformat
proof
  show "system_ok s" if "empty_hooks (fst s) \<and> snd s = []" for s
    using that by (simp add: system_ok_def empty_hooks_def hooks_ok_def)
qed (rule system_ok_step)

abbreviation hooks_reachable ::
  "(bytes \<Rightarrow> bytes \<Rightarrow> bytes) \<Rightarrow> jopts \<Rightarrow> (rat \<Rightarrow> string) \<Rightarrow> Hooks \<times> Dispatch list \<Rightarrow> bool" where
  "hooks_reachable hmac fr isoformat \<equiv> reachable (\<lambda>s. empty_hooks (fst s) \<and> snd s = []) (hook_step hmac fr isoformat)"

text \<open>
  C35: However queueing, leasing, sending by any number of dispatchers with any answers, and changes
  of the referenced tables interleave, delivery ids are unique, every delivery refers to an existing
  subscription and event, its status is one of the four of the code, its retry count lies between
  zero and five, is zero while pending, positive when failed, and five in a dead letter. A
  dispatcher never holds a retry count outside that range.
\<close>

theorem delivery_table_well_typed:
  assumes "hooks_reachable hmac fr isoformat (hk, fl)"
  shows "distinct (map wd_id (hk_deliveries hk)) \<and>
    (\<forall>d \<in> set (hk_deliveries hk). typed d \<and>
       (\<exists>s \<in> set (hk_subscriptions hk). wd_subscription_id d = su_id s) \<and>
       (\<exists>e \<in> set (st_rows (hk_store hk)). wd_event_id d = pe_id e)) \<and>
    (\<forall>di \<in> set fl. 0 \<le> di_retry_count di \<and> di_retry_count di \<le> MAX_RETRIES)"
proof -
  have "system_ok (hk, fl)" by (rule hooks.inv_reachable [OF assms])
  then show ?thesis by (auto simp: system_ok_def hooks_ok_def referenced_def image_iff)
qed

definition sample_sub :: Subscription where
  "sample_sub = \<lparr>su_id = 1, su_url = ''u'', su_secret_key = ''k'', su_is_active = True, su_event_types = None\<rparr>"

definition sample_hooks :: Hooks where
  "sample_hooks = \<lparr>hk_store = sample_store, hk_subscriptions = [sample_sub], hk_deliveries = [], hk_next_id = 1\<rparr>"

definition queued_hooks :: Hooks where
  "queued_hooks = queue_webhook_deliveries 5 1 sample_hooks"

lemma queued_hooks_eq:
  "queued_hooks = sample_hooks\<lparr>hk_deliveries := [\<lparr>wd_id = 1, wd_subscription_id = 1, wd_event_id = 1, wd_status = ''pending'',
     wd_retry_count = 0, wd_next_retry_at = 5, wd_lease_expires_at = None, wd_last_response_code = None, wd_updated_at = 5\<rparr>],
     hk_next_id := 2\<rparr>"
  by (simp add: queued_hooks_def queue_webhook_deliveries_def get_active_subscriptions_def sample_hooks_def sample_store_rows
    event_by_id_def sample_sub_def wants_def insert_delivery_def)

lemma queued_hooks_reachable: "hooks_reachable hmac fr isoformat (queued_hooks, [])"
proof -
  have "hooks_reachable hmac fr isoformat (sample_hooks, [])"
    by (rule reach_init) (simp add: empty_hooks_def sample_hooks_def)
  then show ?thesis unfolding queued_hooks_def by (rule reach_step) (rule hook_step.queue)
qed

theorem delivery_table_well_typed_witness:
  "map wd_id (hk_deliveries queued_hooks) = [1] \<and> list_all typed (hk_deliveries queued_hooks)"
  using delivery_table_well_typed [OF queued_hooks_reachable [of "\<lambda>_ _. []" "(True, \<lambda>_. [])" "\<lambda>_. []"]]
  by (simp add: queued_hooks_eq list_all_iff)

section \<open>Deliveries settle\<close>

lemma fold_updates:
  assumes "distinct (map di_delivery_id ds)" "st_configured (hk_store hk)"
  shows "fold (\<lambda>di. dispatch_webhook hmac fr send (clock (di_delivery_id di)) di) ds hk =
    hk\<lparr>hk_deliveries := map (\<lambda>d. case find (\<lambda>di. di_delivery_id di = wd_id d) ds of
        None \<Rightarrow> d
      | Some di \<Rightarrow> (case outcome (send_webhook hmac fr send (fst (clock (wd_id d))) di) of
          (ok, code) \<Rightarrow> finished (snd (clock (wd_id d))) ok code (di_retry_count di) d)) (hk_deliveries hk)\<rparr>"
  using assms
proof (induction ds arbitrary: hk)
  case (Cons di ds)
  define hk1 where "hk1 = dispatch_webhook hmac fr send (clock (di_delivery_id di)) di hk"
  define g where "g d = (case find (\<lambda>di. di_delivery_id di = wd_id d) ds of
        None \<Rightarrow> d
      | Some di \<Rightarrow> (case outcome (send_webhook hmac fr send (fst (clock (wd_id d))) di) of
          (ok, code) \<Rightarrow> finished (snd (clock (wd_id d))) ok code (di_retry_count di) d))" for d
  obtain ok code where o: "outcome (send_webhook hmac fr send (fst (clock (di_delivery_id di))) di) = (ok, code)" by fastforce
  define f where "f d = (if wd_id d = di_delivery_id di then finished (snd (clock (di_delivery_id di))) ok code (di_retry_count di) d else d)" for d
  have hk1: "hk1 = hk\<lparr>hk_deliveries := map f (hk_deliveries hk)\<rparr>"
    using Cons.prems(2) o by (simp add: hk1_def dispatch_webhook_def update_delivery_status_def f_def)
  have none: "find (\<lambda>d. di_delivery_id d = di_delivery_id di) ds = None"
    unfolding find_None_iff using Cons.prems(1) by (metis distinct.simps(2) in_set_conv_nth length_map list.simps(9) nth_map)
  have "g (f d) = (case find (\<lambda>di. di_delivery_id di = wd_id d) (di # ds) of
        None \<Rightarrow> d
      | Some di \<Rightarrow> (case outcome (send_webhook hmac fr send (fst (clock (wd_id d))) di) of
          (ok, code) \<Rightarrow> finished (snd (clock (wd_id d))) ok code (di_retry_count di) d))" for d
    using none o by (auto simp: g_def f_def)
  moreover have "fold (\<lambda>di. dispatch_webhook hmac fr send (clock (di_delivery_id di)) di) ds hk1 =
      hk1\<lparr>hk_deliveries := map g (hk_deliveries hk1)\<rparr>"
    using Cons by (simp add: hk1 g_def)
  ultimately show ?case by (simp add: hk1_def [symmetric]) (simp add: hk1)
qed simp

lemma dispatch_exists:
  assumes "hooks_ok hk" "d \<in> set (hk_deliveries hk)"
  obtains di where "dispatch_of isoformat hk d = Some di" "di_delivery_id di = wd_id d" "di_retry_count di = wd_retry_count d"
proof -
  have "find (\<lambda>s. su_id s = wd_subscription_id d) (hk_subscriptions hk) \<noteq> None"
    "event_by_id (wd_event_id d) hk \<noteq> None"
    using assms unfolding hooks_ok_def referenced_def find_None_iff event_by_id_def by fastforce+
  then show thesis using that by (auto simp: dispatch_of_def)
qed

definition settled :: "Delivery \<Rightarrow> bool" where
  "settled d \<longleftrightarrow> wd_status d = ''success'' \<or> wd_status d = ''dead_letter''"

text \<open>What a round does to a row, when the table has at most the ten rows of a lease.\<close>

lemma webhook_round_rows:
  assumes ok: "hooks_ok hk" and conf: "st_configured (hk_store hk)" and few: "length (hk_deliveries hk) \<le> 10"
  shows "\<exists>f. webhook_round hmac fr isoformat send now clock hk = hk\<lparr>hk_deliveries := map f (hk_deliveries hk)\<rparr> \<and>
    (\<forall>d \<in> set (hk_deliveries hk). if ready now d
       then \<exists>ok code. f d = finished (snd (clock (wd_id d))) ok code (wd_retry_count d) d else f d = d)"
proof -
  define ids where "ids = map wd_id (take 10 (sort_key wd_next_retry_at (filter (ready now) (hk_deliveries hk))))"
  define lease where "lease d = (if wd_id d \<in> set ids then d\<lparr>wd_lease_expires_at := Some (now + 30), wd_updated_at := now\<rparr> else d)" for d :: Delivery
  define ds where "ds = List.map_filter (dispatch_of isoformat hk) (filter (\<lambda>d. wd_id d \<in> set ids) (hk_deliveries hk))"
  define hk1 where "hk1 = hk\<lparr>hk_deliveries := map lease (hk_deliveries hk)\<rparr>"
  have inj: "inj_on wd_id (set (hk_deliveries hk))" using ok by (simp add: hooks_ok_def distinct_map)
  have "length (filter (ready now) (hk_deliveries hk)) \<le> 10" using few length_filter_le le_trans by blast
  then have ids: "set ids = wd_id ` set (filter (ready now) (hk_deliveries hk))" by (simp add: ids_def)
  have chosen: "wd_id d \<in> set ids \<longleftrightarrow> ready now d" if "d \<in> set (hk_deliveries hk)" for d
    using that inj unfolding ids by (auto dest: inj_onD)
  have "map_option di_delivery_id (dispatch_of isoformat hk d) = Some (wd_id d)" if d: "d \<in> set (hk_deliveries hk)" for d
    by (rule dispatch_exists [OF ok d, of isoformat]) simp
  then have "map di_delivery_id (List.map_filter (dispatch_of isoformat hk) (filter P xs)) = map wd_id (filter P xs)"
    if "set xs \<subseteq> set (hk_deliveries hk)" for P xs
    using that by (induction xs) (fastforce simp: List.map_filter_simps)+
  then have ids_ds: "map di_delivery_id ds = map wd_id (filter (\<lambda>d. wd_id d \<in> set ids) (hk_deliveries hk))" by (simp add: ds_def)
  have dist: "distinct (map di_delivery_id ds)"
    using ok unfolding ids_ds by (simp add: hooks_ok_def distinct_map_filter)
  define g where "g d = (case find (\<lambda>di. di_delivery_id di = wd_id d) ds of
        None \<Rightarrow> d
      | Some di \<Rightarrow> (case outcome (send_webhook hmac fr send (fst (clock (wd_id d))) di) of
          (ok, code) \<Rightarrow> finished (snd (clock (wd_id d))) ok code (di_retry_count di) d))" for d
  have run: "webhook_round hmac fr isoformat send now clock hk = hk1\<lparr>hk_deliveries := map g (hk_deliveries hk1)\<rparr>"
  proof -
    have "lease_deliveries isoformat now 10 30 hk = (ds, hk1)"
      using conf unfolding lease_deliveries_def Let_def ds_def hk1_def ids_def lease_def [abs_def] by simp
    moreover have "st_configured (hk_store hk1)" using conf by (simp add: hk1_def)
    ultimately show ?thesis
      using fold_updates [OF dist, of hk1 hmac fr send clock] unfolding webhook_round_def g_def [abs_def] by simp
  qed
  have row: "if ready now d then \<exists>ok code. g (lease d) = finished (snd (clock (wd_id d))) ok code (wd_retry_count d) d
      else g (lease d) = d" if d: "d \<in> set (hk_deliveries hk)" for d
  proof (cases "ready now d")
    case True
    then have "wd_id d \<in> set (map di_delivery_id ds)" unfolding ids_ds using chosen [OF d] d by auto
    then obtain di where find: "find (\<lambda>di. di_delivery_id di = wd_id d) ds = Some di"
      by (cases "find (\<lambda>di. di_delivery_id di = wd_id d) ds") (auto simp: find_None_iff)
    then have "di \<in> set ds" "di_delivery_id di = wd_id d" by (auto simp: find_Some_iff)
    then obtain e where e: "e \<in> set (hk_deliveries hk)" "dispatch_of isoformat hk e = Some di"
      by (auto simp: ds_def List.map_filter_def)
    then have "wd_id e = wd_id d" "di_retry_count di = wd_retry_count e"
      using \<open>di_delivery_id di = wd_id d\<close> by (auto simp: dispatch_of_def split: option.splits)
    then have "di_retry_count di = wd_retry_count d" using inj e(1) d by (auto dest: inj_onD)
    moreover have "finished t ok code n (lease d) = finished t ok code n d" for t ok code n
      by (simp add: finished_def lease_def Let_def)
    moreover have "wd_id (lease d) = wd_id d" by (simp add: lease_def)
    ultimately have "g (lease d) = (case outcome (send_webhook hmac fr send (fst (clock (wd_id d))) di) of
        (ok, code) \<Rightarrow> finished (snd (clock (wd_id d))) ok code (wd_retry_count d) d)" using find by (simp add: g_def)
    then show ?thesis using True by (auto split: prod.splits)
  next
    case False
    then have "wd_id d \<notin> set (map di_delivery_id ds)" unfolding ids_ds using chosen [OF d] by auto
    then have "find (\<lambda>di. di_delivery_id di = wd_id d) ds = None" by (force simp: find_None_iff)
    then show ?thesis using False chosen [OF d] by (simp add: g_def lease_def)
  qed
  have "webhook_round hmac fr isoformat send now clock hk = hk\<lparr>hk_deliveries := map (g \<circ> lease) (hk_deliveries hk)\<rparr>"
    using run by (simp add: hk1_def)
  then show ?thesis using row by (intro exI [of _ "g \<circ> lease"]) simp
qed

text \<open>Between rounds: the table is well formed, and an open row is due and has failed \<open>k\<close> times.\<close>

definition round_inv :: "rat \<Rightarrow> int \<Rightarrow> Hooks \<Rightarrow> bool" where
  "round_inv now k hk \<longleftrightarrow> hooks_ok hk \<and> st_configured (hk_store hk) \<and> length (hk_deliveries hk) \<le> 10 \<and>
     (\<forall>d \<in> set (hk_deliveries hk). settled d \<or> (ready now d \<and> k \<le> wd_retry_count d))"

lemma retry_delay_bound: "0 \<le> n \<Longrightarrow> n < MAX_RETRIES \<Longrightarrow> retry_delay n \<le> 86400"
proof -
  assume "0 \<le> n" "n < MAX_RETRIES"
  then have "n = 0 \<or> n = 1 \<or> n = 2 \<or> n = 3 \<or> n = 4" by (auto simp: MAX_RETRIES_def)
  then show "retry_delay n \<le> 86400" by (auto simp: retry_delay_def RETRY_BACKOFF_SECONDS_def)
qed

lemma finished_due:
  fixes ok :: bool and code :: "int option"
  assumes "typed d" "snd c + 86400 \<le> later" "k \<le> wd_retry_count d"
  defines "d' \<equiv> finished (snd c) ok code (wd_retry_count d) d"
  shows "settled d' \<or> (ready later d' \<and> k + 1 \<le> wd_retry_count d')"
proof (cases "ok \<or> MAX_RETRIES \<le> wd_retry_count d")
  case True
  then show ?thesis by (auto simp: d'_def finished_def settled_def Let_def)
next
  case False
  then have "retry_delay (wd_retry_count d) \<le> 86400" using assms(1) retry_delay_bound by (simp add: typed_def)
  then have "of_int (retry_delay (wd_retry_count d)) \<le> (86400 :: rat)"
    by (metis of_int_le_iff of_int_numeral)
  then have "snd c + of_int (retry_delay (wd_retry_count d)) \<le> later" using assms(2) by linarith
  then show ?thesis using False assms(3) by (simp add: d'_def finished_def ready_def Let_def)
qed

lemma round_inv_step:
  assumes inv: "round_inv now k hk" and later: "\<And>i. snd (clock i) + 86400 \<le> later"
  shows "round_inv later (k + 1) (webhook_round hmac fr isoformat send now clock hk)"
proof -
  have ok: "hooks_ok hk" and conf: "st_configured (hk_store hk)" and few: "length (hk_deliveries hk) \<le> 10"
    using inv by (auto simp: round_inv_def)
  obtain f where f: "webhook_round hmac fr isoformat send now clock hk = hk\<lparr>hk_deliveries := map f (hk_deliveries hk)\<rparr>"
    "\<forall>d \<in> set (hk_deliveries hk). if ready now d
       then \<exists>ok code. f d = finished (snd (clock (wd_id d))) ok code (wd_retry_count d) d else f d = d"
    using webhook_round_rows [OF ok conf few] by blast
  have keep: "typed (f d) \<and> wd_id (f d) = wd_id d \<and> wd_subscription_id (f d) = wd_subscription_id d \<and> wd_event_id (f d) = wd_event_id d"
    if d: "d \<in> set (hk_deliveries hk)" for d
  proof -
    have "typed d" using ok d by (simp add: hooks_ok_def)
    moreover have "0 \<le> wd_retry_count d" "wd_retry_count d \<le> MAX_RETRIES" using calculation by (simp_all add: typed_def)
    ultimately show ?thesis using bspec [OF f(2) d] finished_typed by (auto split: if_splits)
  qed
  have "map wd_id (map f (hk_deliveries hk)) = map wd_id (hk_deliveries hk)" using keep by simp
  then have ok': "hooks_ok (hk\<lparr>hk_deliveries := map f (hk_deliveries hk)\<rparr>)"
    using ok keep by (auto simp: hooks_ok_def referenced_def simp del: map_map)
  have "settled (f d) \<or> (ready later (f d) \<and> k + 1 \<le> wd_retry_count (f d))" if d: "d \<in> set (hk_deliveries hk)" for d
  proof (cases "ready now d")
    case True
    then obtain b code where fd: "f d = finished (snd (clock (wd_id d))) b code (wd_retry_count d) d" using bspec [OF f(2) d] by auto
    have "typed d" using ok d by (simp add: hooks_ok_def)
    moreover have "\<not> settled d" using True by (auto simp: ready_def settled_def)
    then have "k \<le> wd_retry_count d" using inv d by (auto simp: round_inv_def)
    ultimately show ?thesis unfolding fd using finished_due later by blast
  next
    case False
    then have "f d = d" using bspec [OF f(2) d] by simp
    then show ?thesis using inv d False by (auto simp: round_inv_def)
  qed
  then show ?thesis using f(1) ok' conf few by (auto simp: round_inv_def)
qed

definition rounds ::
  "(bytes \<Rightarrow> bytes \<Rightarrow> bytes) \<Rightarrow> jopts \<Rightarrow> (rat \<Rightarrow> string) \<Rightarrow> (nat \<Rightarrow> sender) \<Rightarrow> (nat \<Rightarrow> rat) \<Rightarrow> (nat \<Rightarrow> int \<Rightarrow> rat \<times> rat) \<Rightarrow> nat \<Rightarrow> Hooks \<Rightarrow> Hooks" where
  "rounds hmac fr isoformat send now clock n hk =
     fold (\<lambda>k. webhook_round hmac fr isoformat (send k) (now k) (clock k)) [0..<n] hk"

lemma rounds_inv:
  assumes "round_inv (now 0) 0 hk" "\<And>k i. snd (clock k i) + 86400 \<le> now (Suc k)"
  shows "round_inv (now n) (int n) (rounds hmac fr isoformat send now clock n hk)"
proof (induction n)
  case 0
  then show ?case using assms(1) by (simp add: rounds_def)
next
  case (Suc n)
  have "round_inv (now (Suc n)) (int n + 1)
    (webhook_round hmac fr isoformat (send n) (now n) (clock n) (rounds hmac fr isoformat send now clock n hk))"
    by (rule round_inv_step [OF Suc assms(2)])
  then show ?case by (simp add: rounds_def add.commute)
qed



end
