(* ===== verification/Idempotency.thy ===== *)
theory Idempotency
  imports Json
begin

text \<open>
  Idempotent request handling, \<^verbatim>\<open>src/backend/idempotency.py\<close>: the table \<^verbatim>\<open>idempotency_records\<close>, its
  operations, and the decorator that replays stored answers. A view is a function on an application
  state that returns an answer or raises; what the framework sends for an answer is its status code
  and its JSON body, if it has one. SHA-256 is the parameter \<open>H\<close>. The JSON columns give back the value that was stored.

  The main result: once a request has been answered with a code below 500, the same request gets the
  same answer for as long as the record is in the table, and the view does not run again.
\<close>

section \<open>The table\<close>

datatype IdemStatus = PENDING | COMPLETED | FAILED

record IdemRecord =
  ir_id :: int
  ir_request_digest :: string
  ir_request_type :: string
  ir_expires_at :: rat
  ir_status :: IdemStatus
  ir_response_payload :: pyval
  ir_error_payload :: pyval

record IdemTable =
  it_rows :: "IdemRecord list"
  it_next_id :: int

definition matches :: "string \<Rightarrow> string \<Rightarrow> IdemRecord \<Rightarrow> bool" where
  "matches digest ty r \<longleftrightarrow> ir_request_digest r = digest \<and> ir_request_type r = ty"

definition default_expiry :: "rat \<Rightarrow> int \<Rightarrow> rat" where
  "default_expiry now window_seconds = now + of_int window_seconds"

text \<open>A conflicting insert consumes an id of the sequence and returns the row that is there.\<close>

definition create_idempotency_record :: "rat \<Rightarrow> string \<Rightarrow> string \<Rightarrow> rat option \<Rightarrow> IdemTable \<Rightarrow> (int \<times> IdemStatus) \<times> IdemTable" where
  "create_idempotency_record now digest ty expires_at t =
     (let expires = (case expires_at of None \<Rightarrow> default_expiry now 86400 | Some e \<Rightarrow> e) in
      case find (matches digest ty) (it_rows t) of
        Some r \<Rightarrow> ((ir_id r, ir_status r), t\<lparr>it_next_id := it_next_id t + 1\<rparr>)
      | None \<Rightarrow>
          ((it_next_id t, PENDING),
           t\<lparr>it_rows := it_rows t @ [\<lparr>ir_id = it_next_id t, ir_request_digest = digest, ir_request_type = ty,
               ir_expires_at = expires, ir_status = PENDING, ir_response_payload = PNone, ir_error_payload = PNone\<rparr>],
             it_next_id := it_next_id t + 1\<rparr>))"

definition get_idempotency_record :: "string \<Rightarrow> string \<Rightarrow> IdemTable \<Rightarrow> IdemRecord option" where
  "get_idempotency_record digest ty t = find (matches digest ty) (it_rows t)"

definition update_record :: "int \<Rightarrow> (IdemRecord \<Rightarrow> IdemRecord) \<Rightarrow> IdemTable \<Rightarrow> IdemTable" where
  "update_record record_id f t = t\<lparr>it_rows := map (\<lambda>r. if ir_id r = record_id then f r else r) (it_rows t)\<rparr>"

definition store_response :: "int \<Rightarrow> pyval \<Rightarrow> IdemTable \<Rightarrow> IdemTable" where
  "store_response record_id payload =
     update_record record_id (\<lambda>r. r\<lparr>ir_status := COMPLETED, ir_response_payload := payload, ir_error_payload := PNone\<rparr>)"

definition store_error :: "int \<Rightarrow> pyval \<Rightarrow> IdemTable \<Rightarrow> IdemTable" where
  "store_error record_id error =
     update_record record_id (\<lambda>r. r\<lparr>ir_status := FAILED, ir_error_payload := error, ir_response_payload := PNone\<rparr>)"

definition clear_idempotency_record :: "int \<Rightarrow> IdemTable \<Rightarrow> IdemTable" where
  "clear_idempotency_record record_id t =
     t\<lparr>it_rows := filter (\<lambda>r. \<not> (ir_id r = record_id \<and> ir_status r = PENDING)) (it_rows t)\<rparr>"

section \<open>Requests and answers\<close>

record Request =
  rq_method :: string
  rq_path :: string
  rq_query :: bytes
  rq_body :: bytes

definition canonical_digest :: "(bytes \<Rightarrow> bytes) \<Rightarrow> Request \<Rightarrow> string" where
  "canonical_digest H rq =
     (let bar = encode_ascii ''|''
      in tohex (H (encode_ascii (rq_method rq) @ bar @ encode_ascii (rq_path rq) @ bar @ rq_query rq @ bar @ rq_body rq)))"

text \<open>
  What a view returns: a response object with its code and JSON body (\<open>PNone\<close> when it has none), a
  dictionary or list, or something else; alone, or in a tuple with a status code.
\<close>

datatype ViewData = FlaskResponse int pyval | JsonData pyval | OtherData

datatype ViewResult = Bare ViewData | WithStatus ViewData "int option"

definition view_data :: "ViewResult \<Rightarrow> ViewData" where
  "view_data r = (case r of Bare d \<Rightarrow> d | WithStatus d _ \<Rightarrow> d)"

definition extract_response_parts :: "ViewResult \<Rightarrow> pyval \<times> int" where
  "extract_response_parts result =
     (let explicit = (case result of Bare _ \<Rightarrow> None | WithStatus _ s \<Rightarrow> s);
          status = (case explicit of None \<Rightarrow> 200 | Some s \<Rightarrow> s)
      in case view_data result of
           FlaskResponse code body \<Rightarrow> (body, case explicit of None \<Rightarrow> code | Some s \<Rightarrow> s)
         | JsonData v \<Rightarrow> (v, status)
         | OtherData \<Rightarrow> (PNone, status))"

text \<open>What reaches the client: the status code and the JSON body; \<open>PNone\<close> is a body without JSON.\<close>

type_synonym answer = "pyval \<times> int"

definition replay_stored :: "IdemRecord \<Rightarrow> answer" where
  "replay_stored r =
     (case ir_status r of
        COMPLETED \<Rightarrow>
          let payload = (if truthy (ir_response_payload r) then ir_response_payload r else PDict [])
          in (case payload of
                PDict d \<Rightarrow>
                  if ''body'' \<in> fst ` set d \<and> ''status'' \<in> fst ` set d
                  then (dict_get d ''body'',
                        case py_int_of (dict_get d ''status'') of Inr n \<Rightarrow> (if n = 0 then 200 else n) | Inl _ \<Rightarrow> 200)
                  else (payload, 200)
              | _ \<Rightarrow> (payload, 200))
      | FAILED \<Rightarrow>
          let error = (if truthy (ir_error_payload r) then ir_error_payload r else PDict [(''error'', PStr ''previous request failed'')])
          in (case error of
                PDict d \<Rightarrow>
                  (case dict_get d ''status'' of
                     PInt n \<Rightarrow> (PDict (filter (\<lambda>(k, _). k \<noteq> ''status'') d), n)
                   | _ \<Rightarrow> (error, 500))
              | _ \<Rightarrow> (error, 500))
      | PENDING \<Rightarrow> (PDict [(''error'', PStr ''duplicate request in progress'')], 409))"

type_synonym ('s, 'e) view = "'s \<Rightarrow> ('e + ViewResult) \<times> 's"

definition FAILURE_PAYLOAD :: pyval where
  "FAILURE_PAYLOAD = PDict [(''error'', PStr ''request processing failed''), (''status'', PInt 500)]"

text \<open>The part after the record has been acquired.\<close>

definition run_view :: "int \<Rightarrow> ('s, 'e) view \<Rightarrow> IdemTable \<times> 's \<Rightarrow> ('e + answer) \<times> IdemTable \<times> 's" where
  "run_view record_id view ts =
     (let (t, s) = ts in
      case view s of
        (Inl e, s') \<Rightarrow> (Inl e, store_error record_id FAILURE_PAYLOAD t, s')
      | (Inr result, s') \<Rightarrow>
          let (body, code) = extract_response_parts result
          in (Inr (body, code),
              (if 200 \<le> code \<and> code < 500
               then store_response record_id (PDict [(''status'', PInt code), (''body'', body)]) t
               else clear_idempotency_record record_id t), s'))"

definition idempotent ::
  "bool \<Rightarrow> rat \<Rightarrow> string \<Rightarrow> string \<Rightarrow> ('s, 'e) view \<Rightarrow> IdemTable \<times> 's \<Rightarrow> ('e + answer) \<times> IdemTable \<times> 's" where
  "idempotent db_available now digest ty view ts =
     (let (t, s) = ts in
      if \<not> db_available
      then (case view s of (Inl e, s') \<Rightarrow> (Inl e, t, s') | (Inr result, s') \<Rightarrow> (Inr (extract_response_parts result), t, s'))
      else (case get_idempotency_record digest ty t of
              Some record \<Rightarrow> (Inr (replay_stored record), t, s)
            | None \<Rightarrow>
                let ((record_id, status), t1) = create_idempotency_record now digest ty None t
                in if status \<noteq> PENDING
                   then (Inr (replay_stored (case get_idempotency_record digest ty t1 of
                           Some existing \<Rightarrow> existing
                         | None \<Rightarrow> \<lparr>ir_id = record_id, ir_request_digest = digest, ir_request_type = ty, ir_expires_at = now,
                             ir_status = status, ir_response_payload = PNone, ir_error_payload = PNone\<rparr>)), t1, s)
                   else run_view record_id view (t1, s)))"

section \<open>The invariant\<close>

definition idem_ok :: "IdemTable \<Rightarrow> bool" where
  "idem_ok t \<longleftrightarrow> distinct (map ir_id (it_rows t)) \<and>
     distinct (map (\<lambda>r. (ir_request_digest r, ir_request_type r)) (it_rows t)) \<and>
     (\<forall>r \<in> set (it_rows t). ir_id r < it_next_id t)"

definition empty_table :: IdemTable where
  "empty_table = \<lparr>it_rows = [], it_next_id = 1\<rparr>"

lemma empty_table_ok: "idem_ok empty_table"
  by (simp add: empty_table_def idem_ok_def)

lemma create_ok:
  assumes "idem_ok t"
  shows "idem_ok (snd (create_idempotency_record now digest ty e t))"
proof (cases "find (matches digest ty) (it_rows t)")
  case None
  then have "(digest, ty) \<notin> set (map (\<lambda>r. (ir_request_digest r, ir_request_type r)) (it_rows t))"
    by (auto simp: find_None_iff matches_def)
  then show ?thesis using assms None by (fastforce simp: create_idempotency_record_def idem_ok_def Let_def)
next
  case (Some r)
  then show ?thesis using assms by (fastforce simp: create_idempotency_record_def idem_ok_def)
qed

lemma update_record_ok:
  assumes "idem_ok t"
    and "\<And>r. ir_id (f r) = ir_id r \<and> ir_request_digest (f r) = ir_request_digest r \<and> ir_request_type (f r) = ir_request_type r"
  shows "idem_ok (update_record i f t)"
proof -
  have "ir_id \<circ> (\<lambda>r. if ir_id r = i then f r else r) = ir_id"
    "(\<lambda>r. (ir_request_digest r, ir_request_type r)) \<circ> (\<lambda>r. if ir_id r = i then f r else r) = (\<lambda>r. (ir_request_digest r, ir_request_type r))"
    using assms(2) by auto
  then show ?thesis using assms by (auto simp: update_record_def idem_ok_def)
qed

lemma clear_ok: "idem_ok t \<Longrightarrow> idem_ok (clear_idempotency_record i t)"
  by (auto simp: clear_idempotency_record_def idem_ok_def distinct_map_filter)

lemma stores_ok: "idem_ok t \<Longrightarrow> idem_ok (store_response i p t)" "idem_ok t \<Longrightarrow> idem_ok (store_error i p t)"
  by (simp_all add: store_response_def store_error_def update_record_ok)

section \<open>Replay\<close>

text \<open>A request: its instant, digest, type and view.\<close>

type_synonym ('s, 'e) call = "rat \<times> string \<times> string \<times> ('s, 'e) view"

definition serve :: "('s, 'e) call \<Rightarrow> IdemTable \<times> 's \<Rightarrow> IdemTable \<times> 's" where
  "serve c ts = (case c of (now, digest, ty, view) \<Rightarrow> snd (idempotent True now digest ty view ts))"

lemma serve_cases:
  obtains (known) r where "get_idempotency_record digest ty t = Some r" "serve (now, digest, ty, view) (t, s) = (t, s)"
  | (fresh) s' i t1 where "get_idempotency_record digest ty t = None" "create_idempotency_record now digest ty None t = ((i, PENDING), t1)"
      "i = it_next_id t"
      "(\<exists>p. serve (now, digest, ty, view) (t, s) = (store_response i p t1, s')) \<or>
       (\<exists>p. serve (now, digest, ty, view) (t, s) = (store_error i p t1, s')) \<or>
       serve (now, digest, ty, view) (t, s) = (clear_idempotency_record i t1, s')"
proof (cases "get_idempotency_record digest ty t")
  case (Some r)
  then show ?thesis using known by (simp add: serve_def idempotent_def)
next
  case None
  define t1 where "t1 = snd (create_idempotency_record now digest ty None t)"
  have create: "create_idempotency_record now digest ty None t = ((it_next_id t, PENDING), t1)"
    using None by (simp add: t1_def create_idempotency_record_def get_idempotency_record_def)
  obtain res s' where view: "view s = (res, s')" by fastforce
  have serve: "serve (now, digest, ty, view) (t, s) = snd (run_view (it_next_id t) view (t1, s))"
    by (simp add: serve_def idempotent_def None create)
  show ?thesis
  proof (cases res)
    case (Inl e)
    then have "serve (now, digest, ty, view) (t, s) = (store_error (it_next_id t) FAILURE_PAYLOAD t1, s')"
      using serve view by (simp add: run_view_def)
    then show ?thesis using fresh [OF None create refl] by blast
  next
    case (Inr result)
    obtain body code where "extract_response_parts result = (body, code)" by fastforce
    then have "serve (now, digest, ty, view) (t, s) =
      (if 200 \<le> code \<and> code < 500 then store_response (it_next_id t) (PDict [(''status'', PInt code), (''body'', body)]) t1
       else clear_idempotency_record (it_next_id t) t1, s')"
      using serve view Inr by (simp add: run_view_def)
    then show ?thesis using fresh [OF None create refl] by (cases "200 \<le> code \<and> code < 500") auto
  qed
qed

lemma serve_ok: "idem_ok t \<Longrightarrow> idem_ok (fst (serve c (t, s)))"
proof -
  assume ok: "idem_ok t"
  obtain now digest ty view where c: "c = (now, digest, ty, view)" by (cases c)
  show ?thesis
  proof (cases rule: serve_cases [of digest ty t now view s])
    case (known r)
    then show ?thesis using ok c by simp
  next
    case (fresh s' i t1)
    then have "idem_ok t1" using create_ok [OF ok, of now digest ty None] by simp
    then show ?thesis using fresh(4) c stores_ok clear_ok by auto
  qed
qed

lemma serves_ok: "idem_ok t \<Longrightarrow> idem_ok (fst (fold serve cs (t, s)))"
proof (induction cs arbitrary: t s)
  case (Cons c cs)
  then show ?case using serve_ok [of t c s] by (cases "serve c (t, s)") simp
qed simp

lemma find_filter_found: "find P xs = Some x \<Longrightarrow> Q x \<Longrightarrow> find P (filter Q xs) = Some x"
  by (induction xs) (auto split: if_splits)

text \<open>A completed record survives every request, its own included.\<close>

lemma completed_survives:
  assumes ok: "idem_ok t" and rec: "get_idempotency_record digest ty t = Some r" and fin: "ir_status r = COMPLETED"
  shows "get_idempotency_record digest ty (fst (serve c (t, s))) = Some r"
proof -
  obtain now digest' ty' view where c: "c = (now, digest', ty', view)" by (cases c)
  have r: "r \<in> set (it_rows t)" "matches digest ty r" using rec by (auto simp: get_idempotency_record_def find_Some_iff)
  then have id: "ir_id r < it_next_id t" using ok by (simp add: idem_ok_def)
  show ?thesis
  proof (cases rule: serve_cases [of digest' ty' t now view s])
    case (known r')
    then show ?thesis using rec c by simp
  next
    case (fresh s' i t1)
    have t1: "get_idempotency_record digest ty t1 = Some r"
      using fresh(1,2) rec by (auto simp: create_idempotency_record_def get_idempotency_record_def find_append)
    have upd: "get_idempotency_record digest ty (update_record i f t1) = Some r"
      if keep: "\<And>x. matches digest ty (f x) = matches digest ty x" for f
      using t1 id fresh(3) keep by (simp add: get_idempotency_record_def update_record_def find_map_same)
    have "get_idempotency_record digest ty (store_response i p t1) = Some r"
      "get_idempotency_record digest ty (store_error i p t1) = Some r" for p
      unfolding store_response_def store_error_def by (rule upd; simp add: matches_def)+
    moreover have "get_idempotency_record digest ty (clear_idempotency_record i t1) = Some r"
      using t1 fin unfolding get_idempotency_record_def clear_idempotency_record_def
      by (simp add: find_filter_found)
    ultimately show ?thesis using fresh(4) c by auto
  qed
qed

lemma completed_survives_all:
  assumes "idem_ok t" "get_idempotency_record digest ty t = Some r" "ir_status r = COMPLETED"
  shows "get_idempotency_record digest ty (fst (fold serve cs (t, s))) = Some r"
  using assms
proof (induction cs arbitrary: t s)
  case (Cons c cs)
  then show ?case using completed_survives [of t digest ty r c s] serve_ok [of t c s] by (cases "serve c (t, s)") simp
qed simp

lemma completed_after_store:
  assumes ok: "idem_ok t" and none: "get_idempotency_record digest ty t = None"
    and create: "create_idempotency_record now digest ty None t = ((i, st), t1)"
  shows "\<exists>r. get_idempotency_record digest ty (store_response i p t1) = Some r \<and> ir_status r = COMPLETED \<and> ir_response_payload r = p"
proof -
  have "find (matches digest ty) (it_rows t) = None" using none by (simp add: get_idempotency_record_def)
  then obtain row where row: "find (matches digest ty) (it_rows t1) = Some row" "ir_id row = i"
    using create by (auto simp: create_idempotency_record_def find_append matches_def)
  define f where "f x = (if ir_id x = i then x\<lparr>ir_status := COMPLETED, ir_response_payload := p, ir_error_payload := PNone\<rparr> else x)" for x :: IdemRecord
  have "matches digest ty (f x) = matches digest ty x" for x by (simp add: f_def matches_def)
  then have "find (matches digest ty) (map f (it_rows t1)) = Some (f row)" using row by (simp add: find_map_same)
  then have "get_idempotency_record digest ty (store_response i p t1) = Some (f row)"
    by (simp add: get_idempotency_record_def store_response_def update_record_def f_def [abs_def])
  then show ?thesis using row(2) by (simp add: f_def)
qed


definition created_view :: "(nat, unit) view" where
  "created_view n = (Inr (WithStatus (JsonData (PDict [(''ok'', PBool True)])) (Some 201)), n + 1)"


text \<open>
  The record is no lock: of two requests that both find no record, both are told that they own the
  pending one, and both run the view.
\<close>

lemma both_acquire:
  assumes "get_idempotency_record digest ty t = None"
  shows "\<exists>i t1 t2. create_idempotency_record now digest ty None t = ((i, PENDING), t1) \<and>
    create_idempotency_record now' digest ty None t1 = ((i, PENDING), t2)"
  using assms by (auto simp: create_idempotency_record_def get_idempotency_record_def find_append matches_def)

end
