(* ===== verification/Rfc3161_Chain.thy ===== *)
theory Rfc3161_Chain
  imports Json Base64
begin

text \<open>
  Validation of the certificate chain of a timestamp authority, \<^verbatim>\<open>src/backend/rfc3161_chain.py\<close>. The
  library \<^verbatim>\<open>cryptography\<close> is two parameters: \<open>load\<close> parses a DER certificate (\<open>None\<close> when it raises), and
  \<open>vouches issuer subject\<close> is the signature check of \<^verbatim>\<open>_verify_signature\<close> with its three branches. A
  certificate is the record of the fields the module reads. SHA-256 is \<open>H\<close>; instants are rationals.

  The main result describes the accepted chains exactly.
\<close>

section \<open>Bounds and results\<close>

definition MAX_CERTS_PER_CHAIN :: nat where
  "MAX_CERTS_PER_CHAIN = 8"

definition MAX_CERT_DER_BYTES :: nat where
  "MAX_CERT_DER_BYTES = 8192"

definition MAX_CHAIN_TOTAL_BYTES :: nat where
  "MAX_CHAIN_TOTAL_BYTES = 32768"

definition MAX_TRUST_STORE_ROOTS :: nat where
  "MAX_TRUST_STORE_ROOTS = 64"

definition SUPPORTED_HASH_OIDS :: "string list" where
  "SUPPORTED_HASH_OIDS =
     [''1.2.840.113549.1.1.11'', ''1.2.840.113549.1.1.12'', ''1.2.840.113549.1.1.13'',
      ''1.2.840.10045.4.3.2'', ''1.2.840.10045.4.3.3'', ''1.2.840.10045.4.3.4'']"

datatype ChainErrorCode =
    DEPENDENCY_FAILURE | EMPTY_CHAIN | OVERSIZED_CHAIN | MALFORMED_CERTIFICATE | UNSUPPORTED_ALGORITHM
  | CHAIN_ORDER_INVALID | EXPIRED_CERTIFICATE | NOT_YET_VALID | REVOKED_CERTIFICATE | UNTRUSTED_ROOT | SIGNATURE_INVALID

fun code_value :: "ChainErrorCode \<Rightarrow> string" where
  "code_value DEPENDENCY_FAILURE = ''dependency_failure''"
| "code_value EMPTY_CHAIN = ''empty_chain''"
| "code_value OVERSIZED_CHAIN = ''oversized_chain''"
| "code_value MALFORMED_CERTIFICATE = ''malformed_certificate''"
| "code_value UNSUPPORTED_ALGORITHM = ''unsupported_algorithm''"
| "code_value CHAIN_ORDER_INVALID = ''chain_order_invalid''"
| "code_value EXPIRED_CERTIFICATE = ''expired_certificate''"
| "code_value NOT_YET_VALID = ''not_yet_valid''"
| "code_value REVOKED_CERTIFICATE = ''revoked_certificate''"
| "code_value UNTRUSTED_ROOT = ''untrusted_root''"
| "code_value SIGNATURE_INVALID = ''signature_invalid''"

record ChainValidationResult =
  cr_ok :: bool
  cr_status :: string
  cr_error_code :: "string option"
  cr_error_message :: "string option"
  cr_leaf_fingerprint :: "string option"
  cr_root_fingerprint :: "string option"
  cr_depth :: nat

definition opt_val :: "string option \<Rightarrow> pyval" where
  "opt_val v = (case v of None \<Rightarrow> PNone | Some s \<Rightarrow> PStr s)"

definition to_dict :: "ChainValidationResult \<Rightarrow> (string \<times> pyval) list" where
  "to_dict r =
     [(''ok'', PBool (cr_ok r)), (''status'', PStr (cr_status r)), (''errorCode'', opt_val (cr_error_code r)),
      (''errorMessage'', opt_val (cr_error_message r)), (''leafFingerprint'', opt_val (cr_leaf_fingerprint r)),
      (''rootFingerprint'', opt_val (cr_root_fingerprint r)), (''depth'', PInt (int (cr_depth r)))]"

record Cert =
  x5_subject :: string
  x5_issuer :: string
  x5_serial_number :: int
  x5_not_before :: rat
  x5_not_after :: rat
  x5_algorithm_oid :: string

record TrustStore =
  ts_root_der_list :: "bytes list"
  ts_revoked_serials_hex :: "string list"

text \<open>What building a trust store raises.\<close>

datatype StoreRaise = RootValueError string | RootAttributeError

definition make_trust_store :: "bytes list \<Rightarrow> string list \<Rightarrow> StoreRaise + TrustStore" where
  "make_trust_store roots revoked =
     (if MAX_TRUST_STORE_ROOTS < length roots then Inl (RootValueError ''trust store exceeds maximum root count'')
      else Inr \<lparr>ts_root_der_list = roots, ts_revoked_serials_hex = revoked\<rparr>)"

definition fingerprint_der :: "(bytes \<Rightarrow> bytes) \<Rightarrow> bytes \<Rightarrow> string" where
  "fingerprint_der H der = tohex (H der)"

text \<open>A dictionary comprehension: a repeated key keeps its place and takes the last value.\<close>

definition root_by_fingerprint :: "(bytes \<Rightarrow> bytes) \<Rightarrow> TrustStore \<Rightarrow> (string \<times> bytes) list" where
  "root_by_fingerprint H ts = fold (\<lambda>der d. AList.update (fingerprint_der H der) der d) (ts_root_der_list ts) []"

definition chain_fail :: "string \<Rightarrow> ChainErrorCode \<Rightarrow> string \<Rightarrow> string option \<Rightarrow> string option \<Rightarrow> nat \<Rightarrow> ChainValidationResult" where
  "chain_fail status code message leaf_fp root_fp depth =
     \<lparr>cr_ok = False, cr_status = status, cr_error_code = Some (code_value code), cr_error_message = Some message,
      cr_leaf_fingerprint = leaf_fp, cr_root_fingerprint = root_fp, cr_depth = depth\<rparr>"

section \<open>Validation\<close>

fun decode_entries_from :: "nat \<Rightarrow> pyval list \<Rightarrow> ChainValidationResult + bytes list" where
  "decode_entries_from seen [] = Inr []"
| "decode_entries_from seen (e # es) =
     (case e of
        PStr s \<Rightarrow>
          if s = [] then Inl (chain_fail ''invalid'' MALFORMED_CERTIFICATE ''certificate entry must be a non-empty base64 string'' None None 0)
          else (case b64_strict s of
                  None \<Rightarrow> Inl (chain_fail ''invalid'' MALFORMED_CERTIFICATE ''certificate entry is not valid base64'' None None 0)
                | Some der \<Rightarrow>
                    if MAX_CERT_DER_BYTES < length der
                    then Inl (chain_fail ''invalid'' OVERSIZED_CHAIN ''certificate exceeds 8192 bytes'' None None 0)
                    else if MAX_CHAIN_TOTAL_BYTES < seen + length der
                    then Inl (chain_fail ''invalid'' OVERSIZED_CHAIN ''certificate chain exceeds 32768 bytes total'' None None 0)
                    else andthen (decode_entries_from (seen + length der) es) (\<lambda>ders. Inr (der # ders)))
      | _ \<Rightarrow> Inl (chain_fail ''invalid'' MALFORMED_CERTIFICATE ''certificate entry must be a non-empty base64 string'' None None 0))"

definition decode_cert_entries :: "pyval list \<Rightarrow> ChainValidationResult + bytes list" where
  "decode_cert_entries entries =
     (if entries = [] then Inl (chain_fail ''invalid'' EMPTY_CHAIN ''certificate chain is empty'' None None 0)
      else if MAX_CERTS_PER_CHAIN < length entries
      then Inl (chain_fail ''invalid'' OVERSIZED_CHAIN ''certificate chain exceeds 8 certificates'' None None 0)
      else decode_entries_from 0 entries)"

text \<open>The loop that parses the certificates and checks their algorithms; \<open>depth\<close> counts those accepted so far.\<close>

fun load_certs :: "(bytes \<Rightarrow> Cert option) \<Rightarrow> string \<Rightarrow> nat \<Rightarrow> bytes list \<Rightarrow> ChainValidationResult + Cert list" where
  "load_certs load leaf_fp depth [] = Inr []"
| "load_certs load leaf_fp depth (der # ders) =
     (case load der of
        None \<Rightarrow> Inl (chain_fail ''invalid'' MALFORMED_CERTIFICATE ''certificate DER could not be parsed'' None None 0)
      | Some cert \<Rightarrow>
          if x5_algorithm_oid cert \<notin> set SUPPORTED_HASH_OIDS
          then Inl (chain_fail ''untrusted'' UNSUPPORTED_ALGORITHM ''certificate uses an unsupported signature algorithm'' (Some leaf_fp) None depth)
          else andthen (load_certs load leaf_fp (depth + 1) ders) (\<lambda>certs. Inr (cert # certs)))"

definition validity_at :: "Cert \<Rightarrow> rat \<Rightarrow> ChainValidationResult option" where
  "validity_at cert at_time =
     (if at_time < x5_not_before cert
      then Some (chain_fail ''invalid'' NOT_YET_VALID ''certificate is not yet valid at evaluation time'' None None 0)
      else if x5_not_after cert < at_time
      then Some (chain_fail ''expired'' EXPIRED_CERTIFICATE ''certificate expired at evaluation time'' None None 0)
      else None)"

definition check_validity :: "rat \<Rightarrow> string \<Rightarrow> nat \<Rightarrow> Cert list \<Rightarrow> ChainValidationResult + unit" where
  "check_validity at_time leaf_fp depth certs =
     foreach (\<lambda>cert _. case validity_at cert at_time of
                None \<Rightarrow> Inr ()
              | Some verr \<Rightarrow> Inl (verr\<lparr>cr_leaf_fingerprint := Some leaf_fp, cr_depth := depth\<rparr>)) certs ()"

text \<open>\<open>format(n, "x")\<close>.\<close>

fun hex_nat :: "nat \<Rightarrow> string" where
  "hex_nat n = (if n < 16 then [hex_char n] else hex_nat (n div 16) @ [hex_char (n mod 16)])"

definition format_hex :: "int \<Rightarrow> string" where
  "format_hex i = (if i < 0 then CHR ''-'' # hex_nat (nat (- i)) else hex_nat (nat i))"

definition check_revocation :: "TrustStore \<Rightarrow> string \<Rightarrow> nat \<Rightarrow> Cert list \<Rightarrow> ChainValidationResult + unit" where
  "check_revocation ts leaf_fp depth certs =
     foreach (\<lambda>cert _. if format_hex (x5_serial_number cert) \<in> set (ts_revoked_serials_hex ts)
                then Inl (chain_fail ''invalid'' REVOKED_CERTIFICATE ''certificate serial is present in revocation set'' (Some leaf_fp) None depth)
                else Inr ()) certs ()"

fun check_links :: "(Cert \<Rightarrow> Cert \<Rightarrow> bool) \<Rightarrow> string \<Rightarrow> nat \<Rightarrow> Cert list \<Rightarrow> ChainValidationResult + unit" where
  "check_links vouches leaf_fp depth (subject # issuer # certs) =
     (if x5_issuer subject \<noteq> x5_subject issuer
      then Inl (chain_fail ''invalid'' CHAIN_ORDER_INVALID ''certificate issuer/subject linkage is broken'' (Some leaf_fp) None depth)
      else if \<not> vouches issuer subject
      then Inl (chain_fail ''invalid'' SIGNATURE_INVALID ''certificate signature verification failed'' (Some leaf_fp) None depth)
      else check_links vouches leaf_fp depth (issuer # certs))"
| "check_links vouches leaf_fp depth _ = Inr ()"

text \<open>The loop over the trusted roots, in the order of the dictionary.\<close>

definition issues :: "(bytes \<Rightarrow> Cert option) \<Rightarrow> (Cert \<Rightarrow> Cert \<Rightarrow> bool) \<Rightarrow> Cert \<Rightarrow> bytes \<Rightarrow> bool" where
  "issues load vouches cert root_der =
     (case load root_der of None \<Rightarrow> False | Some anchor \<Rightarrow> x5_issuer cert = x5_subject anchor \<and> vouches anchor cert)"

fun find_root ::
  "(bytes \<Rightarrow> Cert option) \<Rightarrow> (Cert \<Rightarrow> Cert \<Rightarrow> bool) \<Rightarrow> rat \<Rightarrow> string \<Rightarrow> nat \<Rightarrow> Cert \<Rightarrow> (string \<times> bytes) list \<Rightarrow> ChainValidationResult + string" where
  "find_root load vouches at_time leaf_fp depth cert [] =
     Inl (chain_fail ''untrusted'' UNTRUSTED_ROOT ''certificate chain does not terminate at a configured trust root'' (Some leaf_fp) None depth)"
| "find_root load vouches at_time leaf_fp depth cert ((root_fp, root_der) # roots) =
     (if \<not> issues load vouches cert root_der then find_root load vouches at_time leaf_fp depth cert roots
      else (case validity_at (the (load root_der)) at_time of
              Some rvalid \<Rightarrow> Inl (rvalid\<lparr>cr_leaf_fingerprint := Some leaf_fp, cr_root_fingerprint := Some root_fp, cr_depth := depth\<rparr>)
            | None \<Rightarrow> Inr root_fp))"

definition resolve_anchor ::
  "(bytes \<Rightarrow> bytes) \<Rightarrow> (bytes \<Rightarrow> Cert option) \<Rightarrow> (Cert \<Rightarrow> Cert \<Rightarrow> bool) \<Rightarrow> TrustStore \<Rightarrow> rat \<Rightarrow> string \<Rightarrow> nat \<Rightarrow> bytes \<Rightarrow> Cert
   \<Rightarrow> ChainValidationResult + string" where
  "resolve_anchor H load vouches ts at_time leaf_fp depth last_der cert =
     (let root_candidates = root_by_fingerprint H ts; last_fp = fingerprint_der H last_der in
      if last_fp \<in> fst ` set root_candidates
      then if x5_issuer cert = x5_subject cert \<and> \<not> vouches cert cert
           then Inl (chain_fail ''invalid'' SIGNATURE_INVALID ''trust anchor self-signature verification failed'' (Some leaf_fp) (Some last_fp) depth)
           else Inr last_fp
      else find_root load vouches at_time leaf_fp depth cert root_candidates)"

definition chain_checks ::
  "(bytes \<Rightarrow> bytes) \<Rightarrow> (bytes \<Rightarrow> Cert option) \<Rightarrow> (Cert \<Rightarrow> Cert \<Rightarrow> bool) \<Rightarrow> TrustStore \<Rightarrow> rat \<Rightarrow> pyval list \<Rightarrow> ChainValidationResult + ChainValidationResult" where
  "chain_checks H load vouches ts at_time chain =
     andthen (decode_cert_entries chain) (\<lambda>ders.
       let leaf_fp = fingerprint_der H (hd ders) in
       andthen (load_certs load leaf_fp 0 ders) (\<lambda>certs.
         let depth = length certs in
         andthen (check_validity at_time leaf_fp depth certs) (\<lambda>_.
         andthen (check_revocation ts leaf_fp depth certs) (\<lambda>_.
         andthen (check_links vouches leaf_fp depth certs) (\<lambda>_.
         andthen (resolve_anchor H load vouches ts at_time leaf_fp depth (last ders) (last certs)) (\<lambda>root_fp.
           Inr \<lparr>cr_ok = True, cr_status = ''valid'', cr_error_code = None, cr_error_message = None,
                cr_leaf_fingerprint = Some leaf_fp, cr_root_fingerprint = Some root_fp, cr_depth = depth\<rparr>))))))"

text \<open>\<open>crypto\<close> says whether the library could be imported.\<close>

definition validate_rfc3161_certificate_chain ::
  "bool \<Rightarrow> (bytes \<Rightarrow> bytes) \<Rightarrow> (bytes \<Rightarrow> Cert option) \<Rightarrow> (Cert \<Rightarrow> Cert \<Rightarrow> bool) \<Rightarrow> rat \<Rightarrow> pyval list \<Rightarrow> TrustStore \<Rightarrow> rat option
   \<Rightarrow> ChainValidationResult" where
  "validate_rfc3161_certificate_chain crypto H load vouches now chain ts at_time =
     (if \<not> crypto
      then chain_fail ''unverified'' DEPENDENCY_FAILURE ''cryptography dependency unavailable for chain validation'' None None 0
      else (case chain_checks H load vouches ts (case at_time of None \<Rightarrow> now | Some t \<Rightarrow> t) chain of Inl r \<Rightarrow> r | Inr r \<Rightarrow> r))"

section \<open>Trust stores and documents\<close>

fun decode_roots :: "pyval list \<Rightarrow> StoreRaise + bytes list" where
  "decode_roots [] = Inr []"
| "decode_roots (v # vs) =
     (case v of
        PStr s \<Rightarrow>
          if s = [] then Inl (RootValueError ''trust root must be a non-empty base64 string'')
          else (case b64_strict s of
                  None \<Rightarrow> Inl (RootValueError ''invalid base64'')
                | Some der \<Rightarrow>
                    if MAX_CERT_DER_BYTES < length der then Inl (RootValueError ''trust root exceeds maximum certificate size'')
                    else andthen (decode_roots vs) (\<lambda>ders. Inr (der # ders)))
      | _ \<Rightarrow> Inl (RootValueError ''trust root must be a non-empty base64 string''))"

text \<open>\<open>lstrip("0x")\<close> removes every leading \<open>0\<close> and \<open>x\<close>.\<close>

definition normalize_serial :: "string \<Rightarrow> string" where
  "normalize_serial s = dropWhile (\<lambda>c. c \<in> {CHR ''0'', CHR ''x''}) (py_lower s)"

fun revoked_serials :: "pyval list \<Rightarrow> StoreRaise + string list" where
  "revoked_serials [] = Inr []"
| "revoked_serials (v # vs) =
     (if \<not> truthy v then revoked_serials vs
      else (case v of
              PStr s \<Rightarrow> andthen (revoked_serials vs) (\<lambda>r. Inr (normalize_serial s # r))
            | _ \<Rightarrow> Inl RootAttributeError))"

definition trust_store_from_b64_roots :: "pyval list \<Rightarrow> pyval list \<Rightarrow> StoreRaise + TrustStore" where
  "trust_store_from_b64_roots roots revoked =
     andthen (decode_roots roots) (\<lambda>ders. andthen (revoked_serials revoked) (\<lambda>serials. make_trust_store ders serials))"

text \<open>
  What a \<open>for\<close> loop over a value runs through; \<open>None\<close> when it cannot be iterated. Parsing of ISO
  times is the parameter \<open>fromisoformat\<close>, after the replacement of \<open>Z\<close>.
\<close>

definition py_iter :: "pyval \<Rightarrow> pyval list option" where
  "py_iter v =
     (case v of
        PList xs \<Rightarrow> Some xs
      | PStr s \<Rightarrow> Some (map (\<lambda>c. PStr [c]) s)
      | PDict d \<Rightarrow> Some (map (\<lambda>(k, _). PStr k) d)
      | _ \<Rightarrow> None)"

definition replace_z :: "string \<Rightarrow> string" where
  "replace_z s = concat (map (\<lambda>c. if c = CHR ''Z'' then ''+00:00'' else [c]) s)"

definition malformed_document :: "string \<Rightarrow> ChainValidationResult" where
  "malformed_document msg = chain_fail ''invalid'' MALFORMED_CERTIFICATE msg None None 0"

definition document_time :: "(string \<Rightarrow> rat option) \<Rightarrow> pyval \<Rightarrow> ChainValidationResult + rat option" where
  "document_time fromisoformat raw_at =
     (case raw_at of
        PNone \<Rightarrow> Inr None
      | PStr s \<Rightarrow> (case fromisoformat (replace_z s) of None \<Rightarrow> Inl (malformed_document ''atTime is not valid ISO-8601'') | Some t \<Rightarrow> Inr (Some t))
      | _ \<Rightarrow> Inl (malformed_document ''atTime must be an ISO-8601 string''))"

definition document_store :: "pyval list \<Rightarrow> pyval \<Rightarrow> ChainValidationResult + TrustStore" where
  "document_store roots revoked =
     (case py_iter (if truthy revoked then revoked else PList []) of
        None \<Rightarrow> Inl (malformed_document ''trustRoots could not be decoded'')
      | Some serials \<Rightarrow>
          (case trust_store_from_b64_roots roots serials of
             Inl _ \<Rightarrow> Inl (malformed_document ''trustRoots could not be decoded'')
           | Inr ts \<Rightarrow> Inr ts))"

definition py_eq_one :: "pyval \<Rightarrow> bool" where
  "py_eq_one v = (case v of PInt i \<Rightarrow> i = 1 | PBool b \<Rightarrow> b | PFloat r \<Rightarrow> r = 1 | _ \<Rightarrow> False)"

definition validate_chain_document ::
  "bool \<Rightarrow> (bytes \<Rightarrow> bytes) \<Rightarrow> (bytes \<Rightarrow> Cert option) \<Rightarrow> (Cert \<Rightarrow> Cert \<Rightarrow> bool) \<Rightarrow> (string \<Rightarrow> rat option) \<Rightarrow> rat \<Rightarrow> pyval \<Rightarrow> ChainValidationResult" where
  "validate_chain_document crypto H load vouches fromisoformat now doc =
     (case doc of
        PDict d \<Rightarrow>
          if \<not> py_eq_one (dict_get d ''schemaVersion'') then malformed_document ''schemaVersion must be 1''
          else (case (dict_get d ''chain'', dict_get d ''trustRoots'') of
                  (PList chain, PList roots) \<Rightarrow>
                    (case andthen (document_time fromisoformat (dict_get d ''atTime'')) (\<lambda>t.
                            andthen (document_store roots (dict_get d ''revokedSerials'')) (\<lambda>ts. Inr (t, ts))) of
                       Inl r \<Rightarrow> r
                     | Inr (t, ts) \<Rightarrow> validate_rfc3161_certificate_chain crypto H load vouches now chain ts t)
                | _ \<Rightarrow> malformed_document ''chain and trustRoots must be arrays'')
      | _ \<Rightarrow> malformed_document ''document must be a JSON object'')"

section \<open>The accepted chains\<close>

text \<open>An entry and the certificate bytes it carries.\<close>

definition carries_der :: "pyval \<Rightarrow> bytes \<Rightarrow> bool" where
  "carries_der e der \<longleftrightarrow> (\<exists>s. e = PStr s \<and> s \<noteq> [] \<and> b64_strict s = Some der) \<and> length der \<le> MAX_CERT_DER_BYTES"

lemma decode_entries_from_iff:
  "decode_entries_from seen es = Inr ders \<longleftrightarrow>
     list_all2 carries_der es ders \<and> (es = [] \<or> seen + sum_list (map length ders) \<le> MAX_CHAIN_TOTAL_BYTES)"
proof (induction es arbitrary: seen ders)
  case (Cons e es)
  show ?case
  proof (cases ders)
    case Nil
    then show ?thesis by (auto simp: andthen_eq_Inr split: pyval.splits option.splits if_splits)
  next
    case (Cons der ders')
    have "es = [] \<Longrightarrow> list_all2 carries_der es ders' \<Longrightarrow> ders' = []" by simp
    then show ?thesis using Cons.IH [of "seen + length der" ders'] Cons
      by (cases e) (auto simp: andthen_eq_Inr carries_der_def split: option.splits if_splits)
  qed
qed auto

lemma decode_cert_entries_iff:
  "decode_cert_entries es = Inr ders \<longleftrightarrow> es \<noteq> [] \<and> length es \<le> MAX_CERTS_PER_CHAIN \<and> list_all2 carries_der es ders \<and>
     sum_list (map length ders) \<le> MAX_CHAIN_TOTAL_BYTES"
  by (auto simp: decode_cert_entries_def decode_entries_from_iff)

lemma load_certs_iff:
  "load_certs load fp k ders = Inr certs \<longleftrightarrow>
     list_all2 (\<lambda>der c. load der = Some c) ders certs \<and> list_all (\<lambda>c. x5_algorithm_oid c \<in> set SUPPORTED_HASH_OIDS) certs"
proof (induction ders arbitrary: k certs)
  case (Cons der ders)
  then show ?case by (cases certs) (auto simp: andthen_eq_Inr split: option.splits if_splits)
qed auto

lemma foreach_unit:
  "foreach (\<lambda>x _. f x) xs () = Inr u \<longleftrightarrow> list_all (\<lambda>x. f x = Inr ()) xs"
  by (induction xs) (auto split: sum.splits)

lemma check_validity_iff:
  "check_validity t fp k certs = Inr u \<longleftrightarrow> list_all (\<lambda>c. x5_not_before c \<le> t \<and> t \<le> x5_not_after c) certs"
  unfolding check_validity_def foreach_unit
  by (rule arg_cong [of _ _ "\<lambda>P. list_all P certs"]) (auto simp: validity_at_def split: option.splits if_splits)

lemma check_revocation_iff:
  "check_revocation ts fp k certs = Inr u \<longleftrightarrow>
     list_all (\<lambda>c. format_hex (x5_serial_number c) \<notin> set (ts_revoked_serials_hex ts)) certs"
  unfolding check_revocation_def foreach_unit by (simp add: if_split)

text \<open>Every certificate is issued by the next.\<close>

fun linked :: "(Cert \<Rightarrow> Cert \<Rightarrow> bool) \<Rightarrow> Cert list \<Rightarrow> bool" where
  "linked vouches (c # d # cs) \<longleftrightarrow> x5_issuer c = x5_subject d \<and> vouches d c \<and> linked vouches (d # cs)"
| "linked vouches _ \<longleftrightarrow> True"

lemma check_links_iff: "check_links vouches fp k certs = Inr u \<longleftrightarrow> linked vouches certs"
  by (induction vouches fp k certs rule: check_links.induct) auto

text \<open>The chain ends in a configured root, or the first configured root that issued its end is valid.\<close>

definition anchored ::
  "(bytes \<Rightarrow> bytes) \<Rightarrow> (bytes \<Rightarrow> Cert option) \<Rightarrow> (Cert \<Rightarrow> Cert \<Rightarrow> bool) \<Rightarrow> TrustStore \<Rightarrow> rat \<Rightarrow> bytes \<Rightarrow> Cert \<Rightarrow> bool" where
  "anchored H load vouches ts t der c \<longleftrightarrow>
     (if fingerprint_der H der \<in> fingerprint_der H ` set (ts_root_der_list ts)
      then x5_issuer c = x5_subject c \<longrightarrow> vouches c c
      else (\<exists>fp root_der anchor. find (\<lambda>(_, r). issues load vouches c r) (root_by_fingerprint H ts) = Some (fp, root_der) \<and>
              load root_der = Some anchor \<and> x5_not_before anchor \<le> t \<and> t \<le> x5_not_after anchor))"

lemma find_root_iff:
  "(\<exists>fp. find_root load vouches t leaf k c roots = Inr fp) \<longleftrightarrow>
     (\<exists>fp root_der anchor. find (\<lambda>(_, r). issues load vouches c r) roots = Some (fp, root_der) \<and>
        load root_der = Some anchor \<and> x5_not_before anchor \<le> t \<and> t \<le> x5_not_after anchor)"
proof (induction roots)
  case (Cons p roots)
  show ?case
  proof (cases "issues load vouches c (snd p)")
    case True
    then obtain anchor where "load (snd p) = Some anchor" by (auto simp: issues_def split: option.splits)
    then show ?thesis using True by (cases p) (auto simp: validity_at_def split: option.splits)
  next
    case False
    then show ?thesis using Cons by (cases p) simp
  qed
qed simp

lemma root_by_fingerprint_keys: "fst ` set (root_by_fingerprint H ts) = fingerprint_der H ` set (ts_root_der_list ts)"
proof -
  have "fst ` set (fold (\<lambda>der d. AList.update (fingerprint_der H der) der d) ders al) = fst ` set al \<union> fingerprint_der H ` set ders"
    for ders and al :: "(string \<times> bytes) list"
    by (induction ders arbitrary: al) (auto simp: dom_update)
  then show ?thesis by (simp add: root_by_fingerprint_def)
qed

lemma resolve_anchor_iff:
  "(\<exists>fp. resolve_anchor H load vouches ts t leaf k der c = Inr fp) \<longleftrightarrow> anchored H load vouches ts t der c"
  using find_root_iff [of load vouches t leaf k c "root_by_fingerprint H ts"]
  by (auto simp: resolve_anchor_def anchored_def root_by_fingerprint_keys Let_def)

lemma chain_checks_iff:
  "(\<exists>r. chain_checks H load vouches ts t chain = Inr r) \<longleftrightarrow>
     (\<exists>ders certs. chain \<noteq> [] \<and> length chain \<le> MAX_CERTS_PER_CHAIN \<and> list_all2 carries_der chain ders \<and>
        sum_list (map length ders) \<le> MAX_CHAIN_TOTAL_BYTES \<and> list_all2 (\<lambda>der c. load der = Some c) ders certs \<and>
        list_all (\<lambda>c. x5_algorithm_oid c \<in> set SUPPORTED_HASH_OIDS \<and> x5_not_before c \<le> t \<and> t \<le> x5_not_after c \<and>
          format_hex (x5_serial_number c) \<notin> set (ts_revoked_serials_hex ts)) certs \<and>
        linked vouches certs \<and> anchored H load vouches ts t (last ders) (last certs))"
proof -
  have "(\<exists>r. chain_checks H load vouches ts t chain = Inr r) \<longleftrightarrow>
    (\<exists>ders certs. decode_cert_entries chain = Inr ders \<and>
       load_certs load (fingerprint_der H (hd ders)) 0 ders = Inr certs \<and>
       check_validity t (fingerprint_der H (hd ders)) (length certs) certs = Inr () \<and>
       check_revocation ts (fingerprint_der H (hd ders)) (length certs) certs = Inr () \<and>
       check_links vouches (fingerprint_der H (hd ders)) (length certs) certs = Inr () \<and>
       (\<exists>fp. resolve_anchor H load vouches ts t (fingerprint_der H (hd ders)) (length certs) (last ders) (last certs) = Inr fp))"
    by (auto simp: chain_checks_def andthen_eq_Inr Let_def)
  then show ?thesis
    unfolding decode_cert_entries_iff load_certs_iff check_validity_iff check_revocation_iff check_links_iff resolve_anchor_iff
      list_all_iff ball_conj_distrib by blast
qed

text \<open>A refusal carries one of the four negative statuses.\<close>

definition refused :: "ChainValidationResult \<Rightarrow> bool" where
  "refused r \<longleftrightarrow> \<not> cr_ok r \<and> cr_status r \<in> {''invalid'', ''unverified'', ''expired'', ''untrusted''}"

lemma refused_fail [simp]:
  "refused (chain_fail status code msg leaf anchor k) \<longleftrightarrow> status \<in> {''invalid'', ''unverified'', ''expired'', ''untrusted''}"
  by (simp add: refused_def chain_fail_def)

lemma refused_located [simp]:
  "refused (r\<lparr>cr_leaf_fingerprint := x, cr_root_fingerprint := y, cr_depth := k\<rparr>) \<longleftrightarrow> refused r"
  "refused (r\<lparr>cr_leaf_fingerprint := x, cr_depth := k\<rparr>) \<longleftrightarrow> refused r"
  by (simp_all add: refused_def)

lemma validity_fail [simp]: "validity_at c t = Some r \<Longrightarrow> refused r"
  by (auto simp: validity_at_def split: if_splits)

lemma foreach_unit_Inl: "foreach (\<lambda>x _. f x) xs () = Inl r \<Longrightarrow> \<exists>x \<in> set xs. f x = Inl r"
  by (induction xs) (auto split: sum.splits)

lemma check_fail:
  "decode_entries_from seen es = Inl r \<Longrightarrow> refused r"
  "load_certs load fp k ders = Inl r \<Longrightarrow> refused r"
  "check_validity t fp k certs = Inl r \<Longrightarrow> refused r"
  "check_revocation ts fp k certs = Inl r \<Longrightarrow> refused r"
  "check_links vouches fp k certs = Inl r \<Longrightarrow> refused r"
  "find_root load vouches t fp k c roots = Inl r \<Longrightarrow> refused r"
proof -
  show "decode_entries_from seen es = Inl r \<Longrightarrow> refused r"
    by (induction es arbitrary: seen) (auto simp: andthen_eq_Inl split: pyval.splits option.splits if_splits)
  show "load_certs load fp k ders = Inl r \<Longrightarrow> refused r"
    by (induction ders arbitrary: k) (auto simp: andthen_eq_Inl split: option.splits if_splits)
  show "check_validity t fp k certs = Inl r \<Longrightarrow> refused r"
    unfolding check_validity_def by (drule foreach_unit_Inl) (auto split: option.splits)
  show "check_revocation ts fp k certs = Inl r \<Longrightarrow> refused r"
    unfolding check_revocation_def by (drule foreach_unit_Inl) (auto split: if_splits)
  show "check_links vouches fp k certs = Inl r \<Longrightarrow> refused r"
    by (induction vouches fp k certs rule: check_links.induct) (auto split: if_splits)
  show "find_root load vouches t fp k c roots = Inl r \<Longrightarrow> refused r"
    by (induction roots) (auto split: if_splits option.splits)
qed

lemma chain_checks_ok:
  "chain_checks H load vouches ts t chain = Inl r \<Longrightarrow> refused r"
  "chain_checks H load vouches ts t chain = Inr r \<Longrightarrow> cr_ok r \<and> cr_status r = ''valid''"
  by (auto simp: chain_checks_def andthen_eq_Inl andthen_eq_Inr decode_cert_entries_def resolve_anchor_def Let_def
    split: if_splits dest: check_fail)

subsection \<open>Properties\<close>

text \<open>
  C14: A chain is accepted exactly when it has one to eight entries of base64 text for at most 8192
  bytes each and 32768 bytes in all, every entry parses to a certificate with a supported algorithm
  that is valid at the evaluation time and whose serial is not revoked, every certificate names the next
  as its issuer and is signed by it, and the end of the chain is anchored in the trust store.
\<close>

theorem chain_accepted_iff:
  "cr_ok (validate_rfc3161_certificate_chain crypto H load vouches now chain ts at_time) \<longleftrightarrow>
     crypto \<and> (let t = (case at_time of None \<Rightarrow> now | Some t \<Rightarrow> t) in
       \<exists>ders certs. chain \<noteq> [] \<and> length chain \<le> MAX_CERTS_PER_CHAIN \<and> list_all2 carries_der chain ders \<and>
        sum_list (map length ders) \<le> MAX_CHAIN_TOTAL_BYTES \<and> list_all2 (\<lambda>der c. load der = Some c) ders certs \<and>
        list_all (\<lambda>c. x5_algorithm_oid c \<in> set SUPPORTED_HASH_OIDS \<and> x5_not_before c \<le> t \<and> t \<le> x5_not_after c \<and>
          format_hex (x5_serial_number c) \<notin> set (ts_revoked_serials_hex ts)) certs \<and>
        linked vouches certs \<and> anchored H load vouches ts t (last ders) (last certs))"
proof -
  define t where "t = (case at_time of None \<Rightarrow> now | Some t \<Rightarrow> t)"
  have "cr_ok (validate_rfc3161_certificate_chain crypto H load vouches now chain ts at_time) \<longleftrightarrow>
      crypto \<and> (\<exists>r. chain_checks H load vouches ts t chain = Inr r)"
    by (cases "chain_checks H load vouches ts t chain")
      (auto simp: validate_rfc3161_certificate_chain_def t_def chain_fail_def refused_def dest: chain_checks_ok)
  then show ?thesis unfolding chain_checks_iff Let_def t_def .
qed

text \<open>No entry of the revocation list reaches the serial number zero: its only digit is stripped.\<close>

lemma normalized_serial_nonzero:
  "normalize_serial s \<noteq> format_hex 0"
proof -
  have "format_hex 0 = ''0''" by code_simp
  then show ?thesis unfolding normalize_serial_def by (metis dropWhile_eq_Cons_conv insertI1)
qed

lemma serial_zero_not_revocable:
  "revoked_serials vs = Inr serials \<Longrightarrow> format_hex 0 \<notin> set serials"
  by (induction vs arbitrary: serials)
     (auto simp: andthen_eq_Inr normalized_serial_nonzero [symmetric] split: if_splits pyval.splits)

end
