(* ===== verification/Time_Attestation.thy ===== *)
theory Time_Attestation
  imports Rfc3161_Chain
begin

text \<open>
  Time attestations, \<^verbatim>\<open>src/backend/time_attestation.py\<close>, and the three \<^verbatim>\<open>/api/time-attestation\<close> routes of
  \<^verbatim>\<open>src/backend/app.py\<close> from the decoded body on. The decoder does not check the types of most fields, so
  they are dynamic values, and the comparisons and lengths that raise on them are branches. Times
  are rationals; the clock reading in milliseconds is the argument \<open>now_ms\<close>; \<open>other\<close> prints floats and
  containers, \<open>fr\<close> is the float printer of the JSON text.

  The main results: encoding round-trips, the level of the backdating assessment is determined by a
  table, and a chain-verified anchor is \<open>valid\<close> exactly when its chain is accepted at its own time, whatever its
  token says.
\<close>

section \<open>Data\<close>

definition TIME_PROFILE_ID :: string where
  "TIME_PROFILE_ID = ''harpocrates-time-attestation/v1''"

definition MAX_FUTURE_DRIFT_SECONDS :: int where
  "MAX_FUTURE_DRIFT_SECONDS = 300"

definition MAX_TIMESTAMP_TOKEN_SIZE :: nat where
  "MAX_TIMESTAMP_TOKEN_SIZE = 10000"

definition MAX_ANCHOR_COUNT :: nat where
  "MAX_ANCHOR_COUNT = 10"

text \<open>
  The exceptions: a fixed message, a message ending in a printed value, and those whose text is the
  language's own. A range error is the \<open>ValueError\<close> or \<open>OverflowError\<close> of the date conversion.
\<close>

datatype TimeError =
    TimeValueError string
  | TimeValueErrorOf string pyval
  | TimeTypeError
  | TimeKeyError string
  | TimeRangeError
  | TimeStoreError StoreRaise

record ClaimedTime =
  ct_unix_ms :: pyval
  ct_source_label :: pyval
  ct_uncertainty_ms :: pyval

record ObservedTime =
  ot_unix_ms :: pyval
  ot_source_label :: pyval

record StellarAnchor =
  sa_ledger_sequence :: pyval
  sa_ledger_timestamp :: pyval
  sa_transaction_hash :: pyval
  sa_network_passphrase :: pyval

record RFC3161Anchor =
  ra_token_bytes :: pyval
  ra_tsa_url :: pyval
  ra_gen_time :: pyval
  ra_policy_oid :: pyval
  ra_cert_fingerprint :: pyval
  ra_verification_status :: pyval
  ra_verification_error :: pyval
  ra_certificate_chain :: pyval

record TimeAttestation =
  ta_version :: pyval
  ta_protocol :: string
  ta_evidence_digest :: string
  ta_claimed_time :: "ClaimedTime option"
  ta_observed_time :: "ObservedTime option"
  ta_stellar_anchors :: "StellarAnchor list"
  ta_rfc3161_anchors :: "RFC3161Anchor list"

section \<open>Dynamic values\<close>

text \<open>\<open>v in {1}\<close>: a list or dictionary is not hashable.\<close>

definition in_supported_versions :: "pyval \<Rightarrow> TimeError + bool" where
  "in_supported_versions v = (case v of PList _ \<Rightarrow> Inl TimeTypeError | PDict _ \<Rightarrow> Inl TimeTypeError | _ \<Rightarrow> Inr (py_eq_one v))"

definition protocol_mismatch :: "pyval \<Rightarrow> TimeError" where
  "protocol_mismatch got = TimeValueErrorOf (''Protocol mismatch: expected '' @ TIME_PROFILE_ID @ '', got '') got"

definition py_num :: "pyval \<Rightarrow> TimeError + rat" where
  "py_num v =
     (case v of
        PInt i \<Rightarrow> Inr (of_int i)
      | PBool b \<Rightarrow> Inr (if b then 1 else 0)
      | PFloat r \<Rightarrow> Inr r
      | _ \<Rightarrow> Inl TimeTypeError)"

definition py_len :: "pyval \<Rightarrow> TimeError + nat" where
  "py_len v =
     (case v of PStr s \<Rightarrow> Inr (length s) | PList xs \<Rightarrow> Inr (length xs) | PDict d \<Rightarrow> Inr (length d) | _ \<Rightarrow> Inl TimeTypeError)"

definition is_valid_hex :: "pyval \<Rightarrow> nat \<Rightarrow> TimeError + bool" where
  "is_valid_hex value expected_length =
     andthen (py_len value) (\<lambda>n.
       if n \<noteq> expected_length then Inr False
       else (case value of PStr s \<Rightarrow> Inr (py_int 16 s \<noteq> None) | _ \<Rightarrow> Inl TimeTypeError))"

text \<open>\<open>obj[k]\<close> and \<open>obj.get(k, default)\<close> where \<open>obj\<close> need not be a dictionary.\<close>

definition subscript :: "pyval \<Rightarrow> string \<Rightarrow> TimeError + pyval" where
  "subscript obj k =
     (case obj of
        PDict d \<Rightarrow> (case map_of d k of None \<Rightarrow> Inl (TimeKeyError k) | Some v \<Rightarrow> Inr v)
      | _ \<Rightarrow> Inl TimeTypeError)"

definition dict_get_default :: "(string \<times> pyval) list \<Rightarrow> string \<Rightarrow> pyval \<Rightarrow> pyval" where
  "dict_get_default d k v = (case map_of d k of None \<Rightarrow> v | Some x \<Rightarrow> x)"

text \<open>\<open>get\<close> after a subscript has succeeded: the value is a dictionary.\<close>

definition get_field :: "pyval \<Rightarrow> string \<Rightarrow> pyval \<Rightarrow> pyval" where
  "get_field obj k v = (case obj of PDict d \<Rightarrow> dict_get_default d k v | _ \<Rightarrow> v)"

fun map_result :: "('a \<Rightarrow> 'e + 'b) \<Rightarrow> 'a list \<Rightarrow> 'e + 'b list" where
  "map_result f [] = Inr []"
| "map_result f (x # xs) = andthen (f x) (\<lambda>y. andthen (map_result f xs) (\<lambda>ys. Inr (y # ys)))"

section \<open>Encoding\<close>

definition encode_claimed :: "ClaimedTime \<Rightarrow> pyval" where
  "encode_claimed c =
     PDict [(''unixMs'', ct_unix_ms c), (''sourceLabel'', ct_source_label c), (''uncertaintyMs'', ct_uncertainty_ms c)]"

definition encode_observed :: "ObservedTime \<Rightarrow> pyval" where
  "encode_observed c = PDict [(''unixMs'', ot_unix_ms c), (''sourceLabel'', ot_source_label c)]"

definition encode_stellar :: "StellarAnchor \<Rightarrow> pyval" where
  "encode_stellar a =
     PDict [(''ledgerSequence'', sa_ledger_sequence a), (''ledgerTimestamp'', sa_ledger_timestamp a),
            (''transactionHash'', sa_transaction_hash a), (''networkPassphrase'', sa_network_passphrase a)]"

definition encode_rfc3161 :: "RFC3161Anchor \<Rightarrow> TimeError + pyval" where
  "encode_rfc3161 a =
     (let entry = [(''tokenBytes'', ra_token_bytes a), (''tsaUrl'', ra_tsa_url a), (''genTime'', ra_gen_time a),
                   (''policyOid'', ra_policy_oid a), (''certFingerprint'', ra_cert_fingerprint a),
                   (''verificationStatus'', ra_verification_status a), (''verificationError'', ra_verification_error a)]
      in if ra_certificate_chain a = PNone then Inr (PDict entry)
         else (case py_iter (ra_certificate_chain a) of
                 None \<Rightarrow> Inl TimeTypeError
               | Some chain \<Rightarrow> Inr (PDict (entry @ [(''certificateChain'', PList chain)]))))"

definition encoded_entries :: "TimeAttestation \<Rightarrow> pyval list \<Rightarrow> (string \<times> pyval) list" where
  "encoded_entries a anchors =
     [(''version'', ta_version a), (''protocol'', PStr (ta_protocol a)), (''evidenceDigest'', PStr (ta_evidence_digest a))]
     @ (case ta_claimed_time a of None \<Rightarrow> [] | Some c \<Rightarrow> [(''claimedTime'', encode_claimed c)])
     @ (case ta_observed_time a of None \<Rightarrow> [] | Some c \<Rightarrow> [(''observedTime'', encode_observed c)])
     @ (if ta_stellar_anchors a = [] then [] else [(''stellarAnchors'', PList (map encode_stellar (ta_stellar_anchors a)))])
     @ (if anchors = [] then [] else [(''rfc3161Anchors'', PList anchors)])"

definition encode_time_attestation :: "TimeAttestation \<Rightarrow> TimeError + (string \<times> pyval) list" where
  "encode_time_attestation a =
     andthen (in_supported_versions (ta_version a)) (\<lambda>supported.
     andthen (guard supported (TimeValueErrorOf ''Unsupported time attestation version: '' (ta_version a))) (\<lambda>_.
     andthen (guard (ta_protocol a = TIME_PROFILE_ID) (protocol_mismatch (PStr (ta_protocol a)))) (\<lambda>_.
     andthen (is_valid_hex (PStr (ta_evidence_digest a)) 64) (\<lambda>hex.
     andthen (guard hex (TimeValueError ''evidence_digest must be 64-character hex string'')) (\<lambda>_.
     andthen (guard (length (ta_stellar_anchors a) + length (ta_rfc3161_anchors a) \<le> MAX_ANCHOR_COUNT)
       (TimeValueError ''Total anchor count exceeds maximum of 10'')) (\<lambda>_.
     andthen (map_result encode_rfc3161 (ta_rfc3161_anchors a)) (\<lambda>anchors.
       Inr (encoded_entries a anchors))))))))"

section \<open>Decoding\<close>

definition validate_time_attestation_obj :: "pyval \<Rightarrow> TimeError + (string \<times> pyval) list" where
  "validate_time_attestation_obj obj =
     (case obj of
        PDict d \<Rightarrow>
          andthen (foreach (\<lambda>k _. guard (k \<in> fst ` set d) (TimeValueError (''Missing required field: '' @ k)))
            [''version'', ''protocol'', ''evidenceDigest''] ()) (\<lambda>_.
          andthen (in_supported_versions (dict_get d ''version'')) (\<lambda>supported.
          andthen (guard supported (TimeValueErrorOf ''Unsupported version: '' (dict_get d ''version''))) (\<lambda>_.
          andthen (guard (dict_get d ''protocol'' = PStr TIME_PROFILE_ID) (protocol_mismatch (dict_get d ''protocol''))) (\<lambda>_.
            case dict_get d ''evidenceDigest'' of
              PStr s \<Rightarrow>
                andthen (is_valid_hex (PStr s) 64) (\<lambda>hex.
                andthen (guard hex (TimeValueError ''evidenceDigest must be 64-character hex string'')) (\<lambda>_. Inr d))
            | _ \<Rightarrow> Inl TimeTypeError))))
      | _ \<Rightarrow> Inl TimeTypeError)"

definition decode_claimed :: "pyval \<Rightarrow> TimeError + ClaimedTime" where
  "decode_claimed ct =
     andthen (subscript ct ''unixMs'') (\<lambda>ms. andthen (subscript ct ''sourceLabel'') (\<lambda>label.
       Inr \<lparr>ct_unix_ms = ms, ct_source_label = label, ct_uncertainty_ms = get_field ct ''uncertaintyMs'' (PInt 0)\<rparr>))"

definition decode_observed :: "pyval \<Rightarrow> TimeError + ObservedTime" where
  "decode_observed ot =
     andthen (subscript ot ''unixMs'') (\<lambda>ms. andthen (subscript ot ''sourceLabel'') (\<lambda>label.
       Inr \<lparr>ot_unix_ms = ms, ot_source_label = label\<rparr>))"

definition decode_stellar :: "pyval \<Rightarrow> TimeError + StellarAnchor" where
  "decode_stellar a =
     andthen (subscript a ''ledgerSequence'') (\<lambda>s. andthen (subscript a ''ledgerTimestamp'') (\<lambda>t.
     andthen (subscript a ''transactionHash'') (\<lambda>h. andthen (subscript a ''networkPassphrase'') (\<lambda>p.
       Inr \<lparr>sa_ledger_sequence = s, sa_ledger_timestamp = t, sa_transaction_hash = h, sa_network_passphrase = p\<rparr>))))"

definition decode_rfc3161 :: "pyval \<Rightarrow> TimeError + RFC3161Anchor" where
  "decode_rfc3161 a =
     andthen (subscript a ''tokenBytes'') (\<lambda>token. andthen (subscript a ''tsaUrl'') (\<lambda>url. andthen (subscript a ''genTime'') (\<lambda>gen.
       Inr \<lparr>ra_token_bytes = token, ra_tsa_url = url, ra_gen_time = gen, ra_policy_oid = get_field a ''policyOid'' PNone,
            ra_cert_fingerprint = get_field a ''certFingerprint'' PNone,
            ra_verification_status = get_field a ''verificationStatus'' (PStr ''unverified''),
            ra_verification_error = get_field a ''verificationError'' PNone,
            ra_certificate_chain = get_field a ''certificateChain'' PNone\<rparr>)))"

definition decode_optional :: "(pyval \<Rightarrow> TimeError + 'a) \<Rightarrow> (string \<times> pyval) list \<Rightarrow> string \<Rightarrow> TimeError + 'a option" where
  "decode_optional f d k = (case map_of d k of None \<Rightarrow> Inr None | Some v \<Rightarrow> andthen (f v) (\<lambda>x. Inr (Some x)))"

definition decode_anchors :: "(pyval \<Rightarrow> TimeError + 'a) \<Rightarrow> (string \<times> pyval) list \<Rightarrow> string \<Rightarrow> TimeError + 'a list" where
  "decode_anchors f d k =
     (case py_iter (dict_get_default d k (PList [])) of None \<Rightarrow> Inl TimeTypeError | Some xs \<Rightarrow> map_result f xs)"

definition decode_time_attestation :: "pyval \<Rightarrow> TimeError + TimeAttestation" where
  "decode_time_attestation obj =
     andthen (validate_time_attestation_obj obj) (\<lambda>d.
     andthen (decode_optional decode_claimed d ''claimedTime'') (\<lambda>claimed.
     andthen (decode_optional decode_observed d ''observedTime'') (\<lambda>observed.
     andthen (decode_anchors decode_stellar d ''stellarAnchors'') (\<lambda>stellar.
     andthen (decode_anchors decode_rfc3161 d ''rfc3161Anchors'') (\<lambda>rfc3161.
       Inr \<lparr>ta_version = dict_get d ''version'', ta_protocol = TIME_PROFILE_ID,
            ta_evidence_digest = (case dict_get d ''evidenceDigest'' of PStr s \<Rightarrow> s | _ \<Rightarrow> []),
            ta_claimed_time = claimed, ta_observed_time = observed, ta_stellar_anchors = stellar, ta_rfc3161_anchors = rfc3161\<rparr>)))))"

definition canonical_time_attestation_hash :: "(bytes \<Rightarrow> bytes) \<Rightarrow> (rat \<Rightarrow> string) \<Rightarrow> TimeAttestation \<Rightarrow> TimeError + string" where
  "canonical_time_attestation_hash H fr a =
     andthen (encode_time_attestation a) (\<lambda>encoded. Inr (tohex (H (encode_ascii (dumps (True, fr) (PDict encoded))))))"

section \<open>Validation\<close>

definition note_if :: "bool \<Rightarrow> string \<Rightarrow> string list" where
  "note_if b msg = (if b then [msg] else [])"

definition drift_limit :: "int \<Rightarrow> rat" where
  "drift_limit now_ms = of_int (now_ms + MAX_FUTURE_DRIFT_SECONDS * 1000)"

definition time_errors :: "(pyval \<Rightarrow> string) \<Rightarrow> int \<Rightarrow> string \<Rightarrow> pyval \<Rightarrow> TimeError + string list" where
  "time_errors other now_ms name ms =
     andthen (py_num ms) (\<lambda>t.
       Inr (note_if (drift_limit now_ms < t)
              (name @ '' time '' @ py_str other ms @ '' is too far in the future (current: '' @ str_int now_ms @ '')'')
            @ note_if (t < 0) (name @ '' time '' @ py_str other ms @ '' is negative'')))"

definition stellar_errors :: "nat \<Rightarrow> StellarAnchor \<Rightarrow> TimeError + string list" where
  "stellar_errors i a =
     (let label = ''Stellar anchor '' @ str_int (int i) @ '': '' in
      andthen (is_valid_hex (sa_transaction_hash a) 64) (\<lambda>hex.
      andthen (py_num (sa_ledger_sequence a)) (\<lambda>s.
      andthen (py_num (sa_ledger_timestamp a)) (\<lambda>t.
        Inr (note_if (\<not> hex) (label @ ''transaction_hash must be 64-char hex'')
             @ note_if (s < 0) (label @ ''ledger_sequence must be non-negative'')
             @ note_if (t < 0) (label @ ''ledger_timestamp must be non-negative''))))))"

definition rfc3161_errors :: "int \<Rightarrow> nat \<Rightarrow> RFC3161Anchor \<Rightarrow> TimeError + string list" where
  "rfc3161_errors now_ms i a =
     (let label = ''RFC 3161 anchor '' @ str_int (int i) @ '': '' in
      andthen (py_len (ra_token_bytes a)) (\<lambda>n.
      andthen (py_num (ra_gen_time a)) (\<lambda>t.
        Inr (note_if (MAX_TIMESTAMP_TOKEN_SIZE < n) (label @ ''token exceeds 10000 bytes'')
             @ note_if (t < 0) (label @ ''genTime must be non-negative'')
             @ note_if (drift_limit now_ms < t) (label @ ''genTime is too far in the future'')))))"

definition collect_errors :: "(nat \<Rightarrow> 'a \<Rightarrow> TimeError + string list) \<Rightarrow> 'a list \<Rightarrow> TimeError + string list" where
  "collect_errors f xs = andthen (map_result (\<lambda>(i, x). f i x) (enumerate 0 xs)) (\<lambda>ess. Inr (concat ess))"

definition validate_time_attestation ::
  "(pyval \<Rightarrow> string) \<Rightarrow> int \<Rightarrow> TimeAttestation \<Rightarrow> string \<Rightarrow> TimeError + string list" where
  "validate_time_attestation other now_ms a evidence_digest =
     andthen (case ta_claimed_time a of None \<Rightarrow> Inr [] | Some c \<Rightarrow> time_errors other now_ms ''Claimed'' (ct_unix_ms c)) (\<lambda>e1.
     andthen (case ta_observed_time a of None \<Rightarrow> Inr [] | Some c \<Rightarrow> time_errors other now_ms ''Observed'' (ot_unix_ms c)) (\<lambda>e2.
     andthen (collect_errors stellar_errors (ta_stellar_anchors a)) (\<lambda>e3.
     andthen (collect_errors (rfc3161_errors now_ms) (ta_rfc3161_anchors a)) (\<lambda>e4.
       Inr (note_if (ta_evidence_digest a \<noteq> evidence_digest)
              (''Evidence digest mismatch: expected '' @ evidence_digest @ '', got '' @ ta_evidence_digest a)
            @ e1 @ e2 @ e3 @ e4
            @ note_if (ta_claimed_time a = None \<and> ta_observed_time a = None \<and> ta_stellar_anchors a = [] \<and> ta_rfc3161_anchors a = [])
                ''At least one time source is required'')))))"

section \<open>Backdating\<close>

record Risk =
  rk_level :: string
  rk_reasons :: "string list"
  rk_recommendations :: "string list"

definition independent :: "TimeAttestation \<Rightarrow> bool" where
  "independent a \<longleftrightarrow> ta_stellar_anchors a \<noteq> [] \<or> ta_rfc3161_anchors a \<noteq> []"

text \<open>\<open>format(x, ".0f")\<close>: the nearest integer, ties to even.\<close>

definition round_even :: "rat \<Rightarrow> int" where
  "round_even x =
     (let n = floor x; d = x - of_int n in
      if d < 1 / 2 then n else if 1 / 2 < d then n + 1 else if even n then n else n + 1)"

definition anchor_risk :: "TimeAttestation \<Rightarrow> Risk" where
  "anchor_risk a =
     (if independent a then \<lparr>rk_level = ''none'', rk_reasons = [], rk_recommendations = []\<rparr>
      else \<lparr>rk_level = ''medium'', rk_reasons = [''No independent timestamp anchor (Stellar/RFC 3161)''],
            rk_recommendations = [''Add Stellar ledger timestamp from transaction'']\<rparr>)"

definition drift_risk :: "rat \<Rightarrow> rat \<Rightarrow> Risk \<Rightarrow> Risk" where
  "drift_risk claimed observed r =
     (let drift = \<bar>claimed - observed\<bar> / 1000;
          r1 = (if 86400 < drift
                then r\<lparr>rk_level := (if rk_level r = ''none'' then ''low'' else if rk_level r = ''medium'' then ''high'' else rk_level r),
                       rk_reasons := rk_reasons r @ [''Large drift between claimed and observed time: '' @ str_int (round_even drift) @ '' seconds'']\<rparr>
                else r)
      in if claimed < observed - 3600000
         then r1\<lparr>rk_level := (if rk_level r1 \<in> {''none'', ''low''} then ''medium'' else if rk_level r1 = ''medium'' then ''high'' else rk_level r1),
                 rk_reasons := rk_reasons r1 @ [''Claimed time significantly predates observed time'']\<rparr>
         else r1)"

definition observed_risk :: "TimeAttestation \<Rightarrow> Risk \<Rightarrow> Risk" where
  "observed_risk a r =
     (if ta_observed_time a = None
      then r\<lparr>rk_level := (if rk_level r = ''none'' then ''low'' else rk_level r),
             rk_reasons := rk_reasons r @ [''No observed registration time recorded'']\<rparr>
      else r)"

definition check_backdating_risk :: "TimeAttestation \<Rightarrow> TimeError + Risk" where
  "check_backdating_risk a =
     andthen (case (ta_claimed_time a, ta_observed_time a) of
                (Some c, Some ob) \<Rightarrow>
                  andthen (py_num (ct_unix_ms c)) (\<lambda>claimed. andthen (py_num (ot_unix_ms ob)) (\<lambda>observed.
                    Inr (drift_risk claimed observed (anchor_risk a))))
              | _ \<Rightarrow> Inr (anchor_risk a)) (\<lambda>r1.
       let r = observed_risk a r1 in
       Inr (r\<lparr>rk_reasons := (if rk_reasons r = [] then [''All time sources align within acceptable bounds''] else rk_reasons r),
              rk_recommendations := (if rk_recommendations r = [] then [''Time attestation appears robust''] else rk_recommendations r)\<rparr>))"

section \<open>Construction\<close>

definition create_time_attestation :: "int \<Rightarrow> string \<Rightarrow> pyval \<Rightarrow> pyval \<Rightarrow> pyval \<Rightarrow> TimeError + TimeAttestation" where
  "create_time_attestation now_ms evidence_digest claimed_time_ms claimed_source_label uncertainty_ms =
     andthen (is_valid_hex (PStr evidence_digest) 64) (\<lambda>hex.
     andthen (guard hex (TimeValueError ''evidence_digest must be 64-character hex string'')) (\<lambda>_.
       Inr \<lparr>ta_version = PInt 1, ta_protocol = TIME_PROFILE_ID, ta_evidence_digest = evidence_digest,
            ta_claimed_time = (if claimed_time_ms = PNone then None
              else Some \<lparr>ct_unix_ms = claimed_time_ms, ct_source_label = claimed_source_label, ct_uncertainty_ms = uncertainty_ms\<rparr>),
            ta_observed_time = Some \<lparr>ot_unix_ms = PInt now_ms, ot_source_label = PStr ''backend_system_clock''\<rparr>,
            ta_stellar_anchors = [], ta_rfc3161_anchors = []\<rparr>))"

definition anchor_count_ok :: "TimeAttestation \<Rightarrow> TimeError + unit" where
  "anchor_count_ok a =
     guard (length (ta_stellar_anchors a) + length (ta_rfc3161_anchors a) < MAX_ANCHOR_COUNT)
       (TimeValueError ''Maximum anchor count (10) reached'')"

definition add_stellar_anchor :: "TimeAttestation \<Rightarrow> StellarAnchor \<Rightarrow> TimeError + TimeAttestation" where
  "add_stellar_anchor a new_anchor =
     andthen (anchor_count_ok a) (\<lambda>_.
     andthen (is_valid_hex (sa_transaction_hash new_anchor) 64) (\<lambda>hex.
     andthen (guard hex (TimeValueError ''transaction_hash must be 64-character hex string'')) (\<lambda>_.
       Inr (a\<lparr>ta_stellar_anchors := ta_stellar_anchors a @ [new_anchor]\<rparr>))))"

definition add_rfc3161_anchor :: "TimeAttestation \<Rightarrow> RFC3161Anchor \<Rightarrow> TimeError + TimeAttestation" where
  "add_rfc3161_anchor a new_anchor =
     andthen (anchor_count_ok a) (\<lambda>_.
     andthen (py_len (ra_token_bytes new_anchor)) (\<lambda>n.
     andthen (guard (n \<le> MAX_TIMESTAMP_TOKEN_SIZE) (TimeValueError ''Timestamp token exceeds 10000 bytes'')) (\<lambda>_.
       Inr (a\<lparr>ta_rfc3161_anchors := ta_rfc3161_anchors a @ [new_anchor]\<rparr>))))"

section \<open>Chain verification of anchors\<close>

text \<open>
  What the verification is configured with: whether \<^verbatim>\<open>rfc3161_chain\<close> and \<^verbatim>\<open>cryptography\<close> could be imported,
  and the parameters of the chain validation.
\<close>

record ChainContext =
  cc_module :: bool
  cc_crypto :: bool
  cc_H :: "bytes \<Rightarrow> bytes"
  cc_load :: "bytes \<Rightarrow> Cert option"
  cc_vouches :: "Cert \<Rightarrow> Cert \<Rightarrow> bool"

definition or_none :: "pyval \<Rightarrow> pyval \<Rightarrow> pyval" where
  "or_none a b = (if truthy a then a else b)"

text \<open>\<open>datetime.fromtimestamp(ms / 1000.0, tz=utc)\<close>: rounded to the microsecond, for the years 1 to 9999.\<close>

definition from_timestamp_ms :: "pyval \<Rightarrow> TimeError + rat" where
  "from_timestamp_ms ms =
     andthen (py_num ms) (\<lambda>t.
       let us = round_even (t * 1000) in
       if -62135596800000000 \<le> us \<and> us < 253402300800000000 then Inr (of_int us / 1000000) else Inl TimeRangeError)"

definition resolve_store :: "TrustStore option \<Rightarrow> pyval list \<Rightarrow> pyval list \<Rightarrow> TimeError + TrustStore" where
  "resolve_store store roots revoked =
     (case store of
        Some ts \<Rightarrow> Inr ts
      | None \<Rightarrow> (case trust_store_from_b64_roots roots revoked of Inl e \<Rightarrow> Inl (TimeStoreError e) | Inr ts \<Rightarrow> Inr ts))"

definition chain_result :: "ChainContext \<Rightarrow> pyval \<Rightarrow> TrustStore \<Rightarrow> rat \<Rightarrow> TimeError + ChainValidationResult" where
  "chain_result cc chain ts t =
     (case py_iter chain of
        Some entries \<Rightarrow> Inr (validate_rfc3161_certificate_chain (cc_crypto cc) (cc_H cc) (cc_load cc) (cc_vouches cc) t entries ts (Some t))
      | None \<Rightarrow>
          if cc_crypto cc then Inl TimeTypeError
          else Inr (validate_rfc3161_certificate_chain False (cc_H cc) (cc_load cc) (cc_vouches cc) t [] ts (Some t)))"

definition verify_rfc3161_anchor_chain ::
  "ChainContext \<Rightarrow> TrustStore option \<Rightarrow> pyval list \<Rightarrow> pyval list \<Rightarrow> RFC3161Anchor \<Rightarrow> TimeError + RFC3161Anchor" where
  "verify_rfc3161_anchor_chain cc store roots revoked a =
     (if \<not> truthy (ra_certificate_chain a)
      then if ra_verification_status a = PStr ''unverified'' then Inr a
           else Inr (a\<lparr>ra_verification_status := PStr ''unverified'',
                       ra_verification_error := or_none (ra_verification_error a) (PStr ''certificate chain not provided'')\<rparr>)
      else if \<not> cc_module cc
      then Inr (a\<lparr>ra_verification_status := PStr ''unverified'', ra_verification_error := PStr ''dependency_failure''\<rparr>)
      else andthen (resolve_store store roots revoked) (\<lambda>ts.
           andthen (from_timestamp_ms (ra_gen_time a)) (\<lambda>t.
           andthen (chain_result cc (ra_certificate_chain a) ts t) (\<lambda>r.
             Inr (a\<lparr>ra_cert_fingerprint := or_none (opt_val (cr_leaf_fingerprint r)) (ra_cert_fingerprint a),
                    ra_verification_status := PStr (if cr_status r \<in> {''valid'', ''invalid'', ''unverified'', ''expired'', ''untrusted''}
                      then cr_status r else ''invalid''),
                    ra_verification_error := (if cr_ok r then PNone
                      else or_none (opt_val (cr_error_code r)) (opt_val (cr_error_message r)))\<rparr>)))))"

definition verify_rfc3161_anchors ::
  "ChainContext \<Rightarrow> TrustStore option \<Rightarrow> pyval list \<Rightarrow> pyval list \<Rightarrow> TimeAttestation \<Rightarrow> TimeError + TimeAttestation" where
  "verify_rfc3161_anchors cc store roots revoked a =
     (if ta_rfc3161_anchors a = [] then Inr a
      else andthen (map_result (verify_rfc3161_anchor_chain cc store roots revoked) (ta_rfc3161_anchors a)) (\<lambda>verified.
             Inr (a\<lparr>ta_rfc3161_anchors := verified\<rparr>)))"

section \<open>The routes\<close>

text \<open>
  The replies: the body of a 200, a 400 with its text or with the text of the caught exception after a
  prefix, and an exception the handler does not catch. Each route starts from the decoded JSON body.
\<close>

datatype 'a TimeReply = Reply 'a | BadRequest string | BadRequestFrom string TimeError | Unhandled TimeError

fun is_value_error :: "TimeError \<Rightarrow> bool" where
  "is_value_error (TimeValueError _) = True"
| "is_value_error (TimeValueErrorOf _ _) = True"
| "is_value_error _ = False"

definition is_key_error :: "TimeError \<Rightarrow> bool" where
  "is_key_error e = (case e of TimeKeyError _ \<Rightarrow> True | _ \<Rightarrow> False)"

definition handling :: "(TimeError \<Rightarrow> bool) \<Rightarrow> string \<Rightarrow> TimeError + 'a \<Rightarrow> 'b TimeReply + 'a" where
  "handling caught prefix r =
     (case r of Inr x \<Rightarrow> Inr x | Inl e \<Rightarrow> Inl (if caught e then BadRequestFrom prefix e else Unhandled e))"

definition reply_of :: "'a TimeReply + 'a \<Rightarrow> 'a TimeReply" where
  "reply_of r = (case r of Inl e \<Rightarrow> e | Inr x \<Rightarrow> Reply x)"

definition create_time_attestation_endpoint :: "int \<Rightarrow> pyval \<Rightarrow> ((string \<times> pyval) list \<times> Risk) TimeReply" where
  "create_time_attestation_endpoint now_ms payload =
     (case payload of
        PDict d \<Rightarrow>
          if \<not> app_is_hex_32 (dict_get d ''evidenceDigest'') then BadRequest ''evidenceDigest must be a 32-byte hex string''
          else (case dict_get d ''evidenceDigest'' of
                  PStr evidence_digest \<Rightarrow>
                    reply_of (handling is_value_error []
                      (andthen (create_time_attestation now_ms evidence_digest (dict_get d ''claimedTimeMs'')
                         (dict_get_default d ''claimedSourceLabel'' (PStr ''device_clock'')) (dict_get_default d ''uncertaintyMs'' (PInt 0))) (\<lambda>a.
                       andthen (encode_time_attestation a) (\<lambda>encoded.
                       andthen (check_backdating_risk a) (\<lambda>risk. Inr (encoded, risk))))))
                | _ \<Rightarrow> Unhandled TimeTypeError)
      | _ \<Rightarrow> BadRequest ''JSON body is required'')"

definition anchor_time_attestation :: "pyval \<Rightarrow> ((string \<times> pyval) list \<times> Risk) TimeReply" where
  "anchor_time_attestation payload =
     (case payload of
        PDict d \<Rightarrow>
          reply_of
            (andthen (handling (\<lambda>e. is_value_error e \<or> e = TimeTypeError) ''Invalid time attestation: ''
               (decode_time_attestation (dict_get_default d ''timeAttestation'' (PDict [])))) (\<lambda>a0.
             andthen (case map_of d ''stellarAnchor'' of
                        None \<Rightarrow> Inr a0
                      | Some stellar \<Rightarrow>
                          handling (\<lambda>e. is_value_error e \<or> is_key_error e) ''Invalid Stellar anchor: ''
                            (andthen (decode_stellar stellar) (add_stellar_anchor a0))) (\<lambda>a1.
             andthen (case map_of d ''rfc3161Anchor'' of
                        None \<Rightarrow> Inr a1
                      | Some rfc3161 \<Rightarrow>
                          handling (\<lambda>e. is_value_error e \<or> is_key_error e) ''Invalid RFC 3161 anchor: ''
                            (andthen (decode_rfc3161 rfc3161) (\<lambda>r. add_rfc3161_anchor a1 (r\<lparr>ra_certificate_chain := PNone\<rparr>)))) (\<lambda>a2.
             handling (\<lambda>_. False) []
               (andthen (encode_time_attestation a2) (\<lambda>encoded.
                andthen (check_backdating_risk a2) (\<lambda>risk. Inr (encoded, risk))))))))
      | _ \<Rightarrow> BadRequest ''JSON body is required'')"

text \<open>The reply of the third route: \<open>ok\<close>, the errors and the risk.\<close>

definition validate_time_attestation_endpoint :: "(pyval \<Rightarrow> string) \<Rightarrow> int \<Rightarrow> pyval \<Rightarrow> (bool \<times> string list \<times> Risk) TimeReply" where
  "validate_time_attestation_endpoint other now_ms payload =
     (case payload of
        PDict d \<Rightarrow>
          if \<not> app_is_hex_32 (dict_get d ''evidenceDigest'') then BadRequest ''evidenceDigest must be a 32-byte hex string''
          else (case dict_get d ''evidenceDigest'' of
                  PStr evidence_digest \<Rightarrow>
                    reply_of (handling (\<lambda>e. is_value_error e \<or> e = TimeTypeError) ''Invalid time attestation: ''
                      (andthen (decode_time_attestation (dict_get_default d ''timeAttestation'' (PDict []))) (\<lambda>a.
                       andthen (validate_time_attestation other now_ms a evidence_digest) (\<lambda>errors.
                       andthen (check_backdating_risk a) (\<lambda>risk. Inr (errors = [], errors, risk))))))
                | _ \<Rightarrow> Unhandled TimeTypeError)
      | _ \<Rightarrow> BadRequest ''JSON body is required'')"

section \<open>Round trip\<close>

lemma map_result_iff:
  "map_result f xs = Inr ys \<longleftrightarrow> list_all2 (\<lambda>x y. f x = Inr y) xs ys"
  by (induction xs arbitrary: ys) (auto simp: andthen_eq_Inr list_all2_Cons1)

lemma map_result_compose:
  assumes "map_result f xs = Inr ys"
    and "\<And>x y. f x = Inr y \<Longrightarrow> g y = Inr (h x)"
  shows "map_result g ys = Inr (map h xs)"
  using assms by (auto simp: map_result_iff list_all2_conv_all_nth)

lemma map_result_map_Inr [simp]:
  "map_result (\<lambda>x. Inr (f x)) xs = Inr (map f xs)"
  by (induction xs) simp_all

text \<open>The chain of a decoded anchor may be any value that can be iterated; encoding makes it a list.\<close>

definition listed_chain :: "RFC3161Anchor \<Rightarrow> RFC3161Anchor" where
  "listed_chain a = a\<lparr>ra_certificate_chain := (case py_iter (ra_certificate_chain a) of None \<Rightarrow> ra_certificate_chain a | Some xs \<Rightarrow> PList xs)\<rparr>"

lemma decode_encode_claimed [simp]: "decode_claimed (encode_claimed c) = Inr c"
  by (simp add: decode_claimed_def encode_claimed_def subscript_def get_field_def dict_get_default_def)

lemma decode_encode_observed [simp]: "decode_observed (encode_observed c) = Inr c"
  by (simp add: decode_observed_def encode_observed_def subscript_def)

lemma decode_encode_stellar [simp]: "decode_stellar (encode_stellar c) = Inr c"
  by (simp add: decode_stellar_def encode_stellar_def subscript_def)

lemma decode_encode_rfc3161:
  "encode_rfc3161 a = Inr v \<Longrightarrow> decode_rfc3161 v = Inr (listed_chain a)"
  by (cases "ra_certificate_chain a")
     (auto simp: encode_rfc3161_def decode_rfc3161_def subscript_def get_field_def dict_get_default_def listed_chain_def py_iter_def Let_def
           split: if_splits)

lemma map_result_stellar [simp]:
  "map_result decode_stellar (map encode_stellar as) = Inr as"
  by (induction as) simp_all

definition encodable :: "TimeAttestation \<Rightarrow> bool" where
  "encodable a \<longleftrightarrow>
     in_supported_versions (ta_version a) = Inr True \<and> ta_protocol a = TIME_PROFILE_ID
     \<and> length (ta_evidence_digest a) = 64 \<and> py_int 16 (ta_evidence_digest a) \<noteq> None
     \<and> length (ta_stellar_anchors a) + length (ta_rfc3161_anchors a) \<le> MAX_ANCHOR_COUNT
     \<and> (\<forall>r \<in> set (ta_rfc3161_anchors a). ra_certificate_chain r = PNone \<or> py_iter (ra_certificate_chain r) \<noteq> None)"

lemma is_valid_hex_str [simp]:
  "is_valid_hex (PStr s) n = Inr (length s = n \<and> py_int 16 s \<noteq> None)"
  by (simp add: is_valid_hex_def py_len_def)

lemma encode_rfc3161_succeeds:
  "(\<exists>v. encode_rfc3161 r = Inr v) \<longleftrightarrow> ra_certificate_chain r = PNone \<or> py_iter (ra_certificate_chain r) \<noteq> None"
  by (auto simp: encode_rfc3161_def Let_def split: option.splits)

lemma map_result_succeeds:
  "(\<exists>ys. map_result f xs = Inr ys) \<longleftrightarrow> (\<forall>x \<in> set xs. \<exists>y. f x = Inr y)"
  by (induction xs) (auto simp: andthen_eq_Inr)

lemma encode_eq_Inr:
  "encode_time_attestation a = Inr d \<longleftrightarrow>
     encodable a \<and> (\<exists>anchors. map_result encode_rfc3161 (ta_rfc3161_anchors a) = Inr anchors \<and> d = encoded_entries a anchors)"
proof -
  have "encode_time_attestation a = Inr d \<longleftrightarrow>
     in_supported_versions (ta_version a) = Inr True \<and> ta_protocol a = TIME_PROFILE_ID
     \<and> length (ta_evidence_digest a) = 64 \<and> py_int 16 (ta_evidence_digest a) \<noteq> None
     \<and> length (ta_stellar_anchors a) + length (ta_rfc3161_anchors a) \<le> MAX_ANCHOR_COUNT
     \<and> (\<exists>anchors. map_result encode_rfc3161 (ta_rfc3161_anchors a) = Inr anchors \<and> d = encoded_entries a anchors)"
    unfolding encode_time_attestation_def guard_def by (simp add: andthen_eq_Inr) blast
  then show ?thesis
    using map_result_succeeds [of encode_rfc3161 "ta_rfc3161_anchors a"]
    unfolding encodable_def encode_rfc3161_succeeds by blast
qed

lemma encode_succeeds:
  "(\<exists>d. encode_time_attestation a = Inr d) \<longleftrightarrow> encodable a"
  using map_result_succeeds [of encode_rfc3161 "ta_rfc3161_anchors a"]
  by (auto simp: encode_eq_Inr encode_rfc3161_succeeds encodable_def)

lemma entries_lookup:
  "map_of (encoded_entries a anchors) ''version'' = Some (ta_version a)"
  "map_of (encoded_entries a anchors) ''protocol'' = Some (PStr (ta_protocol a))"
  "map_of (encoded_entries a anchors) ''evidenceDigest'' = Some (PStr (ta_evidence_digest a))"
  "map_of (encoded_entries a anchors) ''claimedTime'' = map_option encode_claimed (ta_claimed_time a)"
  "map_of (encoded_entries a anchors) ''observedTime'' = map_option encode_observed (ta_observed_time a)"
  "map_of (encoded_entries a anchors) ''stellarAnchors''
     = (if ta_stellar_anchors a = [] then None else Some (PList (map encode_stellar (ta_stellar_anchors a))))"
  "map_of (encoded_entries a anchors) ''rfc3161Anchors'' = (if anchors = [] then None else Some (PList anchors))"
  by (simp_all add: encoded_entries_def map_add_def split: option.splits)

lemma key_iff_map_of: "k \<in> fst ` set d \<longleftrightarrow> map_of d k \<noteq> None"
  by (simp add: map_of_eq_None_iff)

lemma decode_encoded_entries:
  assumes a: "encodable a" and anchors: "map_result encode_rfc3161 (ta_rfc3161_anchors a) = Inr anchors"
  shows "decode_time_attestation (PDict (encoded_entries a anchors))
    = Inr (a\<lparr>ta_rfc3161_anchors := map listed_chain (ta_rfc3161_anchors a)\<rparr>)"
proof -
  let ?d = "encoded_entries a anchors"
  have "validate_time_attestation_obj (PDict ?d) = Inr ?d"
    using a by (simp add: validate_time_attestation_obj_def dict_get_def entries_lookup guard_def encodable_def key_iff_map_of)
  moreover have "map_result decode_rfc3161 anchors = Inr (map listed_chain (ta_rfc3161_anchors a))"
    using map_result_compose [OF anchors decode_encode_rfc3161] .
  moreover have "decode_optional decode_claimed ?d ''claimedTime'' = Inr (ta_claimed_time a)"
    "decode_optional decode_observed ?d ''observedTime'' = Inr (ta_observed_time a)"
    by (simp_all add: decode_optional_def entries_lookup split: option.split)
  moreover have "decode_anchors decode_stellar ?d ''stellarAnchors'' = Inr (ta_stellar_anchors a)"
    by (simp add: decode_anchors_def dict_get_default_def entries_lookup py_iter_def)
  moreover have "decode_anchors decode_rfc3161 ?d ''rfc3161Anchors'' = map_result decode_rfc3161 anchors"
    by (simp add: decode_anchors_def dict_get_default_def entries_lookup py_iter_def)
  ultimately show ?thesis
    using a by (simp add: decode_time_attestation_def dict_get_def entries_lookup encodable_def)
qed

section \<open>The backdating level\<close>

definition risk_table :: "bool \<Rightarrow> rat option \<Rightarrow> rat option \<Rightarrow> string" where
  "risk_table has_anchor claimed observed =
     (case (claimed, observed) of
        (Some c, Some ob) \<Rightarrow>
          (let early = c < ob - 3600000; far = 86400000 < \<bar>c - ob\<bar> in
           if has_anchor then (if early then ''medium'' else if far then ''low'' else ''none'')
           else if early \<or> far then ''high'' else ''medium'')
      | (_, None) \<Rightarrow> if has_anchor then ''low'' else ''medium''
      | _ \<Rightarrow> if has_anchor then ''none'' else ''medium'')"

definition time_value :: "('a \<Rightarrow> pyval) \<Rightarrow> 'a option \<Rightarrow> rat option" where
  "time_value f v = (case v of None \<Rightarrow> None | Some x \<Rightarrow> (case py_num (f x) of Inl _ \<Rightarrow> Some 0 | Inr t \<Rightarrow> Some t))"

lemma level_drift:
  "rk_level (drift_risk c ob (anchor_risk a)) = risk_table (independent a) (Some c) (Some ob)"
proof -
  have "86400 < \<bar>c - ob\<bar> / 1000 \<longleftrightarrow> 86400000 < \<bar>c - ob\<bar>" by auto
  then show ?thesis by (auto simp: drift_risk_def anchor_risk_def risk_table_def Let_def)
qed

lemma risk_level:
  assumes "check_backdating_risk a = Inr r"
  shows "rk_level r = risk_table (independent a) (time_value ct_unix_ms (ta_claimed_time a)) (time_value ot_unix_ms (ta_observed_time a))"
proof (cases "ta_claimed_time a"; cases "ta_observed_time a")
  fix c ob assume c: "ta_claimed_time a = Some c" and ob: "ta_observed_time a = Some ob"
  with assms obtain x y where "py_num (ct_unix_ms c) = Inr x" "py_num (ot_unix_ms ob) = Inr y"
    and "rk_level r = rk_level (drift_risk x y (anchor_risk a))"
    by (auto simp: check_backdating_risk_def andthen_eq_Inr Let_def observed_risk_def)
  with c ob show ?thesis by (simp add: time_value_def level_drift)
qed (use assms in \<open>auto simp: check_backdating_risk_def andthen_eq_Inr Let_def observed_risk_def anchor_risk_def
       risk_table_def time_value_def split: sum.splits\<close>)

lemma risk_needs_times:
  "(\<exists>r. check_backdating_risk a = Inr r) \<longleftrightarrow>
     (\<forall>c ob. ta_claimed_time a = Some c \<longrightarrow> ta_observed_time a = Some ob \<longrightarrow>
        (\<exists>x y. py_num (ct_unix_ms c) = Inr x \<and> py_num (ot_unix_ms ob) = Inr y))"
  by (auto simp: check_backdating_risk_def andthen_eq_Inr Let_def split: option.splits)

section \<open>Chain verification\<close>

text \<open>What makes an anchor valid: a chain that is accepted at the anchor's own time.\<close>

definition chain_accepted :: "ChainContext \<Rightarrow> TrustStore option \<Rightarrow> pyval list \<Rightarrow> pyval list \<Rightarrow> RFC3161Anchor \<Rightarrow> bool" where
  "chain_accepted cc store roots revoked a \<longleftrightarrow>
     cc_module cc \<and> cc_crypto cc \<and>
     (\<exists>entries ts t r. py_iter (ra_certificate_chain a) = Some entries \<and> entries \<noteq> [] \<and> resolve_store store roots revoked = Inr ts
        \<and> from_timestamp_ms (ra_gen_time a) = Inr t \<and> chain_checks (cc_H cc) (cc_load cc) (cc_vouches cc) ts t entries = Inr r)"

lemma chain_result_status:
  assumes "chain_result cc chain ts t = Inr r"
  shows "cr_status r \<in> {''valid'', ''invalid'', ''unverified'', ''expired'', ''untrusted''}"
    and "cr_ok r \<longleftrightarrow> cr_status r = ''valid''"
    and "cr_status r = ''valid'' \<longleftrightarrow>
      cc_crypto cc \<and> (\<exists>entries. py_iter chain = Some entries \<and> (\<exists>r. chain_checks (cc_H cc) (cc_load cc) (cc_vouches cc) ts t entries = Inr r))"
proof -
  have v: "refused r \<or> cr_ok r \<and> cr_status r = ''valid''"
      "cr_ok r \<longleftrightarrow> crypto \<and> (\<exists>r. chain_checks H load vouches ts t chain = Inr r)"
    if "r = validate_rfc3161_certificate_chain crypto H load vouches now chain ts (Some t)" for crypto H load vouches now chain r
    using that chain_checks_ok [of H load vouches ts t chain]
    by (auto simp: validate_rfc3161_certificate_chain_def refused_def chain_fail_def split: sum.splits if_splits)
  obtain entries where r: "r = validate_rfc3161_certificate_chain (cc_crypto cc) (cc_H cc) (cc_load cc) (cc_vouches cc) t entries ts (Some t)"
    and entries: "py_iter chain = Some entries \<or> py_iter chain = None \<and> \<not> cc_crypto cc"
    using assms by (auto simp: chain_result_def split: option.splits if_splits)
  show "cr_status r \<in> {''valid'', ''invalid'', ''unverified'', ''expired'', ''untrusted''}"
    and ok: "cr_ok r \<longleftrightarrow> cr_status r = ''valid''"
    using v(1) [OF r] by (auto simp: refused_def)
  show "cr_status r = ''valid'' \<longleftrightarrow>
      cc_crypto cc \<and> (\<exists>entries. py_iter chain = Some entries \<and> (\<exists>r. chain_checks (cc_H cc) (cc_load cc) (cc_vouches cc) ts t entries = Inr r))"
    using v(2) [OF r] entries unfolding ok by auto
qed

text \<open>Verification rewrites the fingerprint, the status and the error of an anchor and nothing else.\<close>

definition same_evidence :: "RFC3161Anchor \<Rightarrow> RFC3161Anchor \<Rightarrow> bool" where
  "same_evidence a b \<longleftrightarrow>
     a\<lparr>ra_cert_fingerprint := PNone, ra_verification_status := PNone, ra_verification_error := PNone\<rparr>
     = b\<lparr>ra_cert_fingerprint := PNone, ra_verification_status := PNone, ra_verification_error := PNone\<rparr>"

lemma truthy_iter:
  "py_iter v = Some xs \<Longrightarrow> truthy v \<longleftrightarrow> xs \<noteq> []"
  by (cases v) (auto simp: py_iter_def)

lemma verified_anchor:
  assumes "verify_rfc3161_anchor_chain cc store roots revoked a = Inr b"
  shows "same_evidence a b" and "ra_verification_status b = PStr ''valid'' \<longleftrightarrow> chain_accepted cc store roots revoked a"
proof -
  show "same_evidence a b"
    using assms by (auto simp: verify_rfc3161_anchor_chain_def same_evidence_def andthen_eq_Inr split: if_splits)
  show "ra_verification_status b = PStr ''valid'' \<longleftrightarrow> chain_accepted cc store roots revoked a"
  proof (cases "truthy (ra_certificate_chain a) \<and> cc_module cc")
    case False
    then show ?thesis
      using assms by (auto simp: verify_rfc3161_anchor_chain_def chain_accepted_def truthy_iter split: if_splits)
  next
    case True
    with assms obtain ts t r where ts: "resolve_store store roots revoked = Inr ts" and t: "from_timestamp_ms (ra_gen_time a) = Inr t"
      and r: "chain_result cc (ra_certificate_chain a) ts t = Inr r"
      and b: "ra_verification_status b = PStr (if cr_status r \<in> {''valid'', ''invalid'', ''unverified'', ''expired'', ''untrusted''}
                      then cr_status r else ''invalid'')"
      by (auto simp: verify_rfc3161_anchor_chain_def andthen_eq_Inr)
    have "ra_verification_status b = PStr ''valid'' \<longleftrightarrow> cr_status r = ''valid''"
      unfolding b using chain_result_status(1) [OF r] by simp
    then show ?thesis
      using chain_result_status(3) [OF r] True by (auto simp: chain_accepted_def ts t truthy_iter)
  qed
qed

section \<open>Validation of what the service creates\<close>

lemma collect_nil [simp]: "collect_errors f [] = Inr []"
  by (simp add: collect_errors_def)

lemma note_if_nil [simp]: "note_if b msg = [] \<longleftrightarrow> \<not> b"
  by (simp add: note_if_def)

lemma created:
  assumes "create_time_attestation_endpoint now_ms (PDict d) = Reply (encoded, risk)"
  obtains s a where "dict_get d ''evidenceDigest'' = PStr s" "app_is_hex_32 (PStr s)"
    "encode_time_attestation a = Inr encoded" "check_backdating_risk a = Inr risk"
    "create_time_attestation now_ms s (dict_get d ''claimedTimeMs'')
       (dict_get_default d ''claimedSourceLabel'' (PStr ''device_clock'')) (dict_get_default d ''uncertaintyMs'' (PInt 0)) = Inr a"
  using assms
  by (auto simp: create_time_attestation_endpoint_def reply_of_def handling_def andthen_eq_Inr
      split: if_splits pyval.splits sum.splits)

lemma validate_created:
  assumes a: "create_time_attestation now_ms s claimed label u = Inr a" and risk: "check_backdating_risk a = Inr risk"
    and now: "0 \<le> now_ms" "now_ms \<le> later_ms + 300000"
  shows "\<exists>errors. validate_time_attestation other later_ms a s = Inr errors \<and>
    (errors = [] \<longleftrightarrow> claimed = PNone \<or> (\<exists>t. py_num claimed = Inr t \<and> 0 \<le> t \<and> t \<le> drift_limit later_ms))"
proof -
  have "drift_limit later_ms \<ge> of_int now_ms"
    using now by (simp add: drift_limit_def MAX_FUTURE_DRIFT_SECONDS_def del: of_int_add)
  then have observed: "time_errors other later_ms ''Observed'' (PInt now_ms) = Inr []"
    using now by (simp add: time_errors_def py_num_def note_if_def not_less)
  show ?thesis
  proof (cases "claimed = PNone")
    case True
    with a show ?thesis
      by (auto simp: create_time_attestation_def andthen_eq_Inr validate_time_attestation_def observed)
  next
    case False
    with a risk obtain t where t: "py_num claimed = Inr t"
      by (auto simp: create_time_attestation_def check_backdating_risk_def andthen_eq_Inr)
    then obtain es where "time_errors other later_ms ''Claimed'' claimed = Inr es" "es = [] \<longleftrightarrow> 0 \<le> t \<and> t \<le> drift_limit later_ms"
      by (auto simp: time_errors_def not_less)
    with a False t show ?thesis
      by (auto simp: create_time_attestation_def andthen_eq_Inr validate_time_attestation_def observed)
  qed
qed

subsection \<open>Properties\<close>

text \<open>
  C38: Encoding succeeds exactly on attestations of the supported version and profile with a 64-digit
  digest, at most ten anchors and iterable chains, and decoding the result gives the attestation
  back, its chains turned into lists.
\<close>

theorem time_attestation_roundtrip:
  "case encode_time_attestation a of
     Inl _ \<Rightarrow> \<not> encodable a
   | Inr d \<Rightarrow> encodable a \<and> decode_time_attestation (PDict d) = Inr (a\<lparr>ta_rfc3161_anchors := map listed_chain (ta_rfc3161_anchors a)\<rparr>)"
proof (cases "encode_time_attestation a")
  case (Inl e)
  then show ?thesis using encode_succeeds [of a] by simp
next
  case (Inr d)
  from Inr [unfolded encode_eq_Inr] show ?thesis by (auto simp: Inr decode_encoded_entries)
qed

text \<open>
  C39: An attestation the service has created, sent back to the validation route with its digest at
  a clock that is not more than five minutes behind, gets the risk it was created with and no error
  but one for a claimed time that is negative or more than five minutes ahead.
\<close>

theorem created_attestation_validates:
  assumes "create_time_attestation_endpoint now_ms (PDict d) = Reply (encoded, risk)"
    and "0 \<le> now_ms" and "now_ms \<le> later_ms + 300000"
  shows "\<exists>errors. validate_time_attestation_endpoint other later_ms
      (PDict [(''evidenceDigest'', dict_get d ''evidenceDigest''), (''timeAttestation'', PDict encoded)])
      = Reply (errors = [], errors, risk) \<and>
    (errors = [] \<longleftrightarrow> dict_get d ''claimedTimeMs'' = PNone \<or>
       (\<exists>t. py_num (dict_get d ''claimedTimeMs'') = Inr t \<and> 0 \<le> t \<and> t \<le> drift_limit later_ms))"
proof -
  from assms(1) obtain s a where s: "dict_get d ''evidenceDigest'' = PStr s" "app_is_hex_32 (PStr s)"
    and enc: "encode_time_attestation a = Inr encoded" and risk: "check_backdating_risk a = Inr risk"
    and a: "create_time_attestation now_ms s (dict_get d ''claimedTimeMs'')
       (dict_get_default d ''claimedSourceLabel'' (PStr ''device_clock'')) (dict_get_default d ''uncertaintyMs'' (PInt 0)) = Inr a"
    by (rule created)
  have "ta_rfc3161_anchors a = []" using a by (auto simp: create_time_attestation_def andthen_eq_Inr)
  with enc have "decode_time_attestation (PDict encoded) = Inr a"
    by (auto simp: encode_eq_Inr decode_encoded_entries)
  with validate_created [OF a risk assms(2,3), of other] s risk show ?thesis
    by (auto simp: validate_time_attestation_endpoint_def dict_get_def dict_get_default_def reply_of_def handling_def)
qed

definition sample_digest :: string where
  "sample_digest = replicate 64 (CHR ''0'')"

theorem created_attestation_validates_witness:
  "\<exists>encoded risk. create_time_attestation_endpoint 1000 (PDict [(''evidenceDigest'', PStr sample_digest), (''claimedTimeMs'', PInt (-1))])
      = Reply (encoded, risk) \<and>
    (\<exists>errors. errors \<noteq> [] \<and> validate_time_attestation_endpoint (\<lambda>_. []) 2000
      (PDict [(''evidenceDigest'', PStr sample_digest), (''timeAttestation'', PDict encoded)]) = Reply (errors = [], errors, risk))"
proof -
  define d where "d = [(''evidenceDigest'', PStr sample_digest), (''claimedTimeMs'', PInt (-1))]"
  have "case create_time_attestation_endpoint 1000 (PDict d) of Reply _ \<Rightarrow> True | _ \<Rightarrow> False"
    unfolding d_def by code_simp
  then obtain encoded risk where c: "create_time_attestation_endpoint 1000 (PDict d) = Reply (encoded, risk)"
    by (auto split: TimeReply.splits)
  show ?thesis
    using created_attestation_validates [OF c, of 2000 "\<lambda>_. []"] c
    by (auto simp: d_def dict_get_def py_num_def)
qed

text \<open>
  C40: The backdating level is \<open>high\<close> exactly without an anchor and with a claimed time more than an hour before
  or more than a day away from the observed one; an anchor of any kind and content lowers it to the
  first line of the table.
\<close>

theorem backdating_level_table:
  assumes "check_backdating_risk a = Inr r"
  shows "rk_level r = risk_table (ta_stellar_anchors a \<noteq> [] \<or> ta_rfc3161_anchors a \<noteq> [])
    (time_value ct_unix_ms (ta_claimed_time a)) (time_value ot_unix_ms (ta_observed_time a))"
  using risk_level [OF assms] unfolding independent_def .

definition sample_attestation :: TimeAttestation where
  "sample_attestation = \<lparr>ta_version = PInt 1, ta_protocol = TIME_PROFILE_ID, ta_evidence_digest = sample_digest,
     ta_claimed_time = Some \<lparr>ct_unix_ms = PInt 0, ct_source_label = PStr ''device_clock'', ct_uncertainty_ms = PInt 0\<rparr>,
     ta_observed_time = Some \<lparr>ot_unix_ms = PInt 4000000, ot_source_label = PStr ''backend_system_clock''\<rparr>,
     ta_stellar_anchors = [], ta_rfc3161_anchors = []\<rparr>"

theorem backdating_level_table_witness:
  "\<exists>r. check_backdating_risk sample_attestation = Inr r \<and> rk_level r = ''high''"
proof -
  obtain r where r: "check_backdating_risk sample_attestation = Inr r"
    by (simp add: check_backdating_risk_def sample_attestation_def py_num_def Let_def)
  show ?thesis
    using backdating_level_table [OF r] r
    by (simp add: sample_attestation_def risk_table_def time_value_def py_num_def Let_def)
qed

text \<open>
  C15: Verification of the anchors keeps everything but their fingerprint, status and error, and marks
  an anchor \<open>valid\<close> exactly when it brings a chain that is accepted at the time the anchor itself states; the
  token is not looked at, and a status the client sent is never kept as \<open>valid\<close>.
\<close>

theorem anchors_verified_exactly:
  assumes "verify_rfc3161_anchors cc store roots revoked a = Inr b"
  shows "b = a\<lparr>ta_rfc3161_anchors := ta_rfc3161_anchors b\<rparr> \<and>
    list_all2 (\<lambda>r s. same_evidence r s \<and> (ra_verification_status s = PStr ''valid'' \<longleftrightarrow> chain_accepted cc store roots revoked r))
      (ta_rfc3161_anchors a) (ta_rfc3161_anchors b)"
proof (cases "ta_rfc3161_anchors a = []")
  case False
  with assms obtain verified where v: "map_result (verify_rfc3161_anchor_chain cc store roots revoked) (ta_rfc3161_anchors a) = Inr verified"
    and b: "b = a\<lparr>ta_rfc3161_anchors := verified\<rparr>"
    by (auto simp: verify_rfc3161_anchors_def andthen_eq_Inr)
  from v show ?thesis
    unfolding map_result_iff b by (auto elim!: list_all2_mono simp: verified_anchor)
qed (use assms in \<open>simp add: verify_rfc3161_anchors_def\<close>)

definition sample_context :: ChainContext where
  "sample_context = \<lparr>cc_module = True, cc_crypto = True, cc_H = (\<lambda>x. x),
     cc_load = (\<lambda>_. Some \<lparr>x5_subject = ''tsa'', x5_issuer = ''tsa'', x5_serial_number = 7, x5_not_before = 0, x5_not_after = 10,
       x5_algorithm_oid = hd SUPPORTED_HASH_OIDS\<rparr>), cc_vouches = (\<lambda>_ _. True)\<rparr>"

definition sample_anchor :: RFC3161Anchor where
  "sample_anchor = \<lparr>ra_token_bytes = PStr ''anything'', ra_tsa_url = PStr [], ra_gen_time = PInt 5000, ra_policy_oid = PNone,
     ra_cert_fingerprint = PNone, ra_verification_status = PStr ''unverified'', ra_verification_error = PNone,
     ra_certificate_chain = PList [PStr ''AA=='']\<rparr>"

lemma sample_steps:
  "b64_strict ''AA=='' = Some [0]" "format_hex 7 = ''7''"
  "SUPPORTED_HASH_OIDS \<noteq> []"
  "fingerprint_der (\<lambda>x. x) [0] = ''00''"
  "from_timestamp_ms (PInt 5000) = Inr 5"
  by code_simp+

lemma sample_oid: "hd SUPPORTED_HASH_OIDS \<in> set SUPPORTED_HASH_OIDS"
  by (rule hd_in_set, rule sample_steps)

lemma sample_store: "resolve_store None [PStr ''AA==''] [] = Inr \<lparr>ts_root_der_list = [[0]], ts_revoked_serials_hex = []\<rparr>"
  by (simp add: resolve_store_def trust_store_from_b64_roots_def sample_steps make_trust_store_def MAX_CERT_DER_BYTES_def
      MAX_TRUST_STORE_ROOTS_def del: b64_strict.simps)

lemma sample_checks:
  "\<exists>r. chain_checks (cc_H sample_context) (cc_load sample_context) (cc_vouches sample_context)
     \<lparr>ts_root_der_list = [[0]], ts_revoked_serials_hex = []\<rparr> 5 [PStr ''AA==''] = Inr r"
  unfolding chain_checks_iff
  by (intro exI [of _ "[[0]]"] exI [of _ "[the (cc_load sample_context [0])]"])
     (simp add: sample_context_def carries_der_def sample_steps MAX_CERT_DER_BYTES_def MAX_CERTS_PER_CHAIN_def MAX_CHAIN_TOTAL_BYTES_def
       sample_oid anchored_def del: b64_strict.simps)

lemma sample_verified:
  "verify_rfc3161_anchor_chain sample_context None [PStr ''AA==''] [] sample_anchor = Inr b \<Longrightarrow> ra_verification_status b = PStr ''valid''"
  unfolding verified_anchor(2) chain_accepted_def
  using sample_checks by (simp add: sample_context_def sample_anchor_def py_iter_def sample_store sample_steps)

theorem anchors_verified_exactly_witness:
  "\<exists>b. verify_rfc3161_anchors sample_context None [PStr ''AA==''] [] (sample_attestation\<lparr>ta_rfc3161_anchors := [sample_anchor]\<rparr>) = Inr b \<and>
     map ra_verification_status (ta_rfc3161_anchors b) = [PStr ''valid''] \<and> chain_accepted sample_context None [PStr ''AA==''] [] sample_anchor"
proof -
  let ?v = "verify_rfc3161_anchors sample_context None [PStr ''AA==''] [] (sample_attestation\<lparr>ta_rfc3161_anchors := [sample_anchor]\<rparr>)"
  obtain s where s: "verify_rfc3161_anchor_chain sample_context None [PStr ''AA==''] [] sample_anchor = Inr s"
    by (simp add: verify_rfc3161_anchor_chain_def sample_anchor_def sample_context_def sample_store sample_steps chain_result_def py_iter_def)
  then obtain b where b: "?v = Inr b" and valid: "ta_rfc3161_anchors b = [s]"
    by (simp add: verify_rfc3161_anchors_def)
  show ?thesis
    using anchors_verified_exactly [OF b] b valid sample_verified [OF s] by simp
qed

end
