(* ===== verification/Envelope.thy ===== *)
theory Envelope
  imports Json
begin

text \<open>
  The metadata envelope that is hidden in a video, \<^verbatim>\<open>src/backend/envelope.py\<close>, and the error taxonomy it raises,
  \<^verbatim>\<open>src/backend/metadata_errors.py\<close>. SHA-256 is \<open>H\<close>. The compression library is two parameters: \<open>deflate\<close> is
  \<open>zlib.compress(_, level=9)\<close>, and \<open>inflate body n\<close> is what a fresh \<open>decompressobj\<close> holds after \<open>decompress(body, n)\<close>, or \<open>None\<close>
  when that raises. \<open>loads\<close> decodes UTF-8 and JSON, \<open>fromisoformat\<close> gives the instant and whether a time zone
  was present, \<open>fr\<close> prints floats, and \<open>now\<close> is the clock.

  The main results: packing and unpacking round-trip, and whatever unpacking returns is valid
  metadata whose bytes have the digest in the envelope.
\<close>

section \<open>The taxonomy\<close>

definition METADATA_MALFORMED :: string where "METADATA_MALFORMED = ''METADATA_MALFORMED''"
definition METADATA_MISSING_FIELD :: string where "METADATA_MISSING_FIELD = ''METADATA_MISSING_FIELD''"
definition METADATA_INVALID_FIELD :: string where "METADATA_INVALID_FIELD = ''METADATA_INVALID_FIELD''"
definition METADATA_UNSUPPORTED_VERSION :: string where "METADATA_UNSUPPORTED_VERSION = ''METADATA_UNSUPPORTED_VERSION''"
definition METADATA_OVERSIZED :: string where "METADATA_OVERSIZED = ''METADATA_OVERSIZED''"
definition METADATA_EXPIRED :: string where "METADATA_EXPIRED = ''METADATA_EXPIRED''"
definition METADATA_REVOKED :: string where "METADATA_REVOKED = ''METADATA_REVOKED''"
definition METADATA_DEPENDENCY_FAILURE :: string where "METADATA_DEPENDENCY_FAILURE = ''METADATA_DEPENDENCY_FAILURE''"

definition ERROR_STATUS :: "(string \<times> int) list" where
  "ERROR_STATUS =
     [(METADATA_MALFORMED, 400), (METADATA_MISSING_FIELD, 400), (METADATA_INVALID_FIELD, 400), (METADATA_UNSUPPORTED_VERSION, 400),
      (METADATA_OVERSIZED, 413), (METADATA_EXPIRED, 400), (METADATA_REVOKED, 403), (METADATA_DEPENDENCY_FAILURE, 503)]"

definition DEFAULT_MESSAGES :: "(string \<times> string) list" where
  "DEFAULT_MESSAGES =
     [(METADATA_MALFORMED, ''metadata must be a JSON object''),
      (METADATA_MISSING_FIELD, ''metadata is missing a required field''),
      (METADATA_INVALID_FIELD, ''metadata contains an invalid field value''),
      (METADATA_UNSUPPORTED_VERSION, ''metadata version is not supported''),
      (METADATA_OVERSIZED, ''metadata payload exceeds the allowed size limit''),
      (METADATA_EXPIRED, ''metadata artifact is expired''),
      (METADATA_REVOKED, ''metadata artifact has been revoked''),
      (METADATA_DEPENDENCY_FAILURE, ''a metadata dependency is unavailable'')]"

definition CLASSIFY_RULES :: "(string \<times> string list) list" where
  "CLASSIFY_RULES =
     [(METADATA_OVERSIZED, [''exceeds the'', ''too large'', ''size limit'', ''capacity'']),
      (METADATA_UNSUPPORTED_VERSION, [''unsupported metadata version'', ''unsupported version'', ''unknown version'']),
      (METADATA_MISSING_FIELD, [''missing required field'', ''is required'', ''missing field'']),
      (METADATA_MALFORMED, [''must be a json object'', ''valid json'', ''not a json'', ''must be an object'']),
      (METADATA_EXPIRED, [''expired'', ''outside its validity'', ''validity window'']),
      (METADATA_REVOKED, [''revoked'', ''revocation'']),
      (METADATA_DEPENDENCY_FAILURE, [''dependency'', ''unavailable'', ''timed out'', ''timeout'', ''upstream''])]"

definition is_known_code :: "string \<Rightarrow> bool" where
  "is_known_code code \<longleftrightarrow> code \<in> fst ` set ERROR_STATUS"

definition error_status :: "string \<Rightarrow> string + int" where
  "error_status code =
     (if is_known_code code then Inr (the (map_of ERROR_STATUS code)) else Inl (''unknown metadata error code: '' @ code))"

definition default_message :: "string \<Rightarrow> string + string" where
  "default_message code =
     (if is_known_code code then Inr (the (map_of DEFAULT_MESSAGES code)) else Inl (''unknown metadata error code: '' @ code))"

record MetadataError =
  me_code :: string
  me_status :: int
  me_field :: "string option"
  me_message :: string

text \<open>The constructor, for a known code; an empty message is replaced by the default one.\<close>

definition metadata_error :: "string \<Rightarrow> string \<Rightarrow> string option \<Rightarrow> MetadataError" where
  "metadata_error code message field =
     \<lparr>me_code = code, me_status = the (map_of ERROR_STATUS code), me_field = field,
      me_message = (if message = [] then the (map_of DEFAULT_MESSAGES code) else message)\<rparr>"

definition as_payload :: "MetadataError \<Rightarrow> (string \<times> pyval) list" where
  "as_payload e =
     [(''code'', PStr (me_code e)), (''message'', PStr (me_message e))]
     @ (case me_field e of None \<Rightarrow> [] | Some f \<Rightarrow> if f = [] then [] else [(''field'', PStr f)])"

definition classify_validation_error :: "string \<Rightarrow> MetadataError" where
  "classify_validation_error exc_text =
     (let text = py_lower exc_text in
      case find (\<lambda>(code, needles). list_ex (\<lambda>needle. contains needle text) needles) CLASSIFY_RULES of
        Some (code, _) \<Rightarrow> metadata_error code [] None
      | None \<Rightarrow> metadata_error METADATA_INVALID_FIELD [] None)"

section \<open>Validation\<close>

definition MAGIC_V1 :: bytes where
  "MAGIC_V1 = encode_ascii ''HRPSTG1''"

definition MAGIC_V2 :: bytes where
  "MAGIC_V2 = encode_ascii ''HRPSTG2''"

definition MAX_PAYLOAD_BYTES :: nat where
  "MAX_PAYLOAD_BYTES = 64 * 1024"

definition MAX_DECOMPRESSED_BYTES :: nat where
  "MAX_DECOMPRESSED_BYTES = MAX_PAYLOAD_BYTES"

definition ALLOWED_TIERS :: "string list" where
  "ALLOWED_TIERS = [''silent'', ''source'', ''seal'']"

datatype EnvelopeError = Metadata MetadataError | EnvelopeTypeError

definition invalid_field :: "string \<Rightarrow> string \<Rightarrow> EnvelopeError" where
  "invalid_field message field = Metadata (metadata_error METADATA_INVALID_FIELD message (Some field))"

definition canonical_json :: "(rat \<Rightarrow> string) \<Rightarrow> (string \<times> pyval) list \<Rightarrow> bytes" where
  "canonical_json fr metadata = encode_ascii (dumps (True, fr) (PDict metadata))"

definition canonical_metadata_hash :: "(bytes \<Rightarrow> bytes) \<Rightarrow> (rat \<Rightarrow> string) \<Rightarrow> (string \<times> pyval) list \<Rightarrow> string" where
  "canonical_metadata_hash H fr metadata = tohex (H (canonical_json fr metadata))"

definition is_hex_32 :: "pyval \<Rightarrow> bool" where
  "is_hex_32 value = (case value of PStr s \<Rightarrow> length s = 64 \<and> list_all is_hex s | _ \<Rightarrow> False)"

text \<open>The clock and the date parser of the timestamp check.\<close>

record TimeContext =
  tc_now :: rat
  tc_fromisoformat :: "string \<Rightarrow> (rat \<times> bool) option"

definition replace_zulu :: "string \<Rightarrow> string" where
  "replace_zulu s = concat (map (\<lambda>c. if c = CHR ''Z'' \<or> c = CHR ''z'' then ''+00:00'' else [c]) s)"

definition validate_timestamp :: "TimeContext \<Rightarrow> pyval \<Rightarrow> EnvelopeError + unit" where
  "validate_timestamp tc value =
     (case value of
        PStr s \<Rightarrow>
          if py_strip s = [] then Inl (invalid_field ''metadata timestamp must be a string'' ''timestamp'')
          else (case tc_fromisoformat tc (replace_zulu (py_strip s)) of
                  None \<Rightarrow> Inl (invalid_field ''metadata timestamp must be a timezone-aware ISO-8601 string'' ''timestamp'')
                | Some (t, aware) \<Rightarrow>
                    if \<not> aware then Inl (invalid_field ''metadata timestamp must be timezone-aware'' ''timestamp'')
                    else if tc_now tc + 300 < t then Inl (invalid_field ''metadata timestamp is unreasonably far in the future'' ''timestamp'')
                    else Inr ())
      | _ \<Rightarrow> Inl (invalid_field ''metadata timestamp must be a string'' ''timestamp''))"

text \<open>The required fields in sorted order: the first missing one is reported.\<close>

definition REQUIRED_FIELDS :: "string list" where
  "REQUIRED_FIELDS = [''proofId'', ''protocol'', ''sourceHash'', ''tier'', ''timestamp'', ''version'']"

definition check_tier :: "pyval \<Rightarrow> EnvelopeError + unit" where
  "check_tier tier =
     (case tier of
        PStr s \<Rightarrow> guard (s \<in> set ALLOWED_TIERS) (invalid_field ''metadata tier is invalid'' ''tier'')
      | PList _ \<Rightarrow> Inl EnvelopeTypeError
      | PDict _ \<Rightarrow> Inl EnvelopeTypeError
      | _ \<Rightarrow> Inl (invalid_field ''metadata tier is invalid'' ''tier''))"

definition validate_base_fields :: "TimeContext \<Rightarrow> (string \<times> pyval) list \<Rightarrow> EnvelopeError + unit" where
  "validate_base_fields tc metadata =
     andthen (case find (\<lambda>f. f \<notin> fst ` set metadata) REQUIRED_FIELDS of
                None \<Rightarrow> Inr ()
              | Some field \<Rightarrow> Inl (Metadata (metadata_error METADATA_MISSING_FIELD (''metadata missing required field: '' @ field) (Some field)))) (\<lambda>_.
     andthen (guard (dict_get metadata ''protocol'' = PStr ''harpocrates'') (invalid_field ''metadata protocol must be harpocrates'' ''protocol'')) (\<lambda>_.
     andthen (check_tier (dict_get metadata ''tier'')) (\<lambda>_.
     andthen (guard (is_hex_32 (dict_get metadata ''sourceHash'')) (invalid_field ''metadata sourceHash must be a 32-byte hex string'' ''sourceHash'')) (\<lambda>_.
     andthen (guard (is_hex_32 (dict_get metadata ''proofId'')) (invalid_field ''metadata proofId must be a 32-byte hex string'' ''proofId'')) (\<lambda>_.
       validate_timestamp tc (dict_get metadata ''timestamp''))))))"

definition validate_v1 :: "TimeContext \<Rightarrow> (string \<times> pyval) list \<Rightarrow> EnvelopeError + unit" where
  "validate_v1 tc metadata =
     andthen (validate_base_fields tc metadata) (\<lambda>_.
       guard (dict_get metadata ''version'' = PInt 1) (invalid_field ''metadata version must be 1'' ''version''))"

definition validate_v2 :: "TimeContext \<Rightarrow> (string \<times> pyval) list \<Rightarrow> EnvelopeError + (string \<times> pyval) list" where
  "validate_v2 tc metadata =
     andthen (validate_base_fields tc metadata) (\<lambda>_.
       case dict_get metadata ''version'' of
         PInt version \<Rightarrow> Inr (if version < 2 then AList.update ''version'' (PInt 2) metadata else metadata)
       | _ \<Rightarrow> Inl (invalid_field ''metadata version must be an integer'' ''version''))"

section \<open>Packing and unpacking\<close>

text \<open>\<open>value == n\<close> for an integer \<open>n\<close>.\<close>

definition py_eq_int :: "pyval \<Rightarrow> int \<Rightarrow> bool" where
  "py_eq_int v n = (case v of PInt i \<Rightarrow> i = n | PBool b \<Rightarrow> (if b then 1 else 0) = n | PFloat r \<Rightarrow> r = of_int n | _ \<Rightarrow> False)"

definition oversized :: EnvelopeError where
  "oversized = Metadata (metadata_error METADATA_OVERSIZED ''metadata payload exceeds the 64 KiB steganography limit'' None)"

definition versioned :: "(pyval \<Rightarrow> string) \<Rightarrow> TimeContext \<Rightarrow> (string \<times> pyval) list \<Rightarrow> pyval \<Rightarrow> EnvelopeError + (string \<times> pyval) list \<times> bytes" where
  "versioned other tc metadata version =
     (if py_eq_int version 1 then andthen (validate_v1 tc metadata) (\<lambda>_. Inr (metadata, MAGIC_V1))
      else if py_eq_int version 2 then andthen (validate_v2 tc metadata) (\<lambda>m. Inr (m, MAGIC_V2))
      else Inl (Metadata (metadata_error METADATA_UNSUPPORTED_VERSION (''unsupported metadata version '' @ py_str other version) None)))"

definition frame_body :: "(bytes \<Rightarrow> bytes) \<Rightarrow> bytes \<Rightarrow> bytes \<Rightarrow> bytes" where
  "frame_body H magic body = magic @ nat_be 4 (length body) @ H body @ body"

definition pack_envelope ::
  "(bytes \<Rightarrow> bytes) \<Rightarrow> (bytes \<Rightarrow> bytes) \<Rightarrow> (rat \<Rightarrow> string) \<Rightarrow> (pyval \<Rightarrow> string) \<Rightarrow> TimeContext \<Rightarrow> (string \<times> pyval) list \<Rightarrow> pyval
   \<Rightarrow> EnvelopeError + bytes" where
  "pack_envelope H deflate fr other tc metadata version =
     andthen (versioned other tc metadata version) (\<lambda>(m, magic).
       let canonical = canonical_json fr m in
       andthen (guard (length canonical \<le> MAX_DECOMPRESSED_BYTES) oversized) (\<lambda>_.
         let body = deflate canonical in
         andthen (guard (length body \<le> MAX_PAYLOAD_BYTES) oversized) (\<lambda>_. Inr (frame_body H magic body))))"

record Inflated =
  inf_data :: bytes
  inf_unconsumed_tail :: bytes
  inf_eof :: bool
  inf_unused_data :: bytes

definition decompress_metadata :: "(bytes \<Rightarrow> nat \<Rightarrow> Inflated option) \<Rightarrow> bytes \<Rightarrow> bytes option" where
  "decompress_metadata inflate body =
     (case inflate body (MAX_DECOMPRESSED_BYTES + 1) of
        None \<Rightarrow> None
      | Some r \<Rightarrow>
          if MAX_DECOMPRESSED_BYTES < length (inf_data r) then None
          else if inf_unconsumed_tail r \<noteq> [] then None
          else if \<not> inf_eof r then None
          else if inf_unused_data r \<noteq> [] then None
          else Some (inf_data r))"

definition validated :: "TimeContext \<Rightarrow> bytes \<Rightarrow> (string \<times> pyval) list \<Rightarrow> (string \<times> pyval) list option" where
  "validated tc magic d =
     (if magic = MAGIC_V1 then (case validate_v1 tc d of Inl _ \<Rightarrow> None | Inr _ \<Rightarrow> Some d)
      else (case validate_v2 tc d of Inl _ \<Rightarrow> None | Inr m \<Rightarrow> Some m))"

definition unpack_envelope ::
  "(bytes \<Rightarrow> bytes) \<Rightarrow> (bytes \<Rightarrow> nat \<Rightarrow> Inflated option) \<Rightarrow> (bytes \<Rightarrow> pyval option) \<Rightarrow> TimeContext \<Rightarrow> bytes
   \<Rightarrow> (string \<times> pyval) list option" where
  "unpack_envelope H inflate loads tc data =
     (if length data < 7 + 4 + 32 then None
      else let magic = take 7 data in
        if magic \<notin> {MAGIC_V1, MAGIC_V2} then None
        else let size = be_nat (take 4 (drop 7 data)) in
          if MAX_PAYLOAD_BYTES < size then None
          else if length data < 43 + size then None
          else let checksum = take 32 (drop 11 data); body = take size (drop 43 data) in
            if H body \<noteq> checksum then None
            else (case decompress_metadata inflate body of
                    None \<Rightarrow> None
                  | Some inflated \<Rightarrow>
                      (case loads inflated of
                         Some (PDict d) \<Rightarrow> validated tc magic d
                       | _ \<Rightarrow> None)))"

section \<open>Canonical dictionaries\<close>

lemma map_of_canon:
  assumes "distinct (map fst m)" "canon (PDict m) = PDict d"
  shows "map_of d k = map_option canon (map_of m k)" "distinct (map fst d)"
proof -
  let ?m = "map (\<lambda>(k, v). (k, canon v)) m"
  have d: "d = sort_key fst ?m" using assms(2) by simp
  have keys: "map fst ?m = map fst m" by (induction m) auto
  have "mset (map fst d) = mset (map fst m)" unfolding d keys [symmetric] by (simp only: mset_map mset_sort)
  then show dist: "distinct (map fst d)" using assms(1) mset_eq_imp_distinct_iff by blast
  have "set d = set ?m" by (simp only: d set_sort)
  then have "map_of d = map_of ?m"
    using map_of_inject_set [of d ?m] dist assms(1) by (simp only: keys)
  moreover have "map_of ?m k = map_option canon (map_of m k)" by (induction m) auto
  ultimately show "map_of d k = map_option canon (map_of m k)" by metis
qed

lemma canon_idem [simp]: "canon (canon v) = canon v"
proof (induction v rule: canon.induct)
  case (1 xs)
  then show ?case by simp
next
  case (2 d)
  let ?d = "sort_key fst (map (\<lambda>(k, v). (k, canon v)) d)"
  have "map (\<lambda>(k, v). (k, canon v)) ?d = ?d"
  proof (rule map_idI)
    fix p assume "p \<in> set ?d"
    then obtain k v where "(k, v) \<in> set d" "p = (k, canon v)" by auto
    then show "(case p of (k, v) \<Rightarrow> (k, canon v)) = p" using 2 by fastforce
  qed
  then show ?case by (simp add: sort_key_id_if_sorted)
qed simp_all

section \<open>Validation is stable\<close>

text \<open>The canonical form of valid metadata is valid, at this or any later time.\<close>

definition later :: "TimeContext \<Rightarrow> TimeContext \<Rightarrow> bool" where
  "later tc tc' \<longleftrightarrow> tc_now tc \<le> tc_now tc' \<and> tc_fromisoformat tc' = tc_fromisoformat tc"

lemma validate_timestamp_later:
  "later tc tc' \<Longrightarrow> validate_timestamp tc v = Inr () \<Longrightarrow> validate_timestamp tc' (canon v) = Inr ()"
  by (cases v) (auto simp: later_def validate_timestamp_def split: if_splits option.splits)

lemma base_fields_iff:
  "validate_base_fields tc m = Inr () \<longleftrightarrow>
     list_all (\<lambda>f. map_of m f \<noteq> None) REQUIRED_FIELDS \<and> dict_get m ''protocol'' = PStr ''harpocrates'' \<and>
     check_tier (dict_get m ''tier'') = Inr () \<and> is_hex_32 (dict_get m ''sourceHash'') \<and> is_hex_32 (dict_get m ''proofId'') \<and>
     validate_timestamp tc (dict_get m ''timestamp'') = Inr ()"
  by (auto simp: validate_base_fields_def andthen_eq_Inr list_all_iff find_None_iff find_Some_iff map_of_eq_None_iff split: option.splits
      dest!: nth_mem)

lemma dict_get_canon:
  assumes "distinct (map fst m)" "canon (PDict m) = PDict d"
  shows "dict_get d k = canon (dict_get m k)"
  by (simp add: dict_get_def map_of_canon(1) [OF assms] split: option.split)

lemma base_fields_canon:
  assumes m: "distinct (map fst m)" "canon (PDict m) = PDict d" and later: "later tc tc'"
    and ok: "validate_base_fields tc m = Inr ()"
  shows "validate_base_fields tc' d = Inr ()"
proof -
  have hex: "is_hex_32 v \<Longrightarrow> is_hex_32 (canon v)" and tier: "check_tier v = Inr () \<Longrightarrow> check_tier (canon v) = Inr ()" for v
    by (cases v; simp add: is_hex_32_def check_tier_def)+
  show ?thesis
    using ok validate_timestamp_later [OF later]
    by (simp add: base_fields_iff dict_get_canon [OF m] map_of_canon [OF m] hex tier)
qed

lemma validated_canon:
  assumes v: "versioned other tc m0 version = Inr (m, magic)" and m0: "distinct (map fst m0)"
    and later: "later tc tc'" and d: "canon (PDict m) = PDict d"
  shows "validated tc' magic d = Some d" and "magic \<in> {MAGIC_V1, MAGIC_V2}" and "distinct (map fst m)"
proof -
  have ne: "MAGIC_V2 \<noteq> MAGIC_V1" by code_simp
  have "distinct (map fst m) \<and> validated tc' magic d = Some d \<and> magic \<in> {MAGIC_V1, MAGIC_V2}"
  proof (cases "py_eq_int version 1")
    case True
    with v have m: "m = m0" "magic = MAGIC_V1" "validate_base_fields tc m0 = Inr ()" "dict_get m0 ''version'' = PInt 1"
      by (auto simp: versioned_def validate_v1_def andthen_eq_Inr)
    then show ?thesis
      using base_fields_canon [OF m0 d [unfolded m(1)] later m(3)] dict_get_canon [OF m0 d [unfolded m(1)]] m0
      by (simp add: validated_def validate_v1_def)
  next
    case False
    with v obtain i where m: "magic = MAGIC_V2" "validate_base_fields tc m0 = Inr ()" "dict_get m0 ''version'' = PInt i"
      "m = (if i < 2 then AList.update ''version'' (PInt 2) m0 else m0)"
      by (auto simp: versioned_def validate_v2_def andthen_eq_Inr split: if_splits pyval.splits)
    have dist: "distinct (map fst m)" using m0 m(4) by (simp add: distinct_update)
    have get: "dict_get m k = (if i < 2 \<and> k = ''version'' then PInt 2 else dict_get m0 k)" for k
      using m(4) by (auto simp: dict_get_def update_conv')
    have ver: "dict_get m ''version'' = PInt (max i 2)" using get m(3) by auto
    have dom: "map_of m0 f \<noteq> None \<Longrightarrow> map_of m f \<noteq> None" for f
      using m(4) by (auto simp: update_conv')
    have "validate_base_fields tc m = Inr ()"
      using m(2) dom by (auto simp: base_fields_iff get list_all_iff)
    then have "validate_base_fields tc' d = Inr ()" using base_fields_canon [OF dist d later] by simp
    then show ?thesis
      using dist ver m(1) ne by (simp add: validated_def validate_v2_def dict_get_canon [OF dist d])
  qed
  then show "validated tc' magic d = Some d" "magic \<in> {MAGIC_V1, MAGIC_V2}" "distinct (map fst m)" by simp_all
qed

section \<open>Framing\<close>

lemma magic_length: "magic \<in> {MAGIC_V1, MAGIC_V2} \<Longrightarrow> length magic = 7"
  by (auto simp: MAGIC_V1_def MAGIC_V2_def encode_ascii_def)

lemma unpack_frame:
  assumes "magic \<in> {MAGIC_V1, MAGIC_V2}" "length (H body) = 32" "length body \<le> MAX_PAYLOAD_BYTES"
  shows "unpack_envelope H inflate loads tc (frame_body H magic body @ rest) =
    (case decompress_metadata inflate body of
       None \<Rightarrow> None
     | Some inflated \<Rightarrow> (case loads inflated of Some (PDict d) \<Rightarrow> validated tc magic d | _ \<Rightarrow> None))"
proof -
  have "length body < 256 ^ 4" using assms(3) by (simp add: MAX_PAYLOAD_BYTES_def)
  then have size: "be_nat (nat_be 4 (length body)) = length body" by (rule be_nat_nat_be)
  have len: "length magic = 7" by (rule magic_length) (rule assms(1))
  have parts: "take 7 (frame_body H magic body @ rest) = magic" "take 4 (drop 7 (frame_body H magic body @ rest)) = nat_be 4 (length body)"
    "take 32 (drop 11 (frame_body H magic body @ rest)) = H body" "take (length body) (drop 43 (frame_body H magic body @ rest)) = body"
    "length (frame_body H magic body @ rest) = 43 + length body + length rest"
    using len assms(2) by (simp_all add: frame_body_def)
  show ?thesis
    unfolding unpack_envelope_def Let_def parts size using assms(1,3) by (simp split: option.split)
qed

lemma unpack_Some:
  assumes "unpack_envelope H inflate loads tc data = Some d"
  obtains magic body rest inflated d0 where "data = frame_body H magic body @ rest" "magic \<in> {MAGIC_V1, MAGIC_V2}"
    "length body \<le> MAX_PAYLOAD_BYTES" "decompress_metadata inflate body = Some inflated" "loads inflated = Some (PDict d0)"
    "validated tc magic d0 = Some d"
proof -
  define size where "size = be_nat (take 4 (drop 7 data))"
  define body where "body = take size (drop 43 data)"
  have facts: "43 + size \<le> length data" "take 7 data \<in> {MAGIC_V1, MAGIC_V2}" "size \<le> MAX_PAYLOAD_BYTES" "H body = take 32 (drop 11 data)"
    and rest: "\<exists>inflated d0. decompress_metadata inflate body = Some inflated \<and> loads inflated = Some (PDict d0) \<and> validated tc (take 7 data) d0 = Some d"
    using assms by (auto simp: unpack_envelope_def Let_def size_def body_def split: if_splits option.splits pyval.splits)
  have len: "length body = size" using facts(1) by (simp add: body_def)
  have "length (take 4 (drop 7 data)) = 4" using facts(1) by simp
  then have "nat_be 4 size = take 4 (drop 7 data)"
    unfolding size_def by (metis nat_be_be_nat)
  then have "frame_body H (take 7 data) body = take 7 data @ take 4 (drop 7 data) @ take 32 (drop 11 data) @ body"
    by (simp add: frame_body_def len facts(4))
  moreover have "take (7 + (4 + (32 + size))) data = take 7 data @ take 4 (drop 7 data) @ take 32 (drop 11 data) @ body"
    unfolding take_add body_def by simp
  ultimately have "frame_body H (take 7 data) body = take (43 + size) data" by simp
  then have "data = frame_body H (take 7 data) body @ drop (43 + size) data" by simp
  with facts rest len that show ?thesis by blast
qed

text \<open>What packing relies on: the compression and the JSON text of this metadata can be inverted.\<close>

definition zlib_inverts :: "(bytes \<Rightarrow> bytes) \<Rightarrow> (bytes \<Rightarrow> nat \<Rightarrow> Inflated option) \<Rightarrow> bytes \<Rightarrow> bool" where
  "zlib_inverts deflate inflate x \<longleftrightarrow>
     inflate (deflate x) (MAX_DECOMPRESSED_BYTES + 1) = Some \<lparr>inf_data = x, inf_unconsumed_tail = [], inf_eof = True, inf_unused_data = []\<rparr>"

definition json_inverts :: "(bytes \<Rightarrow> pyval option) \<Rightarrow> (rat \<Rightarrow> string) \<Rightarrow> (string \<times> pyval) list \<Rightarrow> bool" where
  "json_inverts loads fr m \<longleftrightarrow> loads (canonical_json fr m) = Some (canon (PDict m))"

lemma pack_unpack:
  assumes H: "\<And>x. length (H x) = 32" and m0: "distinct (map fst m0)" and later: "later tc tc'"
    and pack: "pack_envelope H deflate fr other tc m0 version = Inr data"
    and zlib: "\<And>m magic. versioned other tc m0 version = Inr (m, magic) \<Longrightarrow> zlib_inverts deflate inflate (canonical_json fr m)"
    and json: "\<And>m magic. versioned other tc m0 version = Inr (m, magic) \<Longrightarrow> json_inverts loads fr m"
  obtains m magic d where "versioned other tc m0 version = Inr (m, magic)" "canon (PDict m) = PDict d"
    "data = frame_body H magic (deflate (canonical_json fr m))" "magic \<in> {MAGIC_V1, MAGIC_V2}"
    "length (deflate (canonical_json fr m)) \<le> MAX_PAYLOAD_BYTES"
    "\<And>rest. unpack_envelope H inflate loads tc' (data @ rest) = Some d"
proof -
  from pack obtain m magic where v: "versioned other tc m0 version = Inr (m, magic)"
    and small: "length (canonical_json fr m) \<le> MAX_DECOMPRESSED_BYTES" "length (deflate (canonical_json fr m)) \<le> MAX_PAYLOAD_BYTES"
    and data: "data = frame_body H magic (deflate (canonical_json fr m))"
    by (auto simp: pack_envelope_def andthen_eq_Inr Let_def)
  obtain d where d: "canon (PDict m) = PDict d" by simp
  have magic: "magic \<in> {MAGIC_V1, MAGIC_V2}" by (rule validated_canon(2) [OF v m0 later d])
  have "decompress_metadata inflate (deflate (canonical_json fr m)) = Some (canonical_json fr m)"
    using zlib [OF v] small(1) by (simp add: zlib_inverts_def decompress_metadata_def)
  then have "unpack_envelope H inflate loads tc' (data @ rest) = Some d" for rest
    using unpack_frame [OF magic H small(2), where inflate = inflate and loads = loads and tc = tc' and rest = rest] json [OF v]
      validated_canon(1) [OF v m0 later d] d
    by (simp add: data json_inverts_def)
  with that v d data magic small(2) show ?thesis by blast
qed

subsection \<open>Properties\<close>

text \<open>
  C?: Packing and unpacking. Whatever is packed from a dictionary unpacks, at that or any later
  time and with any bytes behind it, to the validated and upgraded metadata in canonical form, whose
  canonical hash is the same.
\<close>

theorem envelope_roundtrip:
  assumes "\<forall>x. length (H x) = 32" and "distinct (map fst m0)" and "later tc tc'"
    and "pack_envelope H deflate fr other tc m0 version = Inr data"
    and "\<forall>m magic. versioned other tc m0 version = Inr (m, magic) \<longrightarrow> zlib_inverts deflate inflate (canonical_json fr m) \<and> json_inverts loads fr m"
  shows "\<exists>m magic d. versioned other tc m0 version = Inr (m, magic) \<and> canon (PDict m) = PDict d \<and>
     unpack_envelope H inflate loads tc' (data @ rest) = Some d \<and> canonical_metadata_hash H fr d = canonical_metadata_hash H fr m"
proof -
  obtain m magic d where v: "versioned other tc m0 version = Inr (m, magic)" and d: "canon (PDict m) = PDict d"
    and u: "unpack_envelope H inflate loads tc' (data @ rest) = Some d"
    by (rule pack_unpack [OF _ assms(2,3,4)]) (use assms(1,5) in blast)+
  have "dumps (True, fr) (PDict d) = dumps (True, fr) (PDict m)"
    unfolding dumps_def d [symmetric] by (simp only: canon_idem)
  with v d u show ?thesis by (auto simp: canonical_metadata_hash_def canonical_json_def)
qed

definition sample_hex :: string where
  "sample_hex = replicate 64 (CHR ''a'')"

definition sample_metadata :: "(string \<times> pyval) list" where
  "sample_metadata = [(''version'', PInt 1), (''protocol'', PStr ''harpocrates''), (''tier'', PStr ''seal''), (''sourceHash'', PStr sample_hex),
     (''proofId'', PStr sample_hex), (''timestamp'', PStr ''2024-01-01T00:00:00Z'')]"

definition upgraded_metadata :: "(string \<times> pyval) list" where
  "upgraded_metadata = AList.update ''version'' (PInt 2) sample_metadata"

definition sample_context :: TimeContext where
  "sample_context = \<lparr>tc_now = 10, tc_fromisoformat = (\<lambda>_. Some (5, True))\<rparr>"

lemma sample_versioned: "versioned (\<lambda>_. []) sample_context sample_metadata (PInt 2) = Inr (upgraded_metadata, MAGIC_V2)"
proof -
  have "is_hex_32 (PStr sample_hex)" "py_strip ''2024-01-01T00:00:00Z'' \<noteq> []" by code_simp+
  then have "validate_base_fields sample_context sample_metadata = Inr ()"
    by (simp add: base_fields_iff REQUIRED_FIELDS_def sample_metadata_def dict_get_def check_tier_def ALLOWED_TIERS_def
        validate_timestamp_def sample_context_def)
  then show ?thesis
    by (simp add: versioned_def py_eq_int_def validate_v2_def upgraded_metadata_def) (simp add: sample_metadata_def dict_get_def)
qed

lemma sample_packed:
  "pack_envelope (\<lambda>_. replicate 32 7) (\<lambda>_. [1]) (\<lambda>_. []) (\<lambda>_. []) sample_context sample_metadata (PInt 2)
     = Inr (frame_body (\<lambda>_. replicate 32 7) MAGIC_V2 [1])"
proof -
  have "length (canonical_json (\<lambda>_. []) upgraded_metadata) \<le> 400" by code_simp
  then have "length (canonical_json (\<lambda>_. []) upgraded_metadata) \<le> MAX_DECOMPRESSED_BYTES"
    by (simp add: MAX_DECOMPRESSED_BYTES_def MAX_PAYLOAD_BYTES_def)
  then show ?thesis by (simp add: pack_envelope_def sample_versioned Let_def guard_def MAX_PAYLOAD_BYTES_def)
qed

definition sample_inflate :: "bytes \<Rightarrow> nat \<Rightarrow> Inflated option" where
  "sample_inflate _ _ = Some \<lparr>inf_data = canonical_json (\<lambda>_. []) upgraded_metadata, inf_unconsumed_tail = [], inf_eof = True, inf_unused_data = []\<rparr>"

definition sample_loads :: "bytes \<Rightarrow> pyval option" where
  "sample_loads _ = Some (canon (PDict upgraded_metadata))"

lemma sample_codec:
  "distinct (map fst sample_metadata)" "later sample_context (sample_context\<lparr>tc_now := 20\<rparr>)"
  "\<forall>m magic. versioned (\<lambda>_. []) sample_context sample_metadata (PInt 2) = Inr (m, magic) \<longrightarrow>
     zlib_inverts (\<lambda>_. [1]) sample_inflate (canonical_json (\<lambda>_. []) m) \<and> json_inverts sample_loads (\<lambda>_. []) m"
    apply (simp add: sample_metadata_def)
   apply (simp add: later_def sample_context_def)
  apply (simp add: sample_versioned zlib_inverts_def json_inverts_def sample_inflate_def sample_loads_def del: canon.simps)
  done

theorem envelope_roundtrip_witness:
  "\<exists>data d. pack_envelope (\<lambda>_. replicate 32 7) (\<lambda>_. [1]) (\<lambda>_. []) (\<lambda>_. []) sample_context sample_metadata (PInt 2) = Inr data \<and>
     canon (PDict upgraded_metadata) = PDict d \<and>
     unpack_envelope (\<lambda>_. replicate 32 7) sample_inflate sample_loads (sample_context\<lparr>tc_now := 20\<rparr>) data = Some d"
  using envelope_roundtrip [OF _ sample_codec(1,2) sample_packed sample_codec(3), where rest = "[]"] sample_packed
  by (auto simp: sample_versioned simp del: canon.simps)

text \<open>
  C?: Unpacking is safe. Whatever it returns is valid metadata of the version the magic announces, in an envelope
  that states the length and the digest of its body, and neither the body nor what it inflates to is larger than 64 KiB.
\<close>

theorem unpack_sound:
  assumes "unpack_envelope H inflate loads tc data = Some d"
  shows "\<exists>magic body rest inflated. data = frame_body H magic body @ rest \<and> length body \<le> 65536 \<and>
     decompress_metadata inflate body = Some inflated \<and> length inflated \<le> 65536 \<and> validate_base_fields tc d = Inr () \<and>
     (magic = MAGIC_V1 \<and> dict_get d ''version'' = PInt 1 \<or> magic = MAGIC_V2 \<and> (\<exists>i \<ge> 2. dict_get d ''version'' = PInt i))"
proof -
  obtain magic body rest inflated d0 where f: "data = frame_body H magic body @ rest" "magic \<in> {MAGIC_V1, MAGIC_V2}"
    "length body \<le> MAX_PAYLOAD_BYTES" "decompress_metadata inflate body = Some inflated" "loads inflated = Some (PDict d0)"
    and v: "validated tc magic d0 = Some d" by (rule unpack_Some [OF assms])
  have "length inflated \<le> 65536"
    using f(4) by (auto simp: decompress_metadata_def MAX_DECOMPRESSED_BYTES_def MAX_PAYLOAD_BYTES_def split: option.splits if_splits)
  moreover have "validate_base_fields tc d = Inr () \<and>
     (magic = MAGIC_V1 \<and> dict_get d ''version'' = PInt 1 \<or> magic = MAGIC_V2 \<and> (\<exists>i \<ge> 2. dict_get d ''version'' = PInt i))"
  proof (cases "magic = MAGIC_V1")
    case True
    then show ?thesis using v by (auto simp: validated_def validate_v1_def andthen_eq_Inr split: sum.splits)
  next
    case False
    with v obtain i where i: "validate_base_fields tc d0 = Inr ()" "dict_get d0 ''version'' = PInt i"
      and d: "d = (if i < 2 then AList.update ''version'' (PInt 2) d0 else d0)"
      by (auto simp: validated_def validate_v2_def andthen_eq_Inr split: sum.splits pyval.splits)
    have get: "dict_get d k = (if i < 2 \<and> k = ''version'' then PInt 2 else dict_get d0 k)"
      and dom: "map_of d0 k \<noteq> None \<Longrightarrow> map_of d k \<noteq> None" for k
      using d by (auto simp: dict_get_def update_conv')
    have "validate_base_fields tc d = Inr ()" using i(1) dom by (auto simp: base_fields_iff get list_all_iff)
    then show ?thesis using False f(2) i(2) get [of "''version''"] by auto
  qed
  ultimately show ?thesis using f by (auto simp: MAX_PAYLOAD_BYTES_def)
qed

theorem unpack_sound_witness:
  "validate_base_fields sample_context upgraded_metadata = Inr ()"
proof -
  let ?u = "unpack_envelope (\<lambda>_. replicate 32 7) (\<lambda>_ _. Some \<lparr>inf_data = [], inf_unconsumed_tail = [], inf_eof = True, inf_unused_data = []\<rparr>)
    (\<lambda>_. Some (PDict sample_metadata)) sample_context (frame_body (\<lambda>_. replicate 32 7) MAGIC_V2 [] @ [])"
  have ne: "MAGIC_V2 \<noteq> MAGIC_V1" by code_simp
  have "validate_v2 sample_context sample_metadata = Inr upgraded_metadata"
    using sample_versioned by (auto simp: versioned_def py_eq_int_def andthen_eq_Inr)
  then have "?u = Some upgraded_metadata"
    using ne by (subst unpack_frame) (simp_all add: decompress_metadata_def validated_def)
  from unpack_sound [OF this] show ?thesis by blast
qed

text \<open>The classification of an old error text gives a known code and one of the fixed messages.\<close>

lemma classify_known:
  "is_known_code (me_code (classify_validation_error text)) \<and> me_message (classify_validation_error text) \<in> snd ` set DEFAULT_MESSAGES \<and>
   me_field (classify_validation_error text) = None"
proof -
  have "list_all (\<lambda>(code, _). is_known_code code \<and> the (map_of DEFAULT_MESSAGES code) \<in> snd ` set DEFAULT_MESSAGES)
      ((METADATA_INVALID_FIELD, []) # CLASSIFY_RULES)"
    by code_simp
  then have codes: "is_known_code code \<and> the (map_of DEFAULT_MESSAGES code) \<in> snd ` set DEFAULT_MESSAGES"
    if "(code, ns) \<in> set ((METADATA_INVALID_FIELD, []) # CLASSIFY_RULES)" for code ns
    using that by (auto simp only: list_all_iff)
  have found: "(code, ns) \<in> set CLASSIFY_RULES" if "find P CLASSIFY_RULES = Some (code, ns)" for P code ns
    using that by (metis find_Some_iff nth_mem)
  show ?thesis
    using codes by (auto simp: classify_validation_error_def metadata_error_def Let_def split: option.split dest!: found)
qed

end
