(* ===== verification/Register_Route.thy ===== *)
theory Register_Route
  imports Register_Auth Tx_Reconcile Webhook Job_Queue Verifier_Cache Idempotency Time_Attestation Envelope
begin

text \<open>
  The registration route \<^verbatim>\<open>POST /api/proofs/register\<close> of \<^verbatim>\<open>src/backend/app.py\<close>: the decorator
  \<^verbatim>\<open>require_register_auth\<close> around \<^verbatim>\<open>idempotent("register")\<close> around the handler, with the redaction of
  \<^verbatim>\<open>src/backend/logging_utils.py\<close>. It composes the credential check, the proof store, the time attestations,
  the verifier cache, the webhook queue, the job queue and the idempotency table. The rate limiter and
  log lines are left out. What the route takes from outside is the record \<open>RegisterEnv\<close>: SHA-256, the
  clock, float and exception texts, \<^verbatim>\<open>secure_filename\<close> of the web library, the JSON form of a row, and whether the
  owner lookup reaches the database.

  The main results: a request without a valid credential changes nothing, and a request under an
  owner-scoped credential only ever adds rows of that owner to proofs nobody else owns.
\<close>

section \<open>Redaction\<close>

definition REDACTED_VALUE :: string where
  "REDACTED_VALUE = ''[redacted]''"

definition SENSITIVE_KEYS :: "string list" where
  "SENSITIVE_KEYS =
     [''authorization'', ''cookie'', ''credentialsecret'', ''nullifiersecret'', ''password'', ''privatekey'', ''proof'',
      ''publicinputs'', ''rawbytes'', ''secret'', ''token'', ''witness'']"

definition is_alnum :: "char \<Rightarrow> bool" where
  "is_alnum c \<longleftrightarrow> (let n = char_code c in (48 \<le> n \<and> n \<le> 57) \<or> (65 \<le> n \<and> n \<le> 90) \<or> (97 \<le> n \<and> n \<le> 122))"

definition is_sensitive_key :: "string \<Rightarrow> bool" where
  "is_sensitive_key key \<longleftrightarrow>
     (let normalized = filter is_alnum (py_lower key) in normalized \<in> set SENSITIVE_KEYS \<or> contains ''witness'' normalized)"

fun redact_sensitive :: "pyval \<Rightarrow> pyval" where
  "redact_sensitive (PDict d) =
     PDict (map (\<lambda>(key, item). (key, if is_sensitive_key key then PStr REDACTED_VALUE else redact_sensitive item)) d)"
| "redact_sensitive (PList items) = PList (map redact_sensitive items)"
| "redact_sensitive v = v"

definition redact_metadata :: "pyval \<Rightarrow> pyval option" where
  "redact_metadata value = (case value of PDict _ \<Rightarrow> Some (redact_sensitive value) | _ \<Rightarrow> None)"

section \<open>Normalisation\<close>

definition normalize_tx_status :: "pyval \<Rightarrow> string + string option" where
  "normalize_tx_status value =
     (case value of
        PNone \<Rightarrow> Inr None
      | PStr s \<Rightarrow>
          (let normalized = py_lower (py_strip s) in
           if normalized \<in> {''pending'', ''confirmed'', ''failed'', ''missing''} then Inr (Some normalized)
           else if normalized \<in> {''success'', ''successful'', ''succeeded''} then Inr (Some ''confirmed'')
           else if normalized \<in> {''failure'', ''failed'', ''error'', ''errored''} then Inr (Some ''failed'')
           else if normalized \<in> {''not_found'', ''notfound''} then Inr (Some ''missing'')
           else Inl ''txStatus must be one of: pending, confirmed, failed, missing'')
      | _ \<Rightarrow> Inl ''txStatus must be one of: pending, confirmed, failed, missing'')"

text \<open>\<open>re.sub\<close> of runs of blanks, underscores and hyphens by one underscore.\<close>

definition is_separator :: "char \<Rightarrow> bool" where
  "is_separator c \<longleftrightarrow> is_space c \<or> c = CHR ''_'' \<or> c = CHR ''-''"

fun collapse :: "bool \<Rightarrow> string \<Rightarrow> string" where
  "collapse in_run [] = []"
| "collapse in_run (c # cs) =
     (if is_separator c then (if in_run then collapse True cs else CHR ''_'' # collapse True cs) else c # collapse False cs)"

definition strip_separators :: "string \<Rightarrow> string" where
  "strip_separators s =
     (let p = (\<lambda>c. c = CHR ''_'' \<or> c = CHR ''-'') in rev (dropWhile p (rev (dropWhile p s))))"

text \<open>The split at the last dot; the extension keeps it.\<close>

definition split_extension :: "string \<Rightarrow> string \<times> string" where
  "split_extension s =
     (if CHR ''.'' \<in> set s
      then let ext = takeWhile (\<lambda>c. c \<noteq> CHR ''.'') (rev s) in (take (length s - length ext - 1) s, CHR ''.'' # rev ext)
      else (s, []))"

definition normalize_filename :: "(string \<Rightarrow> string) \<Rightarrow> pyval \<Rightarrow> string option" where
  "normalize_filename secure_filename value =
     (case value of
        PStr s \<Rightarrow>
          if py_strip s = [] then None
          else let sanitized = secure_filename s in
            if sanitized = [] then None
            else let (stem, ext) = split_extension (py_lower sanitized); stem = strip_separators (collapse False stem) in
              if stem = [] then None else Some (take 160 (stem @ ext))
      | _ \<Rightarrow> None)"

section \<open>Requests, configuration and state\<close>

record RegisterConfig =
  cf_register_api_key :: "string option"
  cf_register_scoped_keys :: "ScopedKey list"
  cf_register_api_key_expires :: "rat option"
  cf_register_api_key_previous :: "string option"
  cf_register_api_key_previous_expires :: "rat option"
  cf_max_json_bytes :: int
  cf_max_metadata_bytes :: int
  cf_retention_classes :: "(string \<times> int) list"

text \<open>\<open>rg_json\<close> is \<open>get_json(silent=True)\<close>: \<open>PNone\<close> when the body is not JSON.\<close>

record RegisterRequest =
  rg_http :: Request
  rg_authorization :: "string option"
  rg_content_length :: "int option"
  rg_json :: pyval

record RegisterEnv =
  en_H :: "bytes \<Rightarrow> bytes"
  en_now :: rat
  en_float :: "rat \<Rightarrow> string"
  en_other :: "pyval \<Rightarrow> string"
  en_exception_text :: "TimeError \<Rightarrow> string"
  en_isoformat :: "rat \<Rightarrow> string"
  en_secure_filename :: "string \<Rightarrow> string"
  en_render :: "ProofEvent \<Rightarrow> pyval"
  en_request_id :: string
  en_owner_lookup :: bool

record Service =
  sv_hooks :: Hooks
  sv_queue :: Queue
  sv_cache :: VerifierCache

abbreviation sv_store :: "Service \<Rightarrow> Store" where
  "sv_store s \<equiv> hk_store (sv_hooks s)"

definition now_ms :: "RegisterEnv \<Rightarrow> int" where
  "now_ms env = floor (en_now env * 1000)"

subsection \<open>Replies\<close>

definition json_reply :: "pyval \<Rightarrow> int \<Rightarrow> ViewResult" where
  "json_reply body code = WithStatus (FlaskResponse 200 body) (Some code)"

definition plain_error :: "string \<Rightarrow> int \<Rightarrow> ViewResult" where
  "plain_error message code = json_reply (PDict [(''error'', PStr message)]) code"

definition error_response :: "RegisterEnv \<Rightarrow> string \<Rightarrow> string \<Rightarrow> int \<Rightarrow> string option \<Rightarrow> ViewResult" where
  "error_response env code message status field =
     json_reply (PDict [(''ok'', PBool False),
       (''error'', PDict ([(''code'', PStr code), (''message'', PStr message), (''request_id'', PStr (en_request_id env))]
          @ (case field of None \<Rightarrow> [] | Some f \<Rightarrow> if f = [] then [] else [(''field'', PStr f)])))]) status"

text \<open>An early return or an exception.\<close>

datatype halt = Answer ViewResult | Raise TimeError

section \<open>The handler\<close>

record Registration =
  rn_video_hash :: string
  rn_metadata_hash :: string
  rn_proof_id :: string
  rn_tier :: string
  rn_tx_hash :: "string option"
  rn_tx_status :: "string option"
  rn_source_address :: "string option"
  rn_contract_id :: "string option"

definition hex_field :: "RegisterEnv \<Rightarrow> (string \<times> pyval) list \<Rightarrow> string \<Rightarrow> halt + string" where
  "hex_field env payload name =
     (case dict_get payload name of
        PStr s \<Rightarrow>
          if app_is_hex_32 (PStr s) then Inr s
          else Inl (Answer (error_response env ''VALIDATION_ERROR'' (name @ '' must be a 32-byte hex string'') 400 None))
      | _ \<Rightarrow> Inl (Answer (error_response env ''VALIDATION_ERROR'' (name @ '' must be a 32-byte hex string'') 400 None)))"

definition tier_field :: "RegisterEnv \<Rightarrow> pyval \<Rightarrow> halt + string" where
  "tier_field env tier =
     (let refuse = Inl (Answer (error_response env ''VALIDATION_ERROR'' ''tier must be one of: silent, source, seal'' 400 None)) in
      case tier of
        PStr s \<Rightarrow> if s \<in> set ALLOWED_TIERS then Inr s else refuse
      | PList _ \<Rightarrow> Inl (Raise TimeTypeError)
      | PDict _ \<Rightarrow> Inl (Raise TimeTypeError)
      | _ \<Rightarrow> refuse)"

definition or_400 :: "string + 'a \<Rightarrow> halt + 'a" where
  "or_400 r = (case r of Inl message \<Rightarrow> Inl (Answer (plain_error message 400)) | Inr x \<Rightarrow> Inr x)"

definition registration_fields :: "RegisterEnv \<Rightarrow> (string \<times> pyval) list \<Rightarrow> halt + Registration" where
  "registration_fields env payload =
     andthen (hex_field env payload ''videoHash'') (\<lambda>video_hash.
     andthen (hex_field env payload ''metadataHash'') (\<lambda>metadata_hash.
     andthen (hex_field env payload ''proofId'') (\<lambda>proof_id.
     andthen (tier_field env (dict_get payload ''tier'')) (\<lambda>tier.
     andthen (or_400 (app_normalize_tx_hash (dict_get payload ''txHash''))) (\<lambda>tx_hash.
     andthen (or_400 (normalize_tx_status (dict_get payload ''txStatus''))) (\<lambda>tx_status.
     andthen (or_400 (validate_source_address (dict_get payload ''sourceAddress''))) (\<lambda>source_address.
     andthen (or_400 (validate_contract_id (dict_get payload ''contractId''))) (\<lambda>contract_id.
       Inr \<lparr>rn_video_hash = video_hash, rn_metadata_hash = metadata_hash, rn_proof_id = proof_id, rn_tier = tier,
            rn_tx_hash = tx_hash, rn_tx_status = (if tx_hash \<noteq> None then Some ''pending'' else tx_status),
            rn_source_address = source_address, rn_contract_id = contract_id\<rparr>))))))))"

definition check_owner :: "RegisterEnv \<Rightarrow> RegistrationPrincipal option \<Rightarrow> Registration \<Rightarrow> Store \<Rightarrow> halt + unit" where
  "check_owner env caller r st =
     (case caller of
        None \<Rightarrow> Inr ()
      | Some p \<Rightarrow>
          if \<not> is_scoped p then Inr ()
          else if \<not> en_owner_lookup env
          then Inl (Answer (error_response env ''DEPENDENCY_UNAVAILABLE'' ''ownership check unavailable; registration was not applied'' 503 None))
          else (case find_proof_owner (rn_proof_id r) st of
                  None \<Rightarrow> Inr ()
                | Some existing_owner \<Rightarrow>
                    if Some existing_owner = rn_source_address r then Inr ()
                    else Inl (Answer (error_response env ''FORBIDDEN'' ''proof is registered to a different owner'' 403 (Some ''proofId'')))))"

definition exception_text :: "RegisterEnv \<Rightarrow> TimeError \<Rightarrow> string" where
  "exception_text env e =
     (case e of
        TimeValueError message \<Rightarrow> message
      | TimeValueErrorOf message v \<Rightarrow> message @ py_str (en_other env) v
      | _ \<Rightarrow> en_exception_text env e)"

definition time_caught :: "RegisterEnv \<Rightarrow> TimeError + 'a \<Rightarrow> halt + 'a" where
  "time_caught env r =
     (case r of
        Inr x \<Rightarrow> Inr x
      | Inl e \<Rightarrow>
          if is_value_error e \<or> e = TimeTypeError \<or> e = TimeRangeError
          then Inl (Answer (error_response env ''VALIDATION_ERROR'' (''Time attestation error: '' @ exception_text env e) 400 None))
          else Inl (Raise e))"

text \<open>
  The attestation to store and the claimed time, both absent when the payload has no attestation. A
  claimed time that passed the validation is in the range of the date conversion.
\<close>

definition time_fields ::
  "RegisterEnv \<Rightarrow> (string \<times> pyval) list \<Rightarrow> string \<Rightarrow> halt + pyval option \<times> string option" where
  "time_fields env payload video_hash =
     (case map_of payload ''timeAttestation'' of
        None \<Rightarrow> Inr (None, None)
      | Some obj \<Rightarrow>
          andthen (time_caught env (decode_time_attestation obj)) (\<lambda>time_att.
          andthen (time_caught env (validate_time_attestation (en_other env) (now_ms env) time_att video_hash)) (\<lambda>errors.
          andthen (guard (errors = []) (Answer (error_response env ''VALIDATION_ERROR'' ''Invalid time attestation'' 400 None))) (\<lambda>_.
          andthen (time_caught env (encode_time_attestation time_att)) (\<lambda>encoded.
          case ta_claimed_time time_att of
            None \<Rightarrow> Inr (Some (PDict encoded), None)
          | Some claimed \<Rightarrow>
              andthen (time_caught env (from_timestamp_ms (ct_unix_ms claimed))) (\<lambda>t.
                   Inr (Some (PDict encoded), Some (en_isoformat env t))))))))"

definition retention_fields :: "RegisterEnv \<Rightarrow> RegisterConfig \<Rightarrow> pyval \<Rightarrow> halt + string \<times> rat option" where
  "retention_fields env cf retention_class =
     (let refuse = Inl (Answer (error_response env ''VALIDATION_ERROR''
            (''invalid retention class: '' @ py_str (en_other env) retention_class) 400 None)) in
      case retention_class of
        PStr s \<Rightarrow>
          (case map_of (cf_retention_classes cf) s of
             None \<Rightarrow> refuse
           | Some days \<Rightarrow> Inr (s, if 0 \<le> days then Some (en_now env + of_int days * 86400) else None))
      | PList _ \<Rightarrow> Inl (Raise TimeTypeError)
      | PDict _ \<Rightarrow> Inl (Raise TimeTypeError)
      | _ \<Rightarrow> refuse)"

text \<open>The arguments of \<^verbatim>\<open>upsert_register_event\<close>.\<close>

definition event_arguments ::
  "RegisterEnv \<Rightarrow> (string \<times> pyval) list \<Rightarrow> Registration \<Rightarrow> pyval option \<times> string option \<Rightarrow> string \<times> rat option \<Rightarrow> ProofEvent" where
  "event_arguments env payload r time ret =
     \<lparr>pe_id = 0, pe_event_type = ''register'', pe_file_name = normalize_filename (en_secure_filename env) (dict_get payload ''fileName''),
      pe_video_hash = Some (rn_video_hash r), pe_metadata_hash = Some (rn_metadata_hash r), pe_proof_id = Some (rn_proof_id r),
      pe_tier = Some (rn_tier r), pe_embedded_hash = None, pe_tx_hash = rn_tx_hash r, pe_tx_status = rn_tx_status r,
      pe_source_address = rn_source_address r, pe_contract_id = rn_contract_id r, pe_retention_class = Some (fst ret),
      pe_expires_at = snd ret, pe_legal_hold = False, pe_metadata = redact_metadata (PDict payload),
      pe_time_attestation = fst time, pe_claimed_capture_time = snd time, pe_idempotency_key = None, pe_event_index = None,
      pe_created_at = 0\<rparr>"

definition checked_event ::
  "RegisterEnv \<Rightarrow> RegisterConfig \<Rightarrow> RegistrationPrincipal option \<Rightarrow> RegisterRequest \<Rightarrow> Store \<Rightarrow> halt + Registration \<times> ProofEvent" where
  "checked_event env cf caller rq st =
     (if cf_max_json_bytes cf < int (length (rq_body (rg_http rq)))
      then Inl (Answer (plain_error ''JSON payload exceeds size limit'' 413))
      else (case rg_json rq of
        PDict payload \<Rightarrow>
          if cf_max_metadata_bytes cf < int (length (raw (True, en_float env) (PDict payload)))
          then Inl (Answer (error_response env ''PAYLOAD_TOO_LARGE'' ''registration payload is too large'' 413 None))
          else andthen (registration_fields env payload) (\<lambda>r.
               andthen (check_owner env caller r st) (\<lambda>_.
               andthen (time_fields env payload (rn_video_hash r)) (\<lambda>time.
               andthen (retention_fields env cf (dict_get_default payload ''retentionClass'' (PStr ''default''))) (\<lambda>ret.
                 Inr (r, event_arguments env payload r time ret)))))
      | _ \<Rightarrow> Inl (Answer (error_response env ''VALIDATION_ERROR'' ''JSON body is required'' 400 None))))"

text \<open>What follows a new row: the cached results of the proof go, the subscribers and the verifier are told.\<close>

definition after_created :: "RegisterEnv \<Rightarrow> Registration \<Rightarrow> ProofEvent \<Rightarrow> Service \<Rightarrow> Service" where
  "after_created env r row s =
     s\<lparr>sv_cache := cache_invalidate_proof (rn_proof_id r) (sv_cache s),
       sv_hooks := queue_webhook_deliveries (en_now env) (pe_id row) (sv_hooks s),
       sv_queue := (case rn_tx_hash r of
          None \<Rightarrow> sv_queue s
        | Some tx \<Rightarrow> snd (enqueue_job (en_now env) ''verify_tx''
            (PDict [(''proof_id'', PStr (rn_proof_id r)), (''tx_hash'', PStr tx),
               (''contract_id'', text_or_null (rn_contract_id r))]) (sv_queue s)))\<rparr>"

text \<open>The conflict is the only exception of \<^verbatim>\<open>upsert_register_event\<close>.\<close>

definition register_proof_event ::
  "RegisterEnv \<Rightarrow> RegisterConfig \<Rightarrow> RegistrationPrincipal option \<Rightarrow> RegisterRequest \<Rightarrow> Service \<Rightarrow> (TimeError + ViewResult) \<times> Service" where
  "register_proof_event env cf caller rq s =
     (case checked_event env cf caller rq (sv_store s) of
        Inl (Answer a) \<Rightarrow> (Inr a, s)
      | Inl (Raise e) \<Rightarrow> (Inl e, s)
      | Inr (r, ev) \<Rightarrow>
          let key = make_idempotency_key (en_H env) (rn_video_hash r) (rn_proof_id r) (rn_tx_hash r);
              (result, st) = upsert_register_event (en_now env) key ev (sv_store s);
              s1 = s\<lparr>sv_hooks := (sv_hooks s)\<lparr>hk_store := st\<rparr>\<rparr>
          in (case result of
                Inl (ConflictError _ name _ _) \<Rightarrow>
                  (Inr (json_reply (PDict [(''error'', PStr ''idempotency key reused with conflicting payload''), (''conflict_field'', PStr name)]) 409), s1)
              | Inl _ \<Rightarrow> (Inl TimeTypeError, s1)
              | Inr (row, created) \<Rightarrow>
                  (Inr (json_reply (PDict [(''ok'', PBool True), (''db_event'', en_render env row), (''created'', PBool created)])
                         (if created then 201 else 200)),
                   if st_configured st \<and> pe_id row \<noteq> 0 \<and> created then after_created env r row s1 else s1)))"

section \<open>The credential check\<close>

definition bearer_token :: "RegisterRequest \<Rightarrow> string option" where
  "bearer_token rq =
     (let header = (case rg_authorization rq of None \<Rightarrow> [] | Some h \<Rightarrow> h) in
      if startswith header ''Bearer '' then Some (py_strip (drop 7 header)) else None)"

definition expired_at :: "rat \<Rightarrow> rat option \<Rightarrow> bool" where
  "expired_at now expires = (case expires of None \<Rightarrow> False | Some t \<Rightarrow> t \<le> now)"

definition resolve_principal :: "RegisterEnv \<Rightarrow> RegisterConfig \<Rightarrow> string \<Rightarrow> RegistrationPrincipal option" where
  "resolve_principal env cf token =
     (let primary = (if expired_at (en_now env) (cf_register_api_key_expires cf) then None
            else authenticate (en_H env) token (cf_register_api_key cf) (cf_register_scoped_keys cf));
          previous = (case cf_register_api_key_previous cf of
              None \<Rightarrow> None
            | Some key \<Rightarrow> if key = [] then None else authenticate (en_H env) token (Some key) [])
      in if primary = None \<and> previous \<noteq> None \<and> \<not> expired_at (en_now env) (cf_register_api_key_previous_expires cf)
         then previous else primary)"

text \<open>
  The decorator: the answer of a refusal, or the principal under which the wrapped view runs (none in the
  open mode without configured credentials).
\<close>

definition require_register_auth ::
  "RegisterEnv \<Rightarrow> RegisterConfig \<Rightarrow> RegisterRequest \<Rightarrow> ViewResult + RegistrationPrincipal option" where
  "require_register_auth env cf rq =
     (if cf_register_api_key cf = None \<and> cf_register_scoped_keys cf = [] then Inr None
      else (case bearer_token rq of
        None \<Rightarrow> Inl (plain_error ''Authorization header with Bearer token is required'' 401)
      | Some token \<Rightarrow>
          (case resolve_principal env cf token of
             None \<Rightarrow> Inl (plain_error (if expired_at (en_now env) (cf_register_api_key_expires cf) then ''API key has expired'' else ''Invalid API key'') 401)
           | Some p \<Rightarrow>
               if \<not> is_scoped p then Inr (Some p)
               else if cf_max_json_bytes cf < (case rg_content_length rq of None \<Rightarrow> 0 | Some n \<Rightarrow> n)
               then Inl (plain_error ''JSON payload exceeds size limit'' 413)
               else (case rg_json rq of
                       PDict payload \<Rightarrow>
                         (case validate_source_address (dict_get payload ''sourceAddress'') of
                            Inl message \<Rightarrow> Inl (plain_error message 400)
                          | Inr claimed_owner \<Rightarrow>
                              if scope_allows p claimed_owner then Inr (Some p)
                              else Inl (error_response env ''FORBIDDEN'' ''credential is not authorized for this sourceAddress'' 403 (Some ''sourceAddress'')))
                     | _ \<Rightarrow> Inr (Some p)))))"

text \<open>The whole route on the idempotency table and the service.\<close>

definition register_route ::
  "RegisterEnv \<Rightarrow> RegisterConfig \<Rightarrow> RegisterRequest \<Rightarrow> IdemTable \<times> Service \<Rightarrow> (TimeError + answer) \<times> IdemTable \<times> Service" where
  "register_route env cf rq ts =
     (case require_register_auth env cf rq of
        Inl refusal \<Rightarrow> (Inr (extract_response_parts refusal), ts)
      | Inr caller \<Rightarrow>
          idempotent (st_configured (sv_store (snd ts))) (en_now env) (canonical_digest (en_H env) (rg_http rq)) ''register''
            (register_proof_event env cf caller rq) ts)"

section \<open>Redaction removes what it should\<close>

text \<open>Every sensitive key, at any depth, carries the placeholder.\<close>

fun redacted :: "pyval \<Rightarrow> bool" where
  "redacted (PDict d) \<longleftrightarrow> list_all (\<lambda>(k, v). if is_sensitive_key k then v = PStr REDACTED_VALUE else redacted v) d"
| "redacted (PList vs) \<longleftrightarrow> list_all redacted vs"
| "redacted v \<longleftrightarrow> True"

lemma redact_redacted: "redacted (redact_sensitive v)"
  by (induction v rule: redact_sensitive.induct) (auto simp: list_all_iff)

lemma redact_id: "redacted v \<Longrightarrow> redact_sensitive v = v"
  by (induction v rule: redacted.induct) (auto simp: list_all_iff intro!: map_idI split: if_splits)

section \<open>The state after a request\<close>

lemma idempotent_service:
  assumes "idempotent available now digest ty view (t, s) = (res, t', s')"
  shows "s' = s \<or> s' = snd (view s)"
  using assms
  by (auto simp: idempotent_def run_view_def Let_def split: option.splits sum.splits prod.splits if_splits)

lemma queue_keeps [simp]:
  "hk_store (queue_webhook_deliveries now e hk) = hk_store hk"
  "hk_subscriptions (queue_webhook_deliveries now e hk) = hk_subscriptions hk"
proof -
  have "hk_store (fold (insert_delivery now e) subs hk) = hk_store hk \<and>
      hk_subscriptions (fold (insert_delivery now e) subs hk) = hk_subscriptions hk" for subs and hk :: Hooks
    by (induction subs arbitrary: hk) (simp_all add: insert_delivery_def)
  then show "hk_store (queue_webhook_deliveries now e hk) = hk_store hk"
    "hk_subscriptions (queue_webhook_deliveries now e hk) = hk_subscriptions hk"
    by (simp_all add: queue_webhook_deliveries_def Let_def split: option.split)
qed

definition announcement :: "Delivery \<Rightarrow> int \<times> int \<times> string" where
  "announcement d = (wd_subscription_id d, wd_event_id d, wd_status d)"

lemma insert_deliveries:
  "map announcement (hk_deliveries (fold (insert_delivery now e) subs hk))
     = map announcement (hk_deliveries hk) @ map (\<lambda>sub. (su_id sub, e, ''pending'')) subs"
  by (induction subs arbitrary: hk) (simp_all add: insert_delivery_def announcement_def)

lemma queue_announces:
  assumes "st_configured (hk_store hk)" "event_by_id e hk = Some r"
  shows "map announcement (hk_deliveries (queue_webhook_deliveries now e hk)) = map announcement (hk_deliveries hk)
    @ map (\<lambda>sub. (su_id sub, e, ''pending'')) (filter (\<lambda>sub. su_is_active sub \<and> wants (pe_event_type r) sub) (hk_subscriptions hk))"
proof -
  have "filter (wants (pe_event_type r)) (get_active_subscriptions hk)
      = filter (\<lambda>sub. su_is_active sub \<and> wants (pe_event_type r) sub) (hk_subscriptions hk)"
    using assms(1) by (simp add: get_active_subscriptions_def conj_commute)
  then show ?thesis
    using assms by (cases "get_active_subscriptions hk = []") (auto simp: queue_webhook_deliveries_def insert_deliveries)
qed

text \<open>The three ways a registration can end: refused, without a new row, and with one.\<close>

definition new_row :: "RegisterEnv \<Rightarrow> Registration \<Rightarrow> ProofEvent \<Rightarrow> Store \<Rightarrow> ProofEvent" where
  "new_row env r ev st =
     ev\<lparr>pe_id := st_next_id st, pe_legal_hold := False, pe_created_at := en_now env, pe_event_type := ''register'', pe_embedded_hash := None,
        pe_idempotency_key := Some (make_idempotency_key (en_H env) (rn_video_hash r) (rn_proof_id r) (rn_tx_hash r)), pe_event_index := None\<rparr>"

definition with_row :: "ProofEvent \<Rightarrow> Service \<Rightarrow> Service" where
  "with_row row s = s\<lparr>sv_hooks := (sv_hooks s)\<lparr>hk_store := (sv_store s)\<lparr>st_rows := st_rows (sv_store s) @ [row],
     st_next_id := st_next_id (sv_store s) + 1\<rparr>\<rparr>\<rparr>"

lemma handler_cases:
  assumes "register_proof_event env cf caller rq s = (res, s')" "st_configured (sv_store s)" "1 \<le> st_next_id (sv_store s)"
  obtains (refused) "s' = s"
  | (old) "s' = s\<lparr>sv_hooks := (sv_hooks s)\<lparr>hk_store := burn_id (sv_store s)\<rparr>\<rparr>"
  | (new) r ev where "checked_event env cf caller rq (sv_store s) = Inr (r, ev)"
      "s' = after_created env r (new_row env r ev (sv_store s)) (with_row (new_row env r ev (sv_store s)) s)"
      "res = Inr (json_reply (PDict [(''ok'', PBool True), (''db_event'', en_render env (new_row env r ev (sv_store s))), (''created'', PBool True)]) 201)"
proof (cases "checked_event env cf caller rq (sv_store s)")
  case (Inl h)
  then show ?thesis using assms(1) refused by (cases h) (auto simp: register_proof_event_def)
next
  case (Inr p)
  obtain r ev where c: "checked_event env cf caller rq (sv_store s) = Inr (r, ev)" using Inr by (cases p) auto
  let ?key = "make_idempotency_key (en_H env) (rn_video_hash r) (rn_proof_id r) (rn_tx_hash r)"
  show ?thesis
  proof (cases "find (\<lambda>x. pe_idempotency_key x = Some ?key) (st_rows (sv_store s))")
    case None
    then have u: "upsert_register_event (en_now env) ?key ev (sv_store s)
        = (Inr (new_row env r ev (sv_store s), True), sv_store (with_row (new_row env r ev (sv_store s)) s))"
      using assms(2) by (simp add: upsert_register_event_def append_row_def new_row_def with_row_def Let_def)
    show ?thesis
      using assms(1) c u assms(2,3) by (intro new [OF c]) (simp_all add: register_proof_event_def with_row_def new_row_def)
  next
    case (Some x)
    then show ?thesis
      using assms(1,2) c
      by (intro old) (auto simp: register_proof_event_def upsert_register_event_def check_conflict_def Let_def
          split: option.splits prod.splits if_splits)
  qed
qed

lemma checked_fields:
  assumes "checked_event env cf caller rq st = Inr (r, ev)"
  shows "pe_proof_id ev = Some (rn_proof_id r)" "pe_source_address ev = rn_source_address r" "pe_tx_hash ev = rn_tx_hash r"
    "check_owner env caller r st = Inr ()"
    "\<exists>payload. rg_json rq = PDict payload \<and> validate_source_address (dict_get payload ''sourceAddress'') = Inr (rn_source_address r) \<and>
       pe_metadata ev = Some (redact_sensitive (PDict payload))"
  using assms
  by (auto simp: checked_event_def andthen_eq_Inr event_arguments_def registration_fields_def or_400_def redact_metadata_def
      split: if_splits pyval.splits sum.splits)

lemma scoped_source:
  assumes auth: "require_register_auth env cf rq = Inr (Some p)" and own: "pr_owner p = Some w"
    and c: "checked_event env cf caller rq st = Inr (r, ev)"
  shows "rn_source_address r = Some w"
proof -
  from checked_fields(5) [OF c] obtain payload where j: "rg_json rq = PDict payload"
    and v: "validate_source_address (dict_get payload ''sourceAddress'') = Inr (rn_source_address r)" by blast
  have "scope_allows p (rn_source_address r)"
    using auth own j v by (auto simp: require_register_auth_def is_scoped_def split: if_splits option.splits)
  with own show ?thesis by (auto simp: scope_allows_def split: option.splits)
qed

lemma owner_with_row:
  assumes inv: "store_inv (sv_store s)" and conf: "st_configured (sv_store s)"
    and st': "st_rows st' = st_rows (sv_store s) @ rows" "store_inv st'" "st_configured st'"
  shows "find_proof_owner q st' = (case find_proof_owner q (sv_store s) of
     Some a \<Rightarrow> Some a | None \<Rightarrow> (case filter (registers q) rows of [] \<Rightarrow> None | x # _ \<Rightarrow> pe_source_address x))"
proof (cases "filter (registers q) (st_rows (sv_store s))")
  case Nil
  then show ?thesis by (simp add: find_proof_owner_eq [OF inv] find_proof_owner_eq [OF st'(2)] st' conf)
next
  case (Cons x xs)
  then have "registers q x" by (metis filter_eq_Cons_iff)
  then obtain a where "pe_source_address x = Some a" by (auto simp: registers_def)
  with Cons show ?thesis by (simp add: find_proof_owner_eq [OF inv] find_proof_owner_eq [OF st'(2)] st' conf)
qed

lemma upsert_inv:
  "store_inv st \<Longrightarrow> store_inv (snd (upsert_register_event now (make_idempotency_key H v p tx) ev st))"
  using store_inv_step [of st H "RegisterEvent now v p tx ev"] by simp

lemma handler_store_inv:
  assumes "store_inv (sv_store s)"
  shows "store_inv (sv_store (snd (register_proof_event env cf caller rq s)))"
    "st_configured (sv_store (snd (register_proof_event env cf caller rq s))) = st_configured (sv_store s)"
proof -
  have u: "store_inv (snd (upsert_register_event now (make_idempotency_key H v p tx) ev (sv_store s)))"
     "st_configured (snd (upsert_register_event now key ev (sv_store s))) = st_configured (sv_store s)" for now H v p tx ev key
    using upsert_inv [OF assms] by (auto simp: upsert_register_event_def append_row_def burn_id_def Let_def split: option.splits sum.splits)
  show "store_inv (sv_store (snd (register_proof_event env cf caller rq s)))"
    using u(1) assms by (auto simp: register_proof_event_def after_created_def Let_def split: sum.splits halt.splits prod.splits StoreError.splits)
      (metis snd_conv)+
  show "st_configured (sv_store (snd (register_proof_event env cf caller rq s))) = st_configured (sv_store s)"
    using u(2) by (auto simp: register_proof_event_def after_created_def Let_def split: sum.splits halt.splits prod.splits StoreError.splits)
      (metis snd_conv)+
qed

lemma authenticate_Some:
  assumes "authenticate H token legacy keys = Some p"
  shows "(\<exists>k \<in> set keys. sk_digest k = token_digest H token \<and> pr_owner p = Some (sk_owner k)) \<or> legacy = Some token \<and> pr_owner p = None"
proof (cases "filter (\<lambda>k. H (encode_ascii token) = sk_digest k) keys")
  case Nil
  then show ?thesis using assms by (auto simp: authenticate_def scan_keys_eq split: if_splits option.splits)
next
  case (Cons k ks)
  have "last (k # ks) \<in> set (filter (\<lambda>k. H (encode_ascii token) = sk_digest k) keys)" unfolding Cons by simp
  then have "last (k # ks) \<in> set keys" "sk_digest (last (k # ks)) = token_digest H token"
    by (auto simp: token_digest_def simp del: last.simps)
  moreover have "pr_owner p = Some (sk_owner (last (k # ks)))"
    using assms Cons by (auto simp: authenticate_def scan_keys_eq split: if_splits)
  ultimately show ?thesis by blast
qed

lemma resolve_Some:
  assumes "resolve_principal env cf token = Some p"
  shows "cf_register_api_key_previous cf = Some token \<and> \<not> expired_at (en_now env) (cf_register_api_key_previous_expires cf) \<and> pr_owner p = None \<or>
    \<not> expired_at (en_now env) (cf_register_api_key_expires cf) \<and>
      ((\<exists>k \<in> set (cf_register_scoped_keys cf). sk_digest k = token_digest (en_H env) token \<and> pr_owner p = Some (sk_owner k)) \<or>
       cf_register_api_key cf = Some token \<and> pr_owner p = None)"
  using assms authenticate_Some [of "en_H env" token "cf_register_api_key cf" "cf_register_scoped_keys cf" p]
    authenticate_Some [of "en_H env" token "cf_register_api_key_previous cf" "[]" p]
  by (auto simp: resolve_principal_def Let_def split: if_splits option.splits)

subsection \<open>Properties\<close>

text \<open>
  C13: When credentials are configured, a registration request changes the service or the table of
  requests only with a bearer token that is the previous key before its expiry, or, before the
  expiry of the primary keys, the primary key or the secret of an owner-scoped key whose owner the
  body names as its source address.
\<close>

theorem registration_needs_credential:
  assumes "cf_register_api_key cf \<noteq> None \<or> cf_register_scoped_keys cf \<noteq> []"
    and "register_route env cf rq (t, s) = (res, t', s')" and "(t', s') \<noteq> (t, s)"
  shows "\<exists>token. bearer_token rq = Some token \<and>
    (cf_register_api_key_previous cf = Some token \<and> \<not> expired_at (en_now env) (cf_register_api_key_previous_expires cf) \<or>
     \<not> expired_at (en_now env) (cf_register_api_key_expires cf) \<and>
       (cf_register_api_key cf = Some token \<or>
        (\<exists>k \<in> set (cf_register_scoped_keys cf). sk_digest k = token_digest (en_H env) token \<and>
          (\<forall>payload. rg_json rq = PDict payload \<longrightarrow> validate_source_address (dict_get payload ''sourceAddress'') = Inr (Some (sk_owner k))))))"
proof -
  from assms(2,3) obtain caller where auth: "require_register_auth env cf rq = Inr caller"
    by (cases "require_register_auth env cf rq") (auto simp: register_route_def)
  from auth assms(1) obtain token p where token: "bearer_token rq = Some token" and p: "resolve_principal env cf token = Some p"
    by (auto simp: require_register_auth_def split: if_splits option.splits)
  have "validate_source_address (dict_get payload ''sourceAddress'') = Inr (Some w)"
    if "pr_owner p = Some w" "rg_json rq = PDict payload" for w payload
    using auth assms(1) token p that
    by (auto simp: require_register_auth_def is_scoped_def scope_allows_def split: if_splits option.splits sum.splits)
  then show ?thesis using resolve_Some [OF p] token by blast
qed

text \<open>
  C11: A request that passes under an owner-scoped credential adds at most one row, and such a row
  is a registration with that owner as its source, for a proof that had no owner or the same one;
  the owner of every other proof stays what it was, and the row carries no sensitive value.
\<close>

theorem scoped_registration_confined:
  assumes "store_inv (sv_store s)" "st_configured (sv_store s)"
    and "require_register_auth env cf rq = Inr (Some p)" "pr_owner p = Some w"
    and "register_route env cf rq (t, s) = (res, t', s')"
  shows "\<exists>rows. st_rows (sv_store s') = st_rows (sv_store s) @ rows \<and> length rows \<le> 1 \<and>
     (\<forall>r \<in> set rows. registers (the (pe_proof_id r)) r \<and> pe_source_address r = Some w \<and>
        find_proof_owner (the (pe_proof_id r)) (sv_store s) \<in> {None, Some w} \<and>
        find_proof_owner (the (pe_proof_id r)) (sv_store s') = Some w \<and> redacted (the (pe_metadata r))) \<and>
     (\<forall>q a. find_proof_owner q (sv_store s) = Some a \<longrightarrow> find_proof_owner q (sv_store s') = Some a)"
proof -
  let ?view = "register_proof_event env cf (Some p) rq"
  have "s' = s \<or> s' = snd (?view s)"
    using assms(3,5) by (intro idempotent_service) (auto simp: register_route_def)
  then show ?thesis
  proof
    assume "s' = s"
    then show ?thesis by (intro exI [of _ "[]"]) simp
  next
    assume s': "s' = snd (?view s)"
    then have v: "?view s = (fst (?view s), s')" by simp
    have inv': "store_inv (sv_store s')" and conf': "st_configured (sv_store s')"
      using handler_store_inv [OF assms(1)] assms(2) s' by simp_all
    have next1: "1 \<le> st_next_id (sv_store s)" using assms(1) by (simp add: store_inv_def)
    note owner = owner_with_row [OF assms(1,2) _ inv' conf']
    from v assms(2) next1 show ?thesis
    proof (cases rule: handler_cases)
      case refused
      then show ?thesis by (intro exI [of _ "[]"]) simp
    next
      case old
      then have "st_rows (sv_store s') = st_rows (sv_store s) @ []" by (simp add: burn_id_def)
      from this owner [OF this] show ?thesis by (intro exI [of _ "[]"]) simp
    next
      case (new r ev)
      define row where "row = new_row env r ev (sv_store s)"
      have rows: "st_rows (sv_store s') = st_rows (sv_store s) @ [row]"
        using new(2) by (simp add: after_created_def with_row_def row_def)
      have src: "rn_source_address r = Some w" by (rule scoped_source [OF assms(3,4) new(1)])
      have row_w: "pe_source_address row = Some w" "pe_proof_id row = Some (rn_proof_id r)" "pe_event_type row = ''register''"
        and red: "redacted (the (pe_metadata row))"
        using checked_fields [OF new(1)] src by (auto simp: row_def new_row_def redact_redacted simp del: redact_sensitive.simps redacted.simps)
      have "check_owner env (Some p) r (sv_store s) = Inr ()" by (rule checked_fields [OF new(1)])
      then have "find_proof_owner (rn_proof_id r) (sv_store s) \<in> {None, Some w}"
        using assms(4) src by (auto simp: check_owner_def is_scoped_def split: if_splits option.splits)
      with rows row_w red owner [OF rows] show ?thesis
        by (intro exI [of _ "[row]"]) (auto simp: registers_def)
    qed
  qed
qed


section \<open>A registration\<close>

definition sample_hash :: string where
  "sample_hash = replicate 64 (CHR ''0'')"

definition sample_payload :: "(string \<times> pyval) list" where
  "sample_payload = [(''videoHash'', PStr sample_hash), (''metadataHash'', PStr sample_hash), (''proofId'', PStr sample_hash),
     (''tier'', PStr ''seal''), (''sourceAddress'', PStr ZERO_ACCOUNT), (''secret'', PStr ''s'')]"

definition sample_env :: RegisterEnv where
  "sample_env = \<lparr>en_H = (\<lambda>_. replicate 32 7), en_now = 5, en_float = (\<lambda>_. []), en_other = (\<lambda>_. []), en_exception_text = (\<lambda>_. []),
     en_isoformat = (\<lambda>_. []), en_secure_filename = id, en_render = (\<lambda>_. PNone), en_request_id = [], en_owner_lookup = True\<rparr>"

definition sample_config :: RegisterConfig where
  "sample_config = \<lparr>cf_register_api_key = None, cf_register_scoped_keys = [\<lparr>sk_owner = ZERO_ACCOUNT, sk_digest = replicate 32 7\<rparr>],
     cf_register_api_key_expires = None, cf_register_api_key_previous = None, cf_register_api_key_previous_expires = None,
     cf_max_json_bytes = 100, cf_max_metadata_bytes = int (length (raw (True, \<lambda>_. []) (PDict sample_payload))),
     cf_retention_classes = [(''default'', 30)]\<rparr>"

definition sample_request :: RegisterRequest where
  "sample_request = \<lparr>rg_http = \<lparr>rq_method = ''POST'', rq_path = ''/api/proofs/register'', rq_query = [], rq_body = []\<rparr>,
     rg_authorization = Some ''Bearer token'', rg_content_length = None, rg_json = PDict sample_payload\<rparr>"

definition sample_service :: Service where
  "sample_service = \<lparr>sv_hooks = \<lparr>hk_store = empty_store True,
       hk_subscriptions = [\<lparr>su_id = 1, su_url = ''u'', su_secret_key = ''k'', su_is_active = True, su_event_types = None\<rparr>],
       hk_deliveries = [], hk_next_id = 1\<rparr>, sv_queue = empty_queue, sv_cache = new_cache 8 1 1\<rparr>"

lemma sample_fields [simp]:
  "map_of sample_payload ''videoHash'' = Some (PStr sample_hash)" "map_of sample_payload ''metadataHash'' = Some (PStr sample_hash)"
  "map_of sample_payload ''proofId'' = Some (PStr sample_hash)" "map_of sample_payload ''tier'' = Some (PStr ''seal'')"
  "map_of sample_payload ''sourceAddress'' = Some (PStr ZERO_ACCOUNT)" "map_of sample_payload ''txHash'' = None"
  "map_of sample_payload ''txStatus'' = None" "map_of sample_payload ''contractId'' = None"
  "map_of sample_payload ''timeAttestation'' = None" "map_of sample_payload ''retentionClass'' = None"
  by (simp_all add: sample_payload_def)

lemma sample_token: "bearer_token sample_request = Some ''token''"
  by (simp add: bearer_token_def sample_request_def startswith_def py_strip_def py_lstrip_def is_space_def char_code_def)

lemma sample_authorised: "require_register_auth sample_env sample_config sample_request = Inr (Some \<lparr>pr_owner = Some ZERO_ACCOUNT\<rparr>)"
proof -
  have "authenticate (\<lambda>_. replicate 32 7) ''token'' None [\<lparr>sk_owner = ZERO_ACCOUNT, sk_digest = replicate 32 7\<rparr>]
      = Some \<lparr>pr_owner = Some ZERO_ACCOUNT\<rparr>"
    by (simp add: authenticate_def MAX_TOKEN_CHARS_def scan_keys_def)
  then have "resolve_principal sample_env sample_config ''token'' = Some \<lparr>pr_owner = Some ZERO_ACCOUNT\<rparr>"
    by (simp add: resolve_principal_def sample_env_def sample_config_def expired_at_def)
  then show ?thesis
    unfolding require_register_auth_def sample_token
    by (simp add: sample_config_def sample_request_def is_scoped_def dict_get_def zero_account_validated scope_allows_def)
qed

lemma sample_store_ok: "store_inv (sv_store sample_service)" "st_configured (sv_store sample_service)"
  by (simp_all add: sample_service_def store_inv_def empty_store_def)

lemma sample_checked:
  "\<exists>r ev. checked_event sample_env sample_config (Some \<lparr>pr_owner = Some ZERO_ACCOUNT\<rparr>) sample_request (sv_store sample_service) = Inr (r, ev)"
proof -
  have "app_is_hex_32 (PStr sample_hash)" by code_simp
  then have "registration_fields sample_env sample_payload = Inr \<lparr>rn_video_hash = sample_hash, rn_metadata_hash = sample_hash,
      rn_proof_id = sample_hash, rn_tier = ''seal'', rn_tx_hash = None, rn_tx_status = None, rn_source_address = Some ZERO_ACCOUNT, rn_contract_id = None\<rparr>"
    by (simp add: registration_fields_def hex_field_def tier_field_def dict_get_def or_400_def app_normalize_tx_hash_def normalize_tx_status_def
      zero_account_validated validate_contract_id_def ALLOWED_TIERS_def)
  moreover have "find_proof_owner sample_hash (sv_store sample_service) = None"
    by (simp add: find_proof_owner_eq sample_store_ok) (simp add: sample_service_def empty_store_def)
  ultimately show ?thesis
    by (simp add: checked_event_def sample_request_def sample_config_def check_owner_def is_scoped_def time_fields_def retention_fields_def
      dict_get_default_def sample_env_def)
qed

lemma sample_registered:
  obtains res t' s' row where "register_route sample_env sample_config sample_request (empty_table, sample_service) = (res, t', s')"
    "st_rows (sv_store s') = [row]"
proof -
  obtain r ev where c: "checked_event sample_env sample_config (Some \<lparr>pr_owner = Some ZERO_ACCOUNT\<rparr>) sample_request (sv_store sample_service) = Inr (r, ev)"
    using sample_checked by blast
  let ?view = "register_proof_event sample_env sample_config (Some \<lparr>pr_owner = Some ZERO_ACCOUNT\<rparr>) sample_request"
  have view: "st_rows (sv_store (snd (?view sample_service))) = [new_row sample_env r ev (sv_store sample_service)]"
    using c by (simp add: register_proof_event_def upsert_register_event_def append_row_def after_created_def new_row_def
        sample_service_def empty_store_def Let_def)
  obtain res s' where v: "?view sample_service = (res, s')" by fastforce
  have "\<exists>res' t'. register_route sample_env sample_config sample_request (empty_table, sample_service) = (res', t', s')"
    using v by (cases res) (auto simp: register_route_def sample_authorised idempotent_def get_idempotency_record_def empty_table_def
        create_idempotency_record_def run_view_def sample_store_ok Let_def case_prod_beta)
  then show ?thesis using that view v by auto
qed

theorem registration_needs_credential_witness:
  "\<exists>token. bearer_token sample_request = Some token \<and> token_digest (en_H sample_env) token = replicate 32 7"
proof -
  obtain res t' s' row where r: "register_route sample_env sample_config sample_request (empty_table, sample_service) = (res, t', s')"
    and row: "st_rows (sv_store s') = [row]" by (rule sample_registered)
  have "(t', s') \<noteq> (empty_table, sample_service)" using row by (auto simp: sample_service_def empty_store_def)
  from registration_needs_credential [OF _ r this] show ?thesis
    by (auto simp: sample_config_def)
qed

theorem scoped_registration_confined_witness:
  "\<exists>res t' s' row. register_route sample_env sample_config sample_request (empty_table, sample_service) = (res, t', s') \<and>
     st_rows (sv_store s') = [row] \<and> pe_source_address row = Some ZERO_ACCOUNT"
proof -
  obtain res t' s' row where r: "register_route sample_env sample_config sample_request (empty_table, sample_service) = (res, t', s')"
    and row: "st_rows (sv_store s') = [row]" by (rule sample_registered)
  have "st_rows (sv_store sample_service) = []" by (simp add: sample_service_def empty_store_def)
  with scoped_registration_confined [OF sample_store_ok sample_authorised _ r, of ZERO_ACCOUNT] row
  have "pe_source_address row = Some ZERO_ACCOUNT" by auto
  with r row show ?thesis by blast
qed


text \<open>
  Answers are replayed by the body alone: once a scoped caller has been refused because of the owner,
  the same body gets the same refusal under every other credential, the unscoped ones included.
\<close>

lemma owner_refusal_replayed:
  assumes "require_register_auth env cf rq = Inr caller" "get_idempotency_record (canonical_digest (en_H env) (rg_http rq)) ''register'' t = Some record"
    and "ir_status record = COMPLETED" "ir_response_payload record = PDict [(''status'', PInt 403), (''body'', body)]"
    and "st_configured (sv_store s)"
  shows "register_route env cf rq (t, s) = (Inr (body, 403), t, s)"
  using assms by (simp add: register_route_def idempotent_def replay_stored_def dict_get_def py_int_of_def)

end
