(* ===== verification/Stego.thy ===== *)
theory Stego
  imports Envelope
begin

unbundle bit_operations_syntax

text \<open>
  The video codec of \<^verbatim>\<open>src/backend/stego.py\<close>: the bits of an envelope are drawn as squares along the border
  of the frames and repeated in the low bits of each frame; extraction reads the border first
  and falls back to the low bits. A frame is the byte list of its RGB samples, row by row; the decoder and encoder are
  outside, so a video is the list of the chunks the decoder delivers. A bit is a boolean. The mean of a square is
  compared as an integer, which the rounding of the float mean does not change.

  The main result: what was packed is extracted again from the border after any distortion
  of at most 24 per sample, on frames of at least 12 by 12 pixels with room for all bits.
\<close>

section \<open>Bits\<close>

definition BORDER_BLOCK :: int where
  "BORDER_BLOCK = 6"

definition BORDER_STRIDE :: int where
  "BORDER_STRIDE = 2"

definition bytes_to_bits :: "bytes \<Rightarrow> bool list" where
  "bytes_to_bits data = concat (map (\<lambda>b. map (bit b) (rev [0..<8])) data)"

definition bits_value :: "bool list \<Rightarrow> nat" where
  "bits_value bits = foldl (\<lambda>v b. 2 * v + of_bool b) 0 bits"

fun bits_to_bytes :: "bool list \<Rightarrow> bytes" where
  "bits_to_bytes (a # b # c # d # e # f # g # h # bits) = of_nat (bits_value [a, b, c, d, e, f, g, h]) # bits_to_bytes bits"
| "bits_to_bytes _ = []"

section \<open>The border\<close>

text \<open>\<open>range(lo, hi, step)\<close> and \<open>range(hi, lo, -step)\<close>.\<close>

definition range_up :: "int \<Rightarrow> int \<Rightarrow> int \<Rightarrow> int list" where
  "range_up lo hi step = map (\<lambda>k. lo + int k * step) [0..<nat ((hi - lo + step - 1) div step)]"

definition range_down :: "int \<Rightarrow> int \<Rightarrow> int \<Rightarrow> int list" where
  "range_down hi lo step = map (\<lambda>k. hi - int k * step) [0..<nat ((hi - lo + step - 1) div step)]"

definition border_positions :: "nat \<Rightarrow> nat \<Rightarrow> (int \<times> int) list" where
  "border_positions width height =
     map (\<lambda>x. (BORDER_STRIDE, x)) (range_up 0 (int width) BORDER_BLOCK)
     @ map (\<lambda>y. (y, int width - BORDER_STRIDE - 1)) (range_up BORDER_BLOCK (int height) BORDER_BLOCK)
     @ map (\<lambda>x. (int height - BORDER_STRIDE - 1, x)) (range_down (int width - BORDER_BLOCK) (-1) BORDER_BLOCK)
     @ map (\<lambda>y. (y, BORDER_STRIDE)) (range_down (int height - BORDER_BLOCK) (BORDER_BLOCK - 1) BORDER_BLOCK)"

definition border_capacity :: "nat \<Rightarrow> nat \<Rightarrow> nat" where
  "border_capacity width height = length (border_positions width height)"

text \<open>The rows and columns of the square around a position, and the samples of a frame in it.\<close>

type_synonym block = "(nat \<times> nat) \<times> (nat \<times> nat)"

definition block_at :: "nat \<Rightarrow> nat \<Rightarrow> int \<times> int \<Rightarrow> block" where
  "block_at width height p =
     (case p of (y, x) \<Rightarrow>
        ((nat (max 0 (y - BORDER_STRIDE)), nat (min (int height) (y + BORDER_STRIDE + 1))),
         (nat (max 0 (x - BORDER_STRIDE)), nat (min (int width) (x + BORDER_STRIDE + 1)))))"

definition in_block :: "nat \<Rightarrow> block \<Rightarrow> nat \<Rightarrow> bool" where
  "in_block width blk k \<longleftrightarrow>
     (case blk of ((y0, y1), (x0, x1)) \<Rightarrow>
        y0 \<le> k div 3 div width \<and> k div 3 div width < y1 \<and> x0 \<le> k div 3 mod width \<and> k div 3 mod width < x1)"

definition fill_block :: "nat \<Rightarrow> block \<Rightarrow> byte \<Rightarrow> bytes \<Rightarrow> bytes" where
  "fill_block width blk color img = map (\<lambda>(k, v). if in_block width blk k then color else v) (enumerate 0 img)"

definition block_samples :: "nat \<Rightarrow> block \<Rightarrow> bytes \<Rightarrow> bytes" where
  "block_samples width blk img = map snd (filter (\<lambda>(k, _). in_block width blk k) (enumerate 0 img))"

definition bit_color :: "bool \<Rightarrow> byte" where
  "bit_color b = (if b then 238 else 17)"

fun embed_positions :: "nat \<Rightarrow> nat \<Rightarrow> (int \<times> int) list \<Rightarrow> bool list \<Rightarrow> nat \<Rightarrow> bytes \<Rightarrow> bytes \<times> nat" where
  "embed_positions width height [] bits cursor img = (img, cursor)"
| "embed_positions width height (p # ps) bits cursor img =
     (if length bits \<le> cursor then (img, cursor)
      else embed_positions width height ps bits (cursor + 1)
             (fill_block width (block_at width height p) (bit_color (bits ! cursor)) img))"

definition embed_border_bits :: "nat \<Rightarrow> nat \<Rightarrow> bytes \<Rightarrow> bool list \<Rightarrow> nat \<Rightarrow> bytes \<times> nat" where
  "embed_border_bits width height img bits cursor =
     embed_positions width height (border_positions width height) bits cursor img"

definition embed_lsb_bits :: "bytes \<Rightarrow> bool list \<Rightarrow> bytes" where
  "embed_lsb_bits img bits =
     (let limit = min (length bits) (length img) in
      map2 (\<lambda>v b. (v AND 0xFE) OR of_bool b) (take limit img) (take limit bits) @ drop limit img)"

text \<open>The loop of \<^verbatim>\<open>embed_metadata\<close> over the decoded frames.\<close>

fun embed_frames :: "nat \<Rightarrow> nat \<Rightarrow> bool list \<Rightarrow> nat \<Rightarrow> bytes list \<Rightarrow> bytes list" where
  "embed_frames width height bits cursor [] = []"
| "embed_frames width height bits cursor (raw_frame # frames) =
     (let (img, cursor') = embed_border_bits width height raw_frame bits cursor
      in embed_lsb_bits img bits # embed_frames width height bits cursor' frames)"

datatype StegoError = StegoValueError string | StegoRuntimeError string

text \<open>The whole loop with its checks: the capacity before, and the size of every chunk until the first empty one.\<close>

definition embed_video :: "nat \<Rightarrow> nat \<Rightarrow> nat option \<Rightarrow> bytes \<Rightarrow> bytes list \<Rightarrow> StegoError + bytes list" where
  "embed_video width height frame_count payload chunks =
     (let bits = bytes_to_bits payload;
          n = (case frame_count of None \<Rightarrow> 1 | Some c \<Rightarrow> if c = 0 then 1 else c);
          frames = takeWhile (\<lambda>c. c \<noteq> []) chunks
      in if border_capacity width height * n < length bits \<and> width * height * 3 * n < length bits
         then Inl (StegoValueError ''metadata payload is larger than the available video steganography capacity'')
         else if list_ex (\<lambda>c. length c \<noteq> width * height * 3) frames then Inl (StegoRuntimeError ''ffmpeg returned a partial frame'')
         else Inr (embed_frames width height bits 0 frames))"

section \<open>Extraction\<close>

definition block_bit :: "nat \<Rightarrow> block \<Rightarrow> bytes \<Rightarrow> bool" where
  "block_bit width blk img =
     (let samples = block_samples width blk img in 128 \<le> sum_list (map unat samples) div length samples)"

definition border_bits :: "nat \<Rightarrow> nat \<Rightarrow> bytes \<Rightarrow> bool list" where
  "border_bits width height img = map (\<lambda>p. block_bit width (block_at width height p) img) (border_positions width height)"

text \<open>What unpacking takes from outside.\<close>

record Codec =
  cd_H :: "bytes \<Rightarrow> bytes"
  cd_inflate :: "bytes \<Rightarrow> nat \<Rightarrow> Inflated option"
  cd_loads :: "bytes \<Rightarrow> pyval option"
  cd_time :: TimeContext

definition unpack_progressive :: "Codec \<Rightarrow> bool list \<Rightarrow> (string \<times> pyval) list option" where
  "unpack_progressive cd bits =
     (let header_bits = (7 + 4 + 32) * 8 in
      if length bits < header_bits then None
      else let header = bits_to_bytes (take header_bits bits) in
        if take 7 header \<notin> {MAGIC_V1, MAGIC_V2} then None
        else let size = be_nat (take 4 (drop 7 header)) in
          if MAX_PAYLOAD_BYTES < size then None
          else let total_bits = (7 + 4 + 32 + size) * 8 in
            if length bits < total_bits then None
            else unpack_envelope (cd_H cd) (cd_inflate cd) (cd_loads cd) (cd_time cd) (bits_to_bytes (take total_bits bits)))"

definition extract_from_border :: "Codec \<Rightarrow> bytes list \<Rightarrow> nat \<Rightarrow> nat \<Rightarrow> (string \<times> pyval) list option" where
  "extract_from_border cd frames width height = unpack_progressive cd (concat (map (border_bits width height) frames))"

fun extract_lsb_from :: "Codec \<Rightarrow> bool list \<Rightarrow> bytes list \<Rightarrow> (string \<times> pyval) list option" where
  "extract_lsb_from cd bits [] = None"
| "extract_lsb_from cd bits (img # frames) =
     (let bits' = bits @ map (\<lambda>v. bit v 0) img in
      case unpack_progressive cd bits' of Some d \<Rightarrow> Some d | None \<Rightarrow> extract_lsb_from cd bits' frames)"

definition extract_from_lsb :: "Codec \<Rightarrow> bytes list \<Rightarrow> (string \<times> pyval) list option" where
  "extract_from_lsb cd frames = extract_lsb_from cd [] frames"

text \<open>The loop of \<^verbatim>\<open>_extract_metadata_process\<close>: at most \<open>n\<close> more chunks, stopping at an empty or partial one.\<close>

fun scan_frames :: "Codec \<Rightarrow> nat \<Rightarrow> nat \<Rightarrow> nat \<Rightarrow> bytes list \<Rightarrow> bytes list \<Rightarrow> (string \<times> pyval) list option" where
  "scan_frames cd width height (Suc n) frames (raw_frame # chunks) =
     (if raw_frame = [] \<or> length raw_frame \<noteq> width * height * 3 then extract_from_lsb cd frames
      else let frames' = frames @ [raw_frame] in
        case extract_from_border cd frames' width height of
          Some d \<Rightarrow> Some d
        | None \<Rightarrow> scan_frames cd width height n frames' chunks)"
| "scan_frames cd width height n frames chunks = extract_from_lsb cd frames"

definition extract_metadata_process :: "Codec \<Rightarrow> nat \<Rightarrow> nat \<Rightarrow> nat option \<Rightarrow> bytes list \<Rightarrow> (string \<times> pyval) list option" where
  "extract_metadata_process cd width height frame_count chunks =
     scan_frames cd width height (case frame_count of None \<Rightarrow> 240 | Some c \<Rightarrow> if c = 0 then 240 else c) [] chunks"

section \<open>Bits and bytes\<close>

lemma length_bytes_to_bits [simp]: "length (bytes_to_bits data) = 8 * length data"
  by (induction data) (simp_all add: bytes_to_bits_def)

lemma foldl_horner: "foldl (\<lambda>v b. 2 * v + of_bool b) 0 (rev xs) = (horner_sum of_bool 2 xs :: nat)"
  by (induction xs) (simp_all add: add.commute)

lemma bits_of_byte: "of_nat (bits_value (map (bit b) (rev [0..<8]))) = (b :: byte)"
proof -
  have "bits_value (map (bit b) (rev [0..<8])) = horner_sum of_bool 2 (map (bit b) [0..<8])"
    unfolding bits_value_def rev_map [symmetric] by (rule foldl_horner)
  moreover have "of_nat (horner_sum of_bool 2 xs :: nat) = (horner_sum of_bool 2 xs :: byte)" for xs
    by (induction xs) simp_all
  ultimately show ?thesis
    using take_bit_length_eq [of b] by (simp add: horner_sum_bit_eq_take_bit del: upt_rec_numeral)
qed

lemma bits_to_bytes_append: "length xs = 8 \<Longrightarrow> bits_to_bytes (xs @ bits) = of_nat (bits_value xs) # bits_to_bytes bits"
proof -
  assume "length xs = 8"
  then obtain a b c d e f g h where "xs = [a, b, c, d, e, f, g, h]"
    by (auto simp: numeral_eq_Suc length_Suc_conv)
  then show ?thesis by simp
qed

lemma bits_bytes: "bits_to_bytes (bytes_to_bits data @ rest) = data @ bits_to_bytes rest"
proof (induction data)
  case (Cons b data)
  have "bytes_to_bits (b # data) @ rest = map (bit b) (rev [0..<8]) @ (bytes_to_bits data @ rest)"
    by (simp add: bytes_to_bits_def)
  also have "bits_to_bytes \<dots> = b # bits_to_bytes (bytes_to_bits data @ rest)"
    by (subst bits_to_bytes_append) (simp_all add: bits_of_byte del: upt_rec_numeral)
  finally show ?case using Cons by simp
qed (simp add: bytes_to_bits_def)

lemma bytes_to_bits_take: "take (8 * n) (bytes_to_bits data) = bytes_to_bits (take n data)"
proof (induction data arbitrary: n)
  case (Cons b data)
  then show ?case by (cases n) (simp_all add: bytes_to_bits_def)
qed (simp add: bytes_to_bits_def)

section \<open>Squares\<close>

lemma length_fill [simp]: "length (fill_block w blk c img) = length img"
  by (simp add: fill_block_def)

lemma fill_nth: "k < length img \<Longrightarrow> fill_block w blk c img ! k = (if in_block w blk k then c else img ! k)"
  by (simp add: fill_block_def nth_enumerate_eq)

text \<open>The indices of the samples in a square.\<close>

definition cells :: "nat \<Rightarrow> block \<Rightarrow> nat set" where
  "cells w blk = (case blk of ((y0, y1), (x0, x1)) \<Rightarrow> (\<lambda>(y, x, c). (y * w + x) * 3 + c) ` ({y0..<y1} \<times> {x0..<x1} \<times> {0..<3}))"

lemma in_block_cells:
  assumes "x1 \<le> w"
  shows "in_block w ((y0, y1), (x0, x1)) k \<longleftrightarrow> k \<in> cells w ((y0, y1), (x0, x1))"
proof
  assume b: "in_block w ((y0, y1), (x0, x1)) k"
  have k: "k = (k div 3 div w * w + k div 3 mod w) * 3 + k mod 3" by simp
  have mem: "(k div 3 div w, k div 3 mod w, k mod 3) \<in> {y0..<y1} \<times> {x0..<x1} \<times> {0..<3}"
    using b by (simp add: in_block_def)
  show "k \<in> cells w ((y0, y1), (x0, x1))"
    unfolding cells_def prod.case by (rule image_eqI [OF _ mem]) (simp only: prod.case k [symmetric])
next
  assume "k \<in> cells w ((y0, y1), (x0, x1))"
  then obtain y x c where k: "k = (y * w + x) * 3 + c" and yx: "y0 \<le> y" "y < y1" "x0 \<le> x" "x < x1" "c < 3"
    by (auto simp: cells_def)
  have "k div 3 = y * w + x" using k yx(5) by simp
  moreover have "(y * w + x) div w = y" "(y * w + x) mod w = x" using yx(4) assms by simp_all
  ultimately show "in_block w ((y0, y1), (x0, x1)) k" using yx by (simp add: in_block_def)
qed

lemma card_cells:
  assumes "x1 \<le> w"
  shows "card (cells w ((y0, y1), (x0, x1))) = (y1 - y0) * (x1 - x0) * 3"
proof -
  have "inj_on (\<lambda>(y, x, c). (y * w + x) * 3 + c) ({y0..<y1} \<times> {x0..<x1} \<times> {0..<(3 :: nat)})"
  proof (rule inj_onI)
    fix p q assume p: "p \<in> {y0..<y1} \<times> {x0..<x1} \<times> {0..<3}" and q: "q \<in> {y0..<y1} \<times> {x0..<x1} \<times> {0..<(3 :: nat)}"
      and eq: "(case p of (y, x, c) \<Rightarrow> (y * w + x) * 3 + c) = (case q of (y, x, c) \<Rightarrow> (y * w + x) * 3 + c)"
    obtain y x c y' x' c' where pq: "p = (y, x, c)" "q = (y', x', c')" by (cases p, cases q) auto
    have l: "x < x1" "x' < x1" "c < 3" "c' < 3" using p q by (simp_all add: pq)
    have "p = q \<and> c = c'" if "p * 3 + c = q * 3 + c'" for p q using that l(3,4) by arith
    then have "y * w + x = y' * w + x'" "c = c'" using eq [unfolded pq prod.case] by blast+
    moreover have "(y * w + x) div w = y" "(y' * w + x') div w = y'" "(y * w + x) mod w = x" "(y' * w + x') mod w = x'"
      using l(1,2) assms by simp_all
    ultimately show "p = q" unfolding pq by metis
  qed
  then show ?thesis by (simp add: cells_def card_image)
qed

lemma cells_bound:
  assumes "x1 \<le> w" "y1 \<le> h" "k \<in> cells w ((y0, y1), (x0, x1))"
  shows "k < w * h * 3"
proof -
  from assms(3) obtain y x c where k: "k = (y * w + x) * 3 + c" "y < y1" "x < x1" "c < 3" by (auto simp: cells_def)
  have "y * w + x < h * w"
  proof -
    have "y * w + x < (y + 1) * w" using k assms(1) by simp
    also have "\<dots> \<le> h * w" using k assms(2) by (intro mult_right_mono) simp_all
    finally show ?thesis .
  qed
  then show ?thesis using k(1,4) by (simp add: mult.commute)
qed

lemma cells_finite [simp]: "finite (cells w blk)"
  by (simp add: cells_def case_prod_beta)

lemma block_sum:
  assumes "x1 \<le> w" "y1 \<le> h" "length img = w * h * 3" and blk: "blk = ((y0, y1), (x0, x1))"
  shows "sum_list (map unat (block_samples w blk img)) = (\<Sum>k \<in> cells w blk. unat (img ! k))"
    and "length (block_samples w blk img) = card (cells w blk)"
proof -
  have set: "{k. k < length img \<and> in_block w blk k} = cells w blk"
    using in_block_cells [OF assms(1)] cells_bound [OF assms(1,2)] assms(3) blk by auto
  have eq: "filter (\<lambda>(k, _). in_block w blk k) (enumerate 0 img) = map (\<lambda>k. (k, img ! k)) (filter (in_block w blk) [0..<length img])"
  proof -
    have "enumerate 0 img = map (\<lambda>k. (k, img ! k)) [0..<length img]"
      by (rule nth_equalityI) (simp_all add: nth_enumerate_eq)
    then show ?thesis by (simp add: filter_map o_def)
  qed
  show "sum_list (map unat (block_samples w blk img)) = (\<Sum>k \<in> cells w blk. unat (img ! k))"
    unfolding block_samples_def eq set [symmetric]
    by (simp add: o_def sum_list_distinct_conv_sum_set atLeast0LessThan lessThan_def conj_commute)
  show "length (block_samples w blk img) = card (cells w blk)"
    unfolding block_samples_def eq set [symmetric]
    by (simp add: distinct_card [symmetric] conj_commute)
qed

subsection \<open>The layout of the border\<close>

text \<open>
  Every position with the part of its square that no later square touches: four rows of a top square, three columns of a
  right one, three rows of a bottom one, and all of a left one.
\<close>

definition columns :: "nat \<Rightarrow> int \<Rightarrow> nat \<times> nat" where
  "columns n x = (nat (max 0 (x - 2)), nat (min (int n) (x + 3)))"

definition layout :: "nat \<Rightarrow> nat \<Rightarrow> ((int \<times> int) \<times> block) list" where
  "layout w h =
     map (\<lambda>x. ((2, x), ((0, 4), columns w x))) (range_up 0 (int w) 6)
     @ map (\<lambda>y. ((y, int w - 3), (columns h y, (w - 3, w)))) (range_up 6 (int h) 6)
     @ map (\<lambda>x. ((int h - 3, x), ((h - 3, h), columns w x))) (range_down (int w - 6) (-1) 6)
     @ map (\<lambda>y. ((y, 2), (columns h y, columns w 2))) (range_down (int h - 6) 5 6)"

lemma layout_positions: "map fst (layout w h) = border_positions w h"
  by (simp add: layout_def border_positions_def BORDER_BLOCK_def BORDER_STRIDE_def)

lemma block_columns: "block_at w h (y, x) = (columns h y, columns w x)"
  by (simp add: block_at_def columns_def BORDER_STRIDE_def add.commute)

lemma range_up_mem: "x \<in> set (range_up lo hi 6) \<Longrightarrow> lo \<le> x \<and> x < hi"
  by (auto simp: range_up_def)

lemma range_down_mem: "x \<in> set (range_down hi lo 6) \<Longrightarrow> lo < x \<and> x \<le> hi"
  by (auto simp: range_down_def)

lemma range_up_sorted: "sorted_wrt (\<lambda>x y. x + 6 \<le> y) (range_up lo hi 6)"
  unfolding range_up_def sorted_wrt_map by (rule sorted_wrt_mono_rel [OF _ sorted_wrt_upt]) auto

lemma range_down_sorted: "sorted_wrt (\<lambda>x y. y + 6 \<le> x) (range_down hi lo 6)"
  unfolding range_down_def sorted_wrt_map by (rule sorted_wrt_mono_rel [OF _ sorted_wrt_upt]) auto

definition apart :: "block \<Rightarrow> block \<Rightarrow> bool" where
  "apart a b \<longleftrightarrow> (case (a, b) of (((y0, y1), (x0, x1)), ((v0, v1), (u0, u1))) \<Rightarrow> y1 \<le> v0 \<or> v1 \<le> y0 \<or> x1 \<le> u0 \<or> u1 \<le> x0)"

lemma apart_cells: "apart a b \<Longrightarrow> in_block w a k \<Longrightarrow> \<not> in_block w b k"
  by (auto simp: apart_def in_block_def split: prod.splits)

lemma cores_apart:
  assumes "12 \<le> w" "12 \<le> h"
  shows "sorted_wrt (\<lambda>(p, c) (p', c'). apart c (block_at w h p')) (layout w h)"
proof -
  have ups: "sorted_wrt R (map f (range_up lo hi 6))" if "\<And>x y. x \<in> set (range_up lo hi 6) \<Longrightarrow> y \<in> set (range_up lo hi 6) \<Longrightarrow> x + 6 \<le> y \<Longrightarrow> R (f x) (f y)"
    for R f lo hi
    unfolding sorted_wrt_map by (rule sorted_wrt_mono_rel [OF _ range_up_sorted]) (rule that)
  have downs: "sorted_wrt R (map f (range_down hi lo 6))" if "\<And>x y. x \<in> set (range_down hi lo 6) \<Longrightarrow> y \<in> set (range_down hi lo 6) \<Longrightarrow> y + 6 \<le> x \<Longrightarrow> R (f x) (f y)"
    for R f lo hi
    unfolding sorted_wrt_map by (rule sorted_wrt_mono_rel [OF _ range_down_sorted]) (rule that)
  show ?thesis
    unfolding layout_def sorted_wrt_append using assms
    by (intro conjI ballI ups downs) (auto simp: apart_def block_columns columns_def dest!: range_up_mem range_down_mem)
qed

definition part_of :: "block \<Rightarrow> block \<Rightarrow> bool" where
  "part_of a b \<longleftrightarrow> (case (a, b) of (((y0, y1), (x0, x1)), ((v0, v1), (u0, u1))) \<Rightarrow> v0 \<le> y0 \<and> y1 \<le> v1 \<and> u0 \<le> x0 \<and> x1 \<le> u1)"

definition extent :: "nat \<times> nat \<Rightarrow> nat" where
  "extent r = snd r - fst r"

lemma columns_bounds:
  "snd (columns n x) \<le> n"
  "0 \<le> x \<Longrightarrow> x < int n \<Longrightarrow> 0 < extent (columns n x)"
  "0 \<le> x \<Longrightarrow> x < int n \<Longrightarrow> extent (columns n x) \<le> 5"
  by (auto simp: columns_def extent_def)

text \<open>The untouched part is at least three fifths of the square.\<close>

lemma core_share:
  assumes "12 \<le> w" "12 \<le> h" "(p, c) \<in> set (layout w h)"
  obtains rows cols where "block_at w h p = (rows, cols)" "snd rows \<le> h" "snd cols \<le> w" "part_of c (rows, cols)"
    "0 < extent rows * extent cols" "3 * (extent rows * extent cols) \<le> 5 * (extent (fst c) * extent (snd c))"
proof -
  from assms(3) consider
    (top) x where "p = (2, x)" "c = ((0, 4), columns w x)" "0 \<le> x" "x < int w"
  | (right) y where "p = (y, int w - 3)" "c = (columns h y, (w - 3, w))" "0 \<le> y" "y < int h"
  | (bottom) x where "p = (int h - 3, x)" "c = ((h - 3, h), columns w x)" "0 \<le> x" "x < int w"
  | (left) y where "p = (y, 2)" "c = (columns h y, columns w 2)" "0 \<le> y" "y < int h"
    unfolding layout_def by (fastforce dest: range_up_mem range_down_mem)
  then show ?thesis
  proof cases
    case top
    have "columns h 2 = (0, 5)" using assms(2) by (simp add: columns_def)
    then show ?thesis
      using that [of "columns h 2" "columns w x"] top columns_bounds [where n = w and x = x] assms(2)
      by (simp add: block_columns part_of_def extent_def case_prod_beta)
  next
    case right
    have "columns w (int w - 3) = (w - 5, w)" using assms(1) by (auto simp: columns_def)
    then show ?thesis
      using that [of "columns h y" "columns w (int w - 3)"] right columns_bounds [where n = h and x = y] assms(1)
      by (simp add: block_columns part_of_def extent_def case_prod_beta)
  next
    case bottom
    have "columns h (int h - 3) = (h - 5, h)" using assms(2) by (auto simp: columns_def)
    then show ?thesis
      using that [of "columns h (int h - 3)" "columns w x"] bottom columns_bounds [where n = w and x = x] assms(2)
      by (simp add: block_columns part_of_def extent_def case_prod_beta)
  next
    case left
    have "columns w 2 = (0, 5)" using assms(1) by (simp add: columns_def)
    then show ?thesis
      using that [of "columns h y" "columns w 2"] left columns_bounds [where n = h and x = y] assms(1)
      by (simp add: block_columns part_of_def extent_def case_prod_beta)
  qed
qed

section \<open>What embedding leaves in the frame\<close>

lemma length_embed_positions [simp]: "length (fst (embed_positions w h ps bits cur img)) = length img"
  by (induction ps arbitrary: cur img) simp_all

lemma cursor_after: "cur \<le> length bits \<Longrightarrow> snd (embed_positions w h ps bits cur img) = min (cur + length ps) (length bits)"
  by (induction ps arbitrary: cur img) auto

lemma embed_untouched:
  assumes "\<forall>p \<in> set ps. \<not> in_block w (block_at w h p) k" "k < length img"
  shows "fst (embed_positions w h ps bits cur img) ! k = img ! k"
  using assms by (induction ps arbitrary: cur img) (simp_all add: fill_nth)

lemma part_of_cells: "part_of a b \<Longrightarrow> in_block w a k \<Longrightarrow> in_block w b k"
  by (auto simp: part_of_def in_block_def split: prod.splits)

lemma embed_core:
  assumes "sorted_wrt (\<lambda>(p, c) (p', c'). apart c (block_at w h p')) L" "\<forall>(p, c) \<in> set L. part_of c (block_at w h p)"
    and "i < length L" "cur + i < length bits" "k < length img" "in_block w (snd (L ! i)) k"
  shows "fst (embed_positions w h (map fst L) bits cur img) ! k = bit_color (bits ! (cur + i))"
  using assms
proof (induction L arbitrary: i cur img)
  case (Cons pc L)
  obtain p c where pc: "pc = (p, c)" by (rule prod.exhaust)
  show ?case
  proof (cases i)
    case 0
    have "part_of c (block_at w h p)" "in_block w c k" using Cons.prems 0 pc by auto
    then have "in_block w (block_at w h p) k" by (rule part_of_cells)
    moreover have "\<forall>q \<in> set (map fst L). \<not> in_block w (block_at w h q) k"
    proof
      fix q assume "q \<in> set (map fst L)"
      then have "apart c (block_at w h q)" using Cons.prems(1) pc by auto
      then show "\<not> in_block w (block_at w h q) k" using \<open>in_block w c k\<close> by (rule apart_cells)
    qed
    ultimately show ?thesis using Cons.prems 0 pc by (simp add: embed_untouched fill_nth)
  next
    case (Suc j)
    then show ?thesis using Cons.IH [of j "cur + 1"] Cons.prems pc by simp
  qed
qed simp

lemma lsb_nth:
  assumes "k < length img"
  shows "embed_lsb_bits img bits ! k = (if k < length bits then (img ! k AND 0xFE) OR of_bool (bits ! k) else img ! k)"
  using assms by (simp add: embed_lsb_bits_def Let_def nth_append min_def)

lemma length_lsb [simp]: "length (embed_lsb_bits img bits) = length img"
  by (simp add: embed_lsb_bits_def Let_def)

lemma lsb_color:
  assumes "k < length img" "img ! k = bit_color b"
  shows "if b then 238 \<le> unat (embed_lsb_bits img bits ! k) else unat (embed_lsb_bits img bits ! k) \<le> 17"
proof -
  have "238 \<le> unat (((238 :: byte) AND 0xFE) OR of_bool x) \<and> unat (((17 :: byte) AND 0xFE) OR of_bool x) \<le> 17" for x
    by (cases x) simp_all
  then show ?thesis using assms by (simp add: lsb_nth bit_color_def)
qed

section \<open>Reading a distorted frame\<close>

definition close :: "nat \<Rightarrow> bytes \<Rightarrow> bytes \<Rightarrow> bool" where
  "close e xs ys \<longleftrightarrow> list_all2 (\<lambda>x y. unat x \<le> unat y + e \<and> unat y \<le> unat x + e) xs ys"

lemma square_read:
  assumes blk: "blk = ((y0, y1), (x0, x1))" "x1 \<le> w" "y1 \<le> h" and len: "length img = w * h * 3"
    and core: "part_of c blk" "0 < extent (fst blk) * extent (snd blk)"
      "3 * (extent (fst blk) * extent (snd blk)) \<le> 5 * (extent (fst c) * extent (snd c))"
    and val: "\<And>k. k < length img \<Longrightarrow> in_block w c k \<Longrightarrow> if b then 214 \<le> unat (img ! k) else unat (img ! k) \<le> 41"
  shows "block_bit w blk img = b"
proof -
  obtain v0 v1 u0 u1 where c: "c = ((v0, v1), (u0, u1))" by (metis prod.exhaust)
  have u1: "u1 \<le> w" using core(1) blk by (simp add: part_of_def c)
  define B C S where "B = cells w blk" and "C = cells w c" and "S = (\<Sum>k \<in> B. unat (img ! k))"
  have sub: "C \<subseteq> B"
    using part_of_cells [OF core(1), of w] in_block_cells [OF u1, of v0 v1 u0] in_block_cells [OF blk(2), of y0 y1 x0]
    by (auto simp: B_def C_def blk c)
  have n: "card B = extent (fst blk) * extent (snd blk) * 3" "card C = extent (fst c) * extent (snd c) * 3"
    using card_cells [OF blk(2)] card_cells [OF u1] by (simp_all add: B_def C_def blk c extent_def)
  have share: "0 < card B" "3 * card B \<le> 5 * card C" using core(2,3) by (simp_all add: n)
  have fin: "finite B" by (simp add: B_def)
  have lt: "k \<in> C \<Longrightarrow> k < length img \<and> in_block w c k" for k
    using cells_bound [OF blk(2,3)] sub in_block_cells [OF u1, of v0 v1 u0] len by (auto simp: B_def C_def blk(1) c)
  have S: "S = (\<Sum>k \<in> C. unat (img ! k)) + (\<Sum>k \<in> B - C. unat (img ! k))"
    unfolding S_def using sum.subset_diff [OF sub fin] by (simp add: add.commute)
  have bit: "block_bit w blk img \<longleftrightarrow> 128 * card B \<le> S"
    using block_sum [OF blk(2,3) len blk(1)] share(1)
    by (simp add: block_bit_def Let_def B_def S_def less_eq_div_iff_mult_less_eq)
  show ?thesis
  proof (cases b)
    case True
    have "(\<Sum>k \<in> C. unat (img ! k)) \<ge> card C * 214"
      using sum_bounded_below [of C 214 "\<lambda>k. unat (img ! k)"] val lt True by auto
    then have "128 * card B \<le> S" using share S by linarith
    then show ?thesis using bit True by simp
  next
    case False
    have "(\<Sum>k \<in> C. unat (img ! k)) \<le> card C * 41"
      using sum_bounded_above [of C "\<lambda>k. unat (img ! k)" 41] val lt False by auto
    moreover have "(\<Sum>k \<in> B - C. unat (img ! k)) \<le> card (B - C) * 255"
    proof -
      have "unat (img ! k) \<le> 255" for k using unat_byte_less [of "img ! k"] by linarith
      then show ?thesis using sum_bounded_above [of "B - C" "\<lambda>k. unat (img ! k)" 255] by auto
    qed
    moreover have "card (B - C) = card B - card C" "card C \<le> card B" using sub fin by (simp_all add: card_Diff_subset finite_subset card_mono)
    ultimately have "S < 128 * card B" using share S by linarith
    then show ?thesis using bit False by simp
  qed
qed

lemma layout_core:
  assumes "12 \<le> w" "12 \<le> h" shows "\<forall>(p, c) \<in> set (layout w h). part_of c (block_at w h p)"
  using core_share [OF assms] by (metis (no_types, lifting) case_prodI2)

lemma frame_read:
  assumes wh: "12 \<le> w" "12 \<le> h" and len: "length img = w * h * 3" and cur: "cur \<le> length bits"
    and sent: "embed_border_bits w h img bits cur = (img', cur')" and noise: "close 24 (embed_lsb_bits img' bits) got"
  shows "cur' = min (cur + border_capacity w h) (length bits)" "length got = w * h * 3"
    "take (cur' - cur) (border_bits w h got) = take (cur' - cur) (drop cur bits)"
proof -
  let ?L = "layout w h"
  have e: "embed_positions w h (map fst ?L) bits cur img = (img', cur')"
    using sent by (simp add: embed_border_bits_def layout_positions)
  have P: "border_capacity w h = length ?L" by (simp add: border_capacity_def layout_positions [symmetric])
  show cur': "cur' = min (cur + border_capacity w h) (length bits)"
    using cursor_after [OF cur, of w h "map fst ?L" img] e by (simp add: P)
  have img': "length img' = w * h * 3" using length_embed_positions [of w h "map fst ?L" bits cur img] e len by simp
  show len': "length got = w * h * 3" using list_all2_lengthD [OF noise [unfolded close_def]] img' by simp
  have "border_bits w h got ! i = bits ! (cur + i)" if i: "i < cur' - cur" for i
  proof -
    have iL: "i < length ?L" "cur + i < length bits" using i cur' P by auto
    obtain p c where pc: "?L ! i = (p, c)" by (rule prod.exhaust)
    then have "(p, c) \<in> set ?L" using iL(1) by (metis nth_mem)
    from core_share [OF wh this] obtain rows cols where blk: "block_at w h p = (rows, cols)" "snd rows \<le> h" "snd cols \<le> w" "part_of c (rows, cols)"
      "0 < extent rows * extent cols" "3 * (extent rows * extent cols) \<le> 5 * (extent (fst c) * extent (snd c))" .
    have "block_bit w (rows, cols) got = bits ! (cur + i)"
    proof (rule square_read [where h = h and c = c, OF _ blk(3,2) len' blk(4)])
      show "(rows, cols) = ((fst rows, snd rows), (fst cols, snd cols))" by simp
      fix k assume k: "k < length got" "in_block w c k"
      have k': "k < length img'" "k < length img" using k len' img' len by simp_all
      have "img' ! k = bit_color (bits ! (cur + i))"
        using embed_core [OF cores_apart [OF wh] layout_core [OF wh] iL k'(2)] k(2) e pc by simp
      from lsb_color [OF k'(1) this, of bits] list_all2_nthD [OF noise [unfolded close_def], of k] k'
      show "if bits ! (cur + i) then 214 \<le> unat (got ! k) else unat (got ! k) \<le> 41"
        by (auto split: if_splits)
    qed (use blk in simp_all)
    moreover have "border_positions w h ! i = p" using iL(1) pc by (simp add: layout_positions [symmetric])
    ultimately show ?thesis using iL(1) P blk(1) by (simp add: border_bits_def border_capacity_def)
  qed
  then show "take (cur' - cur) (border_bits w h got) = take (cur' - cur) (drop cur bits)"
    using cur' P by (intro nth_equalityI) (auto simp: border_bits_def border_capacity_def)
qed

lemma length_border_bits [simp]: "length (border_bits w h img) = border_capacity w h"
  by (simp add: border_bits_def border_capacity_def)

lemma length_border_concat: "length (concat (map (border_bits w h) imgs)) = border_capacity w h * length imgs"
  by (induction imgs) simp_all

lemma frames_read:
  assumes wh: "12 \<le> w" "12 \<le> h" and len: "\<forall>img \<in> set imgs. length img = w * h * 3" and cur: "cur \<le> length bits"
    and noise: "list_all2 (close 24) (embed_frames w h bits cur imgs) got"
  shows "take (length bits - cur) (concat (map (border_bits w h) got)) = take (border_capacity w h * length got) (drop cur bits)"
    and "\<forall>img \<in> set got. length img = w * h * 3"
proof -
  let ?P = "border_capacity w h"
  have "take (length bits - cur) (concat (map (border_bits w h) got)) = take (?P * length got) (drop cur bits) \<and>
    (\<forall>img \<in> set got. length img = w * h * 3)"
    using len cur noise
  proof (induction imgs arbitrary: cur got)
    case (Cons img imgs)
    obtain img' cur' where e: "embed_border_bits w h img bits cur = (img', cur')" by fastforce
    with Cons.prems(3) obtain g gs where got: "got = g # gs" and g: "close 24 (embed_lsb_bits img' bits) g"
      and gs: "list_all2 (close 24) (embed_frames w h bits cur' imgs) gs"
      by (auto simp: list_all2_Cons1)
    have l: "length img = w * h * 3" using Cons.prems(1) by simp
    note r = frame_read [OF wh l Cons.prems(2) e g]
    have IH: "take (length bits - cur') (concat (map (border_bits w h) gs)) = take (?P * length gs) (drop cur' bits)"
      "\<forall>img \<in> set gs. length img = w * h * 3"
      using Cons.IH [OF _ _ gs] Cons.prems(1) r(1) by simp_all
    show ?case
    proof (cases "cur + ?P \<le> length bits")
      case True
      then have c: "cur' = cur + ?P" using r(1) by simp
      then have "border_bits w h g = take ?P (drop cur bits)" using r(3) by simp
      moreover have "take (length bits - cur - ?P) (concat (map (border_bits w h) gs)) = take (?P * length gs) (drop ?P (drop cur bits))"
        using IH(1) c by (simp add: add.commute)
      ultimately show ?thesis using r(2) IH(2) got True by (simp add: take_add)
    next
      case False
      then have c: "cur' = length bits" using r(1) by simp
      then have "take (length bits - cur) (border_bits w h g) = drop cur bits" using r(3) by simp
      then show ?thesis using False r(2) IH(2) got by simp
    qed
  qed simp
  then show "take (length bits - cur) (concat (map (border_bits w h) got)) = take (?P * length got) (drop cur bits)"
    "\<forall>img \<in> set got. length img = w * h * 3" by simp_all
qed

lemma embed_frames_take: "embed_frames w h bits cur (take n imgs) = take n (embed_frames w h bits cur imgs)"
proof (induction imgs arbitrary: n cur)
  case (Cons img imgs)
  then show ?case by (cases n) (simp_all add: case_prod_beta Let_def)
qed simp

section \<open>Recognising the envelope\<close>

lemma progressive_read:
  assumes magic: "magic \<in> {MAGIC_V1, MAGIC_V2}" and H: "length (H body) = 32" and small: "length body \<le> MAX_PAYLOAD_BYTES"
    and data: "data = frame_body H magic body" and bits: "take (8 * length data) got = take (length got) (bytes_to_bits data)"
  shows "unpack_progressive cd got = (if length got < 8 * length data then None
    else unpack_envelope (cd_H cd) (cd_inflate cd) (cd_loads cd) (cd_time cd) data)"
proof (cases "length got < 344")
  case True
  have "length data = 43 + length body" using magic_length [OF magic] H by (simp add: data frame_body_def)
  then show ?thesis using True by (simp add: unpack_progressive_def)
next
  case False
  have len: "length data = 43 + length body" using magic_length [OF magic] H by (simp add: data frame_body_def)
  have "take 344 got = take 344 (take (8 * length data) got)" using len by simp
  also have "\<dots> = take (8 * 43) (bytes_to_bits data)" unfolding bits using False by simp
  finally have header: "bits_to_bytes (take 344 got) = take 43 data"
    using bits_bytes [of "take 43 data" "[]"] by (simp only: bytes_to_bits_take) simp
  have "take 7 (take 43 data) = magic" "take 4 (drop 7 (take 43 data)) = nat_be 4 (length body)"
    using magic_length [OF magic] H by (simp_all add: data frame_body_def)
  moreover have "length body < 256 ^ 4" using small by (simp add: MAX_PAYLOAD_BYTES_def)
  ultimately have parts: "take 7 (take 43 data) = magic" "be_nat (take 4 (drop 7 (take 43 data))) = length body"
    by (simp_all add: be_nat_nat_be)
  have all: "bits_to_bytes (take (8 * length data) got) = data" if "8 * length data \<le> length got"
    using bits_bytes [of data "[]"] that bits by simp
  have total: "(7 + 4 + 32 + length body) * 8 = 8 * length data" using len by simp
  have "take 7 data = magic" using parts(1) by simp
  then show ?thesis
    using False magic small all
    by (simp only: unpack_progressive_def Let_def total [symmetric]) (simp add: header parts total [symmetric] len mult.commute)
qed

lemma scan_finds:
  assumes wh: "12 \<le> w" "12 \<le> h" and len: "\<forall>img \<in> set got. length img = w * h * 3"
    and magic: "magic \<in> {MAGIC_V1, MAGIC_V2}" "length (H body) = 32" "length body \<le> MAX_PAYLOAD_BYTES" "data = frame_body H magic body"
    and read: "\<And>j. j \<le> length got \<Longrightarrow>
      take (8 * length data) (concat (map (border_bits w h) (take j got))) = take (border_capacity w h * j) (bytes_to_bits data)"
    and room: "8 * length data \<le> border_capacity w h * length got"
    and d: "unpack_envelope (cd_H cd) (cd_inflate cd) (cd_loads cd) (cd_time cd) data = Some d"
    and j: "j \<le> length got" "border_capacity w h * j < 8 * length data" "length got - j \<le> n"
  shows "scan_frames cd w h n (take j got) (drop j got) = Some d"
  using j
proof (induction "length got - j" arbitrary: j n)
  case 0
  then have "j = length got" by simp
  then show ?case using 0 room by simp
next
  case (Suc k)
  then have lt: "j < length got" by simp
  then obtain n' where n: "n = Suc n'" using Suc.prems(3) by (cases n) auto
  have g1: "length (got ! j) = w * h * 3" using len lt by simp
  then have g: "length (got ! j) = w * h * 3" "got ! j \<noteq> []" using wh by auto
  have "unpack_progressive cd (concat (map (border_bits w h) (take (Suc j) got))) =
      (if border_capacity w h * Suc j < 8 * length data then None else Some d)"
    using progressive_read [OF magic, of "concat (map (border_bits w h) (take (Suc j) got))" cd] read [of "Suc j"] lt d
    by (simp add: length_border_concat del: mult_Suc_right)
  then have border: "extract_from_border cd (take j got @ [got ! j]) w h = (if border_capacity w h * Suc j < 8 * length data then None else Some d)"
    using lt by (simp only: extract_from_border_def take_Suc_conv_app_nth)
  show ?case
  proof (cases "border_capacity w h * Suc j < 8 * length data")
    case True
    then have "scan_frames cd w h n' (take (Suc j) got) (drop (Suc j) got) = Some d"
      using Suc.hyps(2) Suc.prems(3) n lt by (intro Suc.hyps(1)) auto
    then show ?thesis
      using lt g border True by (simp add: n Cons_nth_drop_Suc [symmetric] take_Suc_conv_app_nth del: mult_Suc_right)
  next
    case False
    then show ?thesis using lt g border by (simp add: n Cons_nth_drop_Suc [symmetric] del: mult_Suc_right)
  qed
qed

lemma border_survives:
  assumes wh: "12 \<le> w" "12 \<le> h" and len: "\<forall>img \<in> set imgs. length img = w * h * 3"
    and magic: "magic \<in> {MAGIC_V1, MAGIC_V2}" "length (H body) = 32" "length body \<le> MAX_PAYLOAD_BYTES" "data = frame_body H magic body"
    and d: "unpack_envelope (cd_H cd) (cd_inflate cd) (cd_loads cd) (cd_time cd) data = Some d"
    and room: "8 * length data \<le> border_capacity w h * length imgs"
    and n: "length imgs \<le> (case frame_count of None \<Rightarrow> 240 | Some c \<Rightarrow> if c = 0 then 240 else c)"
    and noise: "list_all2 (close 24) (embed_frames w h (bytes_to_bits data) 0 imgs) got"
  shows "extract_metadata_process cd w h frame_count got = Some d"
proof -
  let ?bits = "bytes_to_bits data"
  have same: "length got = length imgs"
  proof -
    have "length (embed_frames w h bits cur imgs) = length imgs" for bits cur
      by (induction imgs arbitrary: cur) (simp_all add: case_prod_beta Let_def)
    then show ?thesis using list_all2_lengthD [OF noise] by simp
  qed
  have read: "take (8 * length data) (concat (map (border_bits w h) (take j got))) = take (border_capacity w h * j) ?bits"
    if "j \<le> length got" for j
  proof -
    have "list_all2 (close 24) (embed_frames w h ?bits 0 (take j imgs)) (take j got)"
      using noise by (simp add: embed_frames_take list_all2_takeI)
    from frames_read(1) [OF wh _ _ this] len that show ?thesis
      by (simp add: min_absorb1 in_set_takeD [THEN len [rule_format]])
  qed
  have got: "\<forall>img \<in> set got. length img = w * h * 3" by (rule frames_read(2) [OF wh len _ noise]) simp
  have "0 < length data" using magic_length [OF magic(1)] by (simp add: magic(4) frame_body_def)
  then show ?thesis
    using scan_finds [OF wh got magic read _ d, of 0] room n same by (simp add: extract_metadata_process_def)
qed

subsection \<open>Properties\<close>

text \<open>
  C?: Embedding survives distortion. When metadata has been packed and the border of the frames,
  each at least 12 by 12 pixels, has room for the bits of the envelope, then after any change of
  each sample by at most 24, extraction returns the packed metadata in canonical form.
\<close>

theorem embedded_metadata_survives:
  assumes "\<forall>x. length (H x) = 32" and "distinct (map fst m0)" and "later tc tc'"
    and "pack_envelope H deflate fr other tc m0 version = Inr data"
    and "\<forall>m magic. versioned other tc m0 version = Inr (m, magic) \<longrightarrow> zlib_inverts deflate inflate (canonical_json fr m) \<and> json_inverts loads fr m"
    and "12 \<le> w" and "12 \<le> h" and "\<forall>img \<in> set imgs. length img = w * h * 3"
    and "8 * length data \<le> border_capacity w h * length imgs"
    and "length imgs \<le> (case frame_count of None \<Rightarrow> 240 | Some c \<Rightarrow> if c = 0 then 240 else c)"
    and "list_all2 (close 24) (embed_frames w h (bytes_to_bits data) 0 imgs) got"
  shows "\<exists>m magic d. versioned other tc m0 version = Inr (m, magic) \<and> canon (PDict m) = PDict d \<and>
     extract_metadata_process \<lparr>cd_H = H, cd_inflate = inflate, cd_loads = loads, cd_time = tc'\<rparr> w h frame_count got = Some d"
proof -
  obtain m magic d where v: "versioned other tc m0 version = Inr (m, magic)" and d: "canon (PDict m) = PDict d"
    and data: "data = frame_body H magic (deflate (canonical_json fr m))" and magic: "magic \<in> {MAGIC_V1, MAGIC_V2}"
    and small: "length (deflate (canonical_json fr m)) \<le> MAX_PAYLOAD_BYTES"
    and u: "\<And>rest. unpack_envelope H inflate loads tc' (data @ rest) = Some d"
    by (rule pack_unpack [OF _ assms(2,3,4)]) (use assms(1,5) in blast)+
  have "extract_metadata_process \<lparr>cd_H = H, cd_inflate = inflate, cd_loads = loads, cd_time = tc'\<rparr> w h frame_count got = Some d"
    using u [of "[]"] assms(1) by (intro border_survives [OF assms(6-8) magic _ small data _ assms(9-11)]) simp_all
  with v d show ?thesis by blast
qed

theorem embedded_metadata_survives_witness:
  "\<exists>d. canon (PDict upgraded_metadata) = PDict d \<and>
     extract_metadata_process \<lparr>cd_H = \<lambda>_. replicate 32 7, cd_inflate = sample_inflate, cd_loads = sample_loads, cd_time = sample_context\<lparr>tc_now := 20\<rparr>\<rparr>
       12 12 None (embed_frames 12 12 (bytes_to_bits (frame_body (\<lambda>_. replicate 32 7) MAGIC_V2 [1])) 0 (replicate 59 (replicate 432 0))) = Some d"
proof -
  have cap: "border_capacity 12 12 = 6" by code_simp
  have "length MAGIC_V2 = 7" by code_simp
  then have room: "8 * length (frame_body (\<lambda>_. replicate 32 7) MAGIC_V2 [1]) \<le> border_capacity 12 12 * length (replicate 59 (replicate 432 (0 :: byte)))"
    by (simp add: cap frame_body_def)
  have refl: "list_all2 (close 24) imgs imgs" for imgs by (simp add: list_all2_refl close_def)
  show ?thesis
    using embedded_metadata_survives [OF _ sample_codec(1,2) sample_packed sample_codec(3) _ _ _ room _ refl, where frame_count = None]
    by (auto simp: sample_versioned simp del: canon.simps)
qed

text \<open>
  The low bits repeat the start of the payload in every frame while extraction reads them as one stream, so they carry
  the envelope only when one frame holds all of it.
\<close>

lemma lsb_frame_bits:
  assumes "length bits \<le> length img"
  shows "take (length bits) (map (\<lambda>v. bit v 0) (embed_lsb_bits img bits)) = bits"
proof (rule nth_equalityI)
  have odd: "bit ((v AND 0xFE) OR of_bool b) 0 = b" for v :: byte and b by (simp add: bit_simps)
  fix i assume "i < length (take (length bits) (map (\<lambda>v. bit v 0) (embed_lsb_bits img bits)))"
  then show "take (length bits) (map (\<lambda>v. bit v 0) (embed_lsb_bits img bits)) ! i = bits ! i"
    using assms by (simp add: lsb_nth odd)
qed (use assms in simp)

lemma lsb_repeats:
  assumes "\<forall>img \<in> set imgs. length img < length bits"
  shows "concat (map (\<lambda>img. map (\<lambda>v. bit v 0) (embed_lsb_bits img bits)) imgs) = concat (map (\<lambda>img. take (length img) bits) imgs)"
proof -
  have odd: "bit ((v AND 0xFE) OR of_bool b) 0 = b" for v :: byte and b by (simp add: bit_simps)
  have "map (\<lambda>v. bit v 0) (embed_lsb_bits img bits) = take (length img) bits" if "length img < length bits" for img
    using that by (intro nth_equalityI) (simp_all add: lsb_nth odd)
  then show ?thesis using assms by (induction imgs) simp_all
qed

end
