(* ===== verification/Spec2Isabelle.thy ===== *)
theory Spec2Isabelle
  imports Verifier_Inputs Strkey Register_Auth Admission Verifier_Cache Lineage Proof_Store Job_Queue Evidence_Blobs Retention Issuer_Directory Quarantine Chain_Indexer Tx_Reconcile Webhook Idempotency Rfc3161_Chain Time_Attestation Register_Route Envelope Stego
begin

text \<open>
  \<^bold>\<open>Harpocrates: verification of the backend.\<close>

  Harpocrates registers evidence about videos. A client embeds metadata in a video, registers the
  hashes together with a Stellar transaction, and others look the registration up and verify
  zero-knowledge proofs about it. The Python backend (\<^verbatim>\<open>src/backend\<close>) keeps the off-chain record of all
  this: it authenticates registrations, stores them as \<^verbatim>\<open>proof_events\<close>, settles their transactions
  against Horizon, follows the registry contract's events, notifies subscribers, purges what has
  expired, and checks the material it is given before any of it is used. This development models
  those parts as HOL functions and proves what they promise.

  \<^bold>\<open>How the parts interact.\<close> A registration request passes the credential check (\<open>Register_Auth\<close>) and
  the replay of repeated requests (\<open>Idempotency\<close>); its addresses are checked as StrKeys (\<open>Strkey\<close>); the
  event is written by \<open>upsert_register_event\<close> (\<open>Proof_Store\<close>); webhook deliveries are queued (\<open>Webhook\<close>)
  and a \<^verbatim>\<open>verify_tx\<close> job is enqueued (\<open>Job_Queue\<close>), which settles the transaction (\<open>Tx_Reconcile\<close>). The
  indexer (\<open>Chain_Indexer\<close>) writes contract events to the same store and queues the same deliveries.
  The retention worker (\<open>Retention\<close>) purges the store, sweeps the files of finished jobs and collects
  unreferenced blobs (\<open>Evidence_Blobs\<close>). Uploads pass \<open>Quarantine\<close>, expensive requests pass \<open>Admission\<close>,
  verifier inputs pass \<open>Verifier_Inputs\<close> and their results are kept in \<open>Verifier_Cache\<close>.

  \<^bold>\<open>Theories.\<close> Each follows its source file from top to bottom: records for its classes and tables, one
  definition per function or method with the source's name, then the invariant, the lemmas and the
  properties.

  \<^item> \<open>Prelude\<close>: bytes, hexadecimal text, Python values (\<open>pyval\<close>) and string methods, \<open>int\<close>, loops that
    raise (\<open>foreach\<close>, \<open>andthen\<close>), reachability; the locales \<open>invariant_system\<close>, \<open>simulation\<close> and \<open>codec\<close>,
    interpreted by the components on their own definitions.
  \<^item> \<open>Json\<close>, \<open>Base64\<close>: what the sources use of Python's \<^verbatim>\<open>json\<close> and \<^verbatim>\<open>base64\<close>.
  \<^item> \<open>Verifier_Inputs\<close> (\<^verbatim>\<open>verifier_inputs.py\<close>): the parsers of the three public-input schemas accept exactly
    the canonical frames, report the first failing check, and round-trip with the encoder.
  \<^item> \<open>Strkey\<close> (\<^verbatim>\<open>strkey.py\<close>): the validators accept exactly the encoder's outputs and detect every
    single-character error.
  \<^item> \<open>Register_Auth\<close> (\<^verbatim>\<open>register_auth.py\<close>): which requests a credential configuration authorises.
  \<^item> \<open>Admission\<close> (\<^verbatim>\<open>admission.py\<close>): the limits hold and no slot leaks, for any number of threads
    interleaved at the locked sections.
  \<^item> \<open>Verifier_Cache\<close> (\<^verbatim>\<open>verifier_cache.py\<close>): simulation of a reference cache that never forgets; the size
    bound; separation of keys.
  \<^item> \<open>Lineage\<close> (\<^verbatim>\<open>lineage.py\<close>, the lineage tables of \<^verbatim>\<open>db.py\<close>, the registration route of \<^verbatim>\<open>app.py\<close>): the
    recorded graph stays acyclic, the ancestry search terminates and is exact, the canonical manifest
    determines its fields.
  \<^item> \<open>Proof_Store\<close> (the \<^verbatim>\<open>proof_events\<close> part of \<^verbatim>\<open>db.py\<close>): the table invariant, idempotent registration,
    complete pagination, stable ownership.
  \<^item> \<open>Job_Queue\<close> (the queue of \<^verbatim>\<open>db.py\<close>, \<^verbatim>\<open>worker.py\<close>, \<^verbatim>\<open>storage.py\<close>): exclusive leases, the exact sweep of job
    files.
  \<^item> \<open>Evidence_Blobs\<close> (\<^verbatim>\<open>evidence_storage.py\<close>), \<open>Retention\<close> (\<^verbatim>\<open>retention.py\<close>): referenced blobs survive, a run
    terminates and removes exactly what has expired.
  \<^item> \<open>Issuer_Directory\<close> (\<^verbatim>\<open>issuer_key_transparency.py\<close>): an accepted checkpoint is a prefix of the local log up
    to hash collisions, rebuilding equals the incremental directory, past signatures stay valid.
  \<^item> \<open>Quarantine\<close> (\<^verbatim>\<open>quarantine.py\<close>): the stream, path and saved-file checks agree.
  \<^item> \<open>Chain_Indexer\<close> (\<^verbatim>\<open>chain_indexer.py\<close>): events are absorbed exactly once, the cursor moves only past
    stored events, and the indexer catches up with the log.
  \<^item> \<open>Tx_Reconcile\<close> (\<^verbatim>\<open>tx_verification.py\<close>, \<^verbatim>\<open>registration_reconcile.py\<close>, its route in \<^verbatim>\<open>app.py\<close>): a batch changes
    exactly the rows Horizon settles.
  \<^item> \<open>Webhook\<close> (\<^verbatim>\<open>webhook.py\<close>): the delivery table stays well formed under concurrent dispatchers, and every
    delivery is settled after at most six attempts.
  \<^item> \<open>Idempotency\<close> (\<^verbatim>\<open>idempotency.py\<close>): repeated requests are answered from the record.

  \<^bold>\<open>Conventions.\<close> A raised exception is \<open>Inl\<close> of an error datatype (or \<open>None\<close> where the source makes no use
  of its kind), every early return a branch. A SQL table is the list of its rows, a statement one
  operation on it, a committed block one step. Clocks, environment variables and configuration are
  arguments. Text is a list of characters below code point 256. Instants and floats are rationals.
  Parameters, each with the hypotheses named where they are used: SHA-256 (\<open>H\<close>) and HMAC, Fernet, the
  Soroban RPC service, Horizon, webhook receivers, and the text of floats and containers.

  \<^bold>\<open>Bounds and fuel.\<close> The ancestry search has its interpreter stack as an argument; one frame more than
  there are records is proved enough. Following cursors takes as many requests as there are rows,
  plus one. The retention loops are total functions for the positive batch sizes up to 5000 that the
  constructor admits. Six webhook rounds follow from the limit of five retries.

  \<^bold>\<open>Not modelled.\<close> The other routes of \<^verbatim>\<open>app.py\<close> are request plumbing around these parts, media handling or
  reporting. Video processing (\<^verbatim>\<open>stego.py\<close>, \<^verbatim>\<open>noir.py\<close>, \<^verbatim>\<open>workspace.py\<close>) drives ffmpeg, Noir and files.
  \<^verbatim>\<open>fetch_external.py\<close> is HTTP. Metrics, logging, tracing, readiness probes and analytics observe the
  service and decide nothing about evidence. \<^verbatim>\<open>migration.py\<close> runs SQL scripts; the tables they create are
  the records of the theories above. The tools under \<^verbatim>\<open>src/devx\<close> and \<^verbatim>\<open>src/zk\<close> build, measure and release
  the project. Contracts, frontend and command-line client are written in other languages.
\<close>

end
